(* ===== verification/Prelude.thy ===== *)
theory Prelude
  imports Main "HOL-Library.Word" "HOL-Library.AList"
begin

text \<open>
  Vocabulary shared by all components: the machine integers of the Rust code, clocks,
  byte strings, the string operations of the standard library that the code uses, and the
  concurrent hash maps (\<open>DashMap\<close>, \<open>HashMap\<close>) as association lists with distinct keys.

  Integers. A \<open>u64\<close>, \<open>u32\<close>, \<open>u16\<close>, \<open>u8\<close> is a word of that width, so that \<open>+\<close>
  and \<open>*\<close> wrap as they do in the release profile of the crate (the development profile
  panics instead of wrapping). A \<open>usize\<close> that counts the elements of a buffer that is held
  in memory is a \<open>nat\<close>.

  Time. An \<open>Instant\<close> and a \<open>SystemTime\<close> are nanosecond counts; an operation that reads a
  clock takes the reading as an argument.

  Maps. The order of an association list stands for the (unspecified) iteration order of the
  hash map; every map of the model has distinct keys, which \<open>dash_wf\<close> says.
\<close>

unbundle bit_operations_syntax

named_theorems dash_simps \<open>lookup after an update of an association list\<close>
named_theorems wf_intros \<open>operations that keep a well-formedness invariant\<close>

section \<open>Integers, clocks, bytes\<close>

type_synonym u8 = "8 word"
type_synonym u16 = "16 word"
type_synonym u32 = "32 word"
type_synonym u64 = "64 word"
type_synonym bytes = "u8 list"
type_synonym instant = int
type_synonym system_time = int
type_synonym duration = nat

record clock =
  now_mono :: instant
  now_wall :: system_time

abbreviation secs :: "nat \<Rightarrow> duration" where
  "secs n \<equiv> n * 1000000000"

text \<open>\<open>Instant::elapsed\<close> saturates at zero when the clock reading is older.\<close>

definition elapsed :: "instant \<Rightarrow> instant \<Rightarrow> duration" where
  "elapsed now t = nat (now - t)"

definition saturating_sub :: "'a::len word \<Rightarrow> 'a word \<Rightarrow> 'a word" where
  "saturating_sub a b = (if b \<le> a then a - b else 0)"

definition len64 :: "'a list \<Rightarrow> u64" where
  "len64 xs = of_nat (length xs)"

text \<open>How a call can end other than by returning a value: with an error of the code, by a
  panic, or not at all.\<close>

datatype 'e abort = Err 'e | Panic | Hang

fun map_err :: "('e \<Rightarrow> 'f) \<Rightarrow> 'e abort \<Rightarrow> 'f abort" where
  "map_err f (Err e) = Err (f e)"
| "map_err f Panic = Panic"
| "map_err f Hang = Hang"

lemma elapsed_same [simp]: "elapsed t t = 0"
  by (simp add: elapsed_def)

lemma elapsed_mono: "t \<le> t' \<Longrightarrow> elapsed now t' \<le> elapsed now t"
  by (simp add: elapsed_def nat_mono)

lemma saturating_sub_le: "saturating_sub a b \<le> a"
  by (simp add: saturating_sub_def word_sub_le)

lemma unat_saturating_sub: "unat (saturating_sub a b) = unat a - unat b"
  by (auto simp: saturating_sub_def word_le_nat_alt unat_sub)

lemma saturating_sub_0 [simp]: "saturating_sub a 0 = a"
  by (simp add: saturating_sub_def)

lemma unat_len64: "length xs < 2 ^ 64 \<Longrightarrow> unat (len64 xs) = length xs"
  by (simp add: len64_def unat_of_nat take_bit_nat_eq_self)

lemma len64_Nil [simp]: "len64 [] = 0"
  by (simp add: len64_def)

lemma unat_plus_no_wrap: "unat (a::u64) + unat b < 2 ^ 64 \<Longrightarrow> unat (a + b) = unat a + unat b"
  by (simp add: unat_word_ariths)

lemma plus_no_wrap_less:
  assumes "unat (a::u64) + unat b < 2 ^ 64" shows "(a + b < c) = (unat a + unat b < unat c)"
  using assms by (simp add: word_less_nat_alt unat_plus_no_wrap)

lemma unat_u64_bound: "unat (x::u64) < 18446744073709551616"
  using unsigned_less [of x, where 'a = nat] by simp

lemma unat_ucast_u32 [simp]: "unat (ucast (x :: u32) :: u64) = unat x"
  by transfer simp

section \<open>Strings\<close>

abbreviation slash :: char where
  "slash \<equiv> CHR ''/''"

definition trim_start_matches :: "char \<Rightarrow> string \<Rightarrow> string" where
  "trim_start_matches c s = dropWhile (\<lambda>x. x = c) s"

definition trim_end_matches :: "char \<Rightarrow> string \<Rightarrow> string" where
  "trim_end_matches c s = rev (dropWhile (\<lambda>x. x = c) (rev s))"

definition trim_matches :: "char \<Rightarrow> string \<Rightarrow> string" where
  "trim_matches c s = trim_end_matches c (trim_start_matches c s)"

definition ends_with :: "char \<Rightarrow> string \<Rightarrow> bool" where
  "ends_with c s \<longleftrightarrow> s \<noteq> [] \<and> last s = c"

definition starts_with :: "char \<Rightarrow> string \<Rightarrow> bool" where
  "starts_with c s \<longleftrightarrow> s \<noteq> [] \<and> hd s = c"

text \<open>\<open>str::split\<close> on a character, and \<open>join\<close>: the pieces of a string of n separators are
  n + 1 strings.\<close>

fun split_on :: "char \<Rightarrow> string \<Rightarrow> string list" where
  "split_on c [] = [[]]"
| "split_on c (x # xs) =
     (if x = c then [] # split_on c xs
      else (case split_on c xs of [] \<Rightarrow> [[x]] | y # ys \<Rightarrow> (x # y) # ys))"

fun join_with :: "string \<Rightarrow> string list \<Rightarrow> string" where
  "join_with sep [] = []"
| "join_with sep [x] = x"
| "join_with sep (x # y # zs) = x @ sep @ join_with sep (y # zs)"

fun strip_prefix :: "string \<Rightarrow> string \<Rightarrow> string option" where
  "strip_prefix s [] = Some s"
| "strip_prefix [] (p # ps) = None"
| "strip_prefix (x # xs) (p # ps) = (if x = p then strip_prefix xs ps else None)"

definition replace_char :: "char \<Rightarrow> char \<Rightarrow> string \<Rightarrow> string" where
  "replace_char a b s = map (\<lambda>x. if x = a then b else x) s"

lemma split_on_nonempty [simp]: "split_on c s \<noteq> []"
  by (induction s) (auto split: list.splits)

lemma split_on_no_sep: "c \<notin> set s \<Longrightarrow> split_on c s = [s]"
  by (induction s) auto

lemma split_on_append: "split_on c (a @ c # b) = split_on c a @ split_on c b"
  by (induction a) (auto split: list.splits)

lemma split_on_pieces: "x \<in> set (split_on c s) \<Longrightarrow> c \<notin> set x"
proof (induction s arbitrary: x)
  case (Cons a s)
  then show ?case by (cases "split_on c s") (auto split: if_splits)
qed simp

lemma join_with_Cons: "ys \<noteq> [] \<Longrightarrow> join_with sep (x # ys) = x @ sep @ join_with sep ys"
  by (cases ys) auto

lemma join_split: "join_with [c] (split_on c s) = s"
proof (induction s)
  case (Cons a s)
  then show ?case by (cases "split_on c s"; cases "tl (split_on c s)") (auto simp: join_with_Cons)
qed simp

lemma join_with_snoc:
  "xs \<noteq> [] \<Longrightarrow> join_with sep (xs @ [y]) = join_with sep xs @ sep @ y"
proof (induction xs)
  case (Cons x xs)
  then show ?case by (cases "xs = []") (auto simp: join_with_Cons)
qed simp

lemma length_split_on: "length (split_on c s) = Suc (count_list s c)"
  by (induction s) (auto split: list.splits)

lemma trim_end_no_end: "\<not> ends_with c s \<Longrightarrow> trim_end_matches c s = s"
  by (cases s rule: rev_cases) (auto simp: trim_end_matches_def ends_with_def)

lemma trim_start_no_start: "\<not> starts_with c s \<Longrightarrow> trim_start_matches c s = s"
  by (cases s) (auto simp: trim_start_matches_def starts_with_def)

lemma trim_end_not_ends [simp]: "\<not> ends_with c (trim_end_matches c s)"
  by (induction s rule: rev_induct) (auto simp: trim_end_matches_def ends_with_def)

lemma trim_start_not_starts [simp]: "\<not> starts_with c (trim_start_matches c s)"
  by (induction s) (auto simp: trim_start_matches_def starts_with_def)

lemma trim_end_decomp: "\<exists>n. s = trim_end_matches c s @ replicate n c"
proof (induction s rule: rev_induct)
  case (snoc x s)
  then obtain n where n: "s = trim_end_matches c s @ replicate n c" by blast
  show ?case
  proof (cases "x = c")
    case True
    then have "trim_end_matches c (s @ [x]) = trim_end_matches c s"
      by (simp add: trim_end_matches_def)
    then show ?thesis using n True
      by (metis append.assoc replicate_append_same replicate_Suc)
  next
    case False
    then show ?thesis by (auto simp: trim_end_matches_def intro: exI [of _ 0])
  qed
qed (simp add: trim_end_matches_def)

lemma trim_end_starts: "\<not> starts_with c s \<Longrightarrow> \<not> starts_with c (trim_end_matches c s)"
  using trim_end_decomp [of s c]
  by (metis append_is_Nil_conv hd_append2 starts_with_def)

lemma trim_matches_not [simp]:
  "\<not> starts_with c (trim_matches c s)" "\<not> ends_with c (trim_matches c s)"
  by (simp_all add: trim_matches_def trim_end_starts)

lemma trim_matches_id:
  "\<not> starts_with c s \<Longrightarrow> \<not> ends_with c s \<Longrightarrow> trim_matches c s = s"
  by (simp add: trim_matches_def trim_start_no_start trim_end_no_end)

lemma trim_matches_idem [simp]: "trim_matches c (trim_matches c s) = trim_matches c s"
  by (simp add: trim_matches_id)

lemma trim_matches_iff:
  "trim_matches c s = s \<longleftrightarrow> \<not> starts_with c s \<and> \<not> ends_with c s"
  by (metis trim_matches_id trim_matches_not)

section \<open>Hash maps\<close>

type_synonym ('k, 'v) dash = "('k \<times> 'v) list"

abbreviation dash_get :: "('k, 'v) dash \<Rightarrow> 'k \<Rightarrow> 'v option" where
  "dash_get m k \<equiv> map_of m k"

abbreviation dash_insert :: "'k \<Rightarrow> 'v \<Rightarrow> ('k, 'v) dash \<Rightarrow> ('k, 'v) dash" where
  "dash_insert k v m \<equiv> AList.update k v m"

abbreviation dash_remove :: "'k \<Rightarrow> ('k, 'v) dash \<Rightarrow> ('k, 'v) dash" where
  "dash_remove k m \<equiv> AList.delete k m"

definition dash_wf :: "('k, 'v) dash \<Rightarrow> bool" where
  "dash_wf m \<longleftrightarrow> distinct (map fst m)"

text \<open>\<open>get_mut\<close>: change the entry of a key that is present.\<close>

definition dash_modify :: "'k \<Rightarrow> ('v \<Rightarrow> 'v) \<Rightarrow> ('k, 'v) dash \<Rightarrow> ('k, 'v) dash" where
  "dash_modify k f m =
     (case dash_get m k of None \<Rightarrow> m | Some v \<Rightarrow> dash_insert k (f v) m)"

lemma dash_get_insert [simp, dash_simps]:
  "dash_get (dash_insert k v m) k' = (if k' = k then Some v else dash_get m k')"
  by (simp add: update_conv)

lemma dash_get_remove [simp, dash_simps]:
  "dash_get (dash_remove k m) k' = (if k' = k then None else dash_get m k')"
  by (simp add: delete_conv)

lemma dash_get_modify [simp, dash_simps]:
  "dash_get (dash_modify k f m) k' =
     (if k' = k then map_option f (dash_get m k) else dash_get m k')"
  by (auto simp: dash_modify_def split: option.splits)

lemma dash_wf_Nil [simp]: "dash_wf []"
  by (simp add: dash_wf_def)

lemma dash_wf_single [simp]: "dash_wf [e]"
  by (simp add: dash_wf_def)

lemma dash_wf_insert [simp, wf_intros]: "dash_wf m \<Longrightarrow> dash_wf (dash_insert k v m)"
  by (simp add: dash_wf_def distinct_update)

lemma dash_wf_remove [simp, wf_intros]: "dash_wf m \<Longrightarrow> dash_wf (dash_remove k m)"
  by (simp add: dash_wf_def distinct_delete)

lemma dash_wf_modify [simp, wf_intros]: "dash_wf m \<Longrightarrow> dash_wf (dash_modify k f m)"
  by (simp add: dash_modify_def split: option.splits)

lemma dash_wf_filter [simp, wf_intros]: "dash_wf m \<Longrightarrow> dash_wf (filter P m)"
  by (simp add: dash_wf_def distinct_map_filter)

lemma dash_mem_iff: "dash_wf m \<Longrightarrow> (k, v) \<in> set m \<longleftrightarrow> dash_get m k = Some v"
  by (simp add: dash_wf_def)

lemma dash_get_filter_key: "dash_get (filter (\<lambda>e. P (fst e)) m) k = (if P k then dash_get m k else None)"
  by (induction m) auto

lemma dash_remove_filter: "dash_remove k m = filter (\<lambda>e. fst e \<noteq> k) m"
  by (induction m) auto

lemma length_remove_less: "dash_get m k = Some v \<Longrightarrow> length (dash_remove k m) < length m"
  unfolding dash_remove_filter
  by (rule length_filter_less [of "(k, v)"]) (auto dest: map_of_SomeD)

lemma length_remove_present:
  "dash_wf m \<Longrightarrow> dash_get m k = Some v \<Longrightarrow> Suc (length (dash_remove k m)) = length m"
proof (induction m)
  case (Cons e m)
  show ?case
  proof (cases "fst e = k")
    case True
    with Cons.prems(1) have "dash_get m k = None"
      by (auto simp: dash_wf_def map_of_eq_None_iff)
    then have "dash_remove k m = m" by (simp add: delete_id map_of_eq_None_iff)
    with True show ?thesis by (cases e) simp
  next
    case False
    with Cons show ?thesis by (cases e) (auto simp: dash_wf_def)
  qed
qed simp

lemma dash_remove_absent: "dash_get m k = None \<Longrightarrow> dash_remove k m = m"
  by (simp add: delete_id map_of_eq_None_iff)

lemma length_insert_absent:
  "dash_get m k = None \<Longrightarrow> length (dash_insert k v m) = Suc (length m)"
  by (induction m) (auto split: if_splits)

lemma length_insert_present:
  "dash_get m k = Some w \<Longrightarrow> length (dash_insert k v m) = length m"
  by (induction m) (auto split: if_splits)

lemma length_insert_le: "length (dash_insert k v m) \<le> Suc (length m)"
  by (cases "dash_get m k") (simp_all add: length_insert_absent length_insert_present)

text \<open>Sizes summed over the entries of a map.\<close>

definition dash_sum :: "('v \<Rightarrow> nat) \<Rightarrow> ('k, 'v) dash \<Rightarrow> nat" where
  "dash_sum f m = sum_list (map (\<lambda>e. f (snd e)) m)"

lemma dash_sum_Nil [simp]: "dash_sum f [] = 0"
  by (simp add: dash_sum_def)

lemma dash_sum_Cons [simp]: "dash_sum f (e # m) = f (snd e) + dash_sum f m"
  by (simp add: dash_sum_def)

lemma dash_sum_insert_absent:
  "dash_get m k = None \<Longrightarrow> dash_sum f (dash_insert k v m) = dash_sum f m + f v"
  by (induction m) (auto split: if_splits)

lemma dash_sum_insert_present:
  "dash_get m k = Some w \<Longrightarrow> dash_sum f (dash_insert k v m) + f w = dash_sum f m + f v"
  by (induction m) (auto split: if_splits)

lemma dash_sum_insert_le: "dash_sum f (dash_insert k v m) \<le> dash_sum f m + f v"
  using dash_sum_insert_absent [of m k f v] dash_sum_insert_present [of m k _ f v]
  by (cases "dash_get m k") force+

lemma dash_sum_remove_le: "dash_sum f (dash_remove k m) \<le> dash_sum f m"
  by (induction m) auto

lemma dash_sum_remove_present:
  "dash_wf m \<Longrightarrow> dash_get m k = Some v \<Longrightarrow> dash_sum f (dash_remove k m) + f v = dash_sum f m"
proof (induction m)
  case (Cons e m)
  show ?case
  proof (cases "fst e = k")
    case True
    with Cons.prems(1) have "dash_get m k = None"
      by (auto simp: dash_wf_def map_of_eq_None_iff)
    then have "dash_remove k m = m" by (rule dash_remove_absent)
    with True Cons.prems show ?thesis by (cases e) simp
  next
    case False
    with Cons show ?thesis by (cases e) (auto simp: dash_wf_def)
  qed
qed simp

lemma dash_get_sum_le: "dash_get m k = Some v \<Longrightarrow> f v \<le> dash_sum f m"
  by (induction m) (auto split: if_splits)

end
