(* ===== verification/Platform.thy ===== *)
theory Platform
  imports Prelude
begin

text \<open>
  The platform layer (src/src/fs/platform.rs): file kinds, open flags, error numbers,
  timestamps and their Windows FILETIME form, and the normalisation of paths.

  The constants of the \<open>unix\<close> arms come from libc; the model takes the values of the Linux
  ABI on x86-64. The functions of the \<open>windows\<close> arms carry the suffix \<open>_win\<close>.
\<close>

section \<open>File kinds\<close>

datatype file_kind =
  RegularFile | Directory | Symlink | BlockDevice | CharDevice | NamedPipe | Socket

definition file_kind_default :: file_kind where
  "file_kind_default = RegularFile"

text \<open>The enumeration of the fuse3 crate, and the two conversions between the enumerations.\<close>

datatype fuse_file_type =
  FtDirectory | FtRegularFile | FtSymlink | FtBlockDevice | FtCharDevice | FtNamedPipe | FtSocket

fun kind_from_fuse :: "fuse_file_type \<Rightarrow> file_kind" where
  "kind_from_fuse FtDirectory = Directory"
| "kind_from_fuse FtRegularFile = RegularFile"
| "kind_from_fuse FtSymlink = Symlink"
| "kind_from_fuse FtBlockDevice = BlockDevice"
| "kind_from_fuse FtCharDevice = CharDevice"
| "kind_from_fuse FtNamedPipe = NamedPipe"
| "kind_from_fuse FtSocket = Socket"

fun kind_to_fuse :: "file_kind \<Rightarrow> fuse_file_type" where
  "kind_to_fuse Directory = FtDirectory"
| "kind_to_fuse RegularFile = FtRegularFile"
| "kind_to_fuse Symlink = FtSymlink"
| "kind_to_fuse BlockDevice = FtBlockDevice"
| "kind_to_fuse CharDevice = FtCharDevice"
| "kind_to_fuse NamedPipe = FtNamedPipe"
| "kind_to_fuse Socket = FtSocket"

text \<open>The Windows attribute bits the code reads, with the values of the Win32 API.\<close>

definition FILE_ATTRIBUTE_DIRECTORY :: u32 where "FILE_ATTRIBUTE_DIRECTORY = 0x10"
definition FILE_ATTRIBUTE_NORMAL :: u32 where "FILE_ATTRIBUTE_NORMAL = 0x80"
definition FILE_ATTRIBUTE_REPARSE_POINT :: u32 where "FILE_ATTRIBUTE_REPARSE_POINT = 0x400"

fun to_win_attrs :: "file_kind \<Rightarrow> u32" where
  "to_win_attrs Directory = FILE_ATTRIBUTE_DIRECTORY"
| "to_win_attrs Symlink = FILE_ATTRIBUTE_REPARSE_POINT"
| "to_win_attrs _ = FILE_ATTRIBUTE_NORMAL"

definition from_win_attrs :: "u32 \<Rightarrow> file_kind" where
  "from_win_attrs attrs =
     (if attrs AND FILE_ATTRIBUTE_DIRECTORY \<noteq> 0 then Directory
      else if attrs AND FILE_ATTRIBUTE_REPARSE_POINT \<noteq> 0 then Symlink
      else RegularFile)"

lemma kind_fuse_inverse [simp]:
  "kind_from_fuse (kind_to_fuse k) = k" "kind_to_fuse (kind_from_fuse t) = t"
  by (cases k; simp) (cases t; simp)

section \<open>Open flags\<close>

definition O_RDONLY :: u32 where "O_RDONLY = 0"
definition O_WRONLY :: u32 where "O_WRONLY = 1"
definition O_RDWR :: u32 where "O_RDWR = 2"
definition O_ACCMODE :: u32 where "O_ACCMODE = 3"
definition O_APPEND :: u32 where "O_APPEND = 0x400"
definition O_TRUNC :: u32 where "O_TRUNC = 0x200"
definition O_CREAT :: u32 where "O_CREAT = 0x40"
definition O_EXCL :: u32 where "O_EXCL = 0x80"

lemmas open_flags_defs =
  O_RDONLY_def O_WRONLY_def O_RDWR_def O_ACCMODE_def O_APPEND_def O_TRUNC_def O_CREAT_def O_EXCL_def

definition is_writable :: "u32 \<Rightarrow> bool" where
  "is_writable flags =
     (let access_mode = flags AND O_ACCMODE in access_mode = O_WRONLY \<or> access_mode = O_RDWR)"

definition is_readable :: "u32 \<Rightarrow> bool" where
  "is_readable flags =
     (let access_mode = flags AND O_ACCMODE in access_mode = O_RDONLY \<or> access_mode = O_RDWR)"

definition is_append :: "u32 \<Rightarrow> bool" where
  "is_append flags \<longleftrightarrow> flags AND O_APPEND \<noteq> 0"

definition is_truncate :: "u32 \<Rightarrow> bool" where
  "is_truncate flags \<longleftrightarrow> flags AND O_TRUNC \<noteq> 0"

section \<open>Error numbers\<close>

definition ENOENT :: int where "ENOENT = 2"
definition EIO :: int where "EIO = 5"
definition ENXIO :: int where "ENXIO = 6"
definition EBADF :: int where "EBADF = 9"
definition EAGAIN :: int where "EAGAIN = 11"
definition EACCES :: int where "EACCES = 13"
definition EEXIST :: int where "EEXIST = 17"
definition ENOTDIR :: int where "ENOTDIR = 20"
definition EISDIR :: int where "EISDIR = 21"
definition EINVAL :: int where "EINVAL = 22"
definition ENOSPC :: int where "ENOSPC = 28"
definition EROFS :: int where "EROFS = 30"
definition ENOSYS :: int where "ENOSYS = 38"
definition ENOTEMPTY :: int where "ENOTEMPTY = 39"
definition ENOTCONN :: int where "ENOTCONN = 107"

lemmas errno_defs =
  ENOENT_def EIO_def ENXIO_def EBADF_def EAGAIN_def EACCES_def EEXIST_def ENOTDIR_def EISDIR_def
  EINVAL_def ENOSPC_def EROFS_def ENOSYS_def ENOTEMPTY_def ENOTCONN_def

section \<open>Timestamps\<close>

text \<open>A \<open>SystemTime\<close> is the number of nanoseconds since the Unix epoch, negative before it.
  Seconds are an \<open>i64\<close>, read off the word as a signed number.\<close>

record timestamp =
  ts_sec :: u64
  ts_nsec :: u32

definition timestamp_of_system_time :: "system_time \<Rightarrow> timestamp" where
  "timestamp_of_system_time st =
     (if 0 \<le> st
      then \<lparr>ts_sec = of_int (st div 1000000000), ts_nsec = of_int (st mod 1000000000)\<rparr>
      else \<lparr>ts_sec = 0, ts_nsec = 0\<rparr>)"

text \<open>\<open>Duration::new\<close> carries nanoseconds beyond a second into the seconds, and panics when they
  overflow. A \<open>SystemTime\<close> of the \<open>unix\<close> arm holds its seconds in an \<open>i64\<close>, one of the
  \<open>windows\<close> arm counts the intervals of 100 nanoseconds since 1601 in an \<open>i64\<close>; adding a
  duration panics beyond.\<close>

definition duration_new :: "u64 \<Rightarrow> u32 \<Rightarrow> duration option" where
  "duration_new s n =
     (let total = unat s * 1000000000 + unat n
      in if total < 2 ^ 64 * 1000000000 then Some total else None)"

definition epoch_plus :: "duration \<Rightarrow> system_time option" where
  "epoch_plus d = (if d < 2 ^ 63 * 1000000000 then Some (int d) else None)"

definition epoch_plus_win :: "duration \<Rightarrow> system_time option" where
  "epoch_plus_win d =
     (if 116444736000000000 + d div 100 < 2 ^ 63 then Some (int (d div 100 * 100)) else None)"

text \<open>The value is \<open>None\<close> for a panic.\<close>

definition system_time_of_timestamp :: "timestamp \<Rightarrow> system_time option" where
  "system_time_of_timestamp ts =
     (case duration_new (ts_sec ts) (ts_nsec ts) of
        None \<Rightarrow> None
      | Some duration \<Rightarrow> if 0 \<le> sint (ts_sec ts) then epoch_plus duration else Some 0)"

definition system_time_of_timestamp_win :: "timestamp \<Rightarrow> system_time option" where
  "system_time_of_timestamp_win ts =
     (case duration_new (ts_sec ts) (ts_nsec ts) of
        None \<Rightarrow> None
      | Some duration \<Rightarrow> if 0 \<le> sint (ts_sec ts) then epoch_plus_win duration else Some 0)"

definition EPOCH_DIFF :: u64 where
  "EPOCH_DIFF = 116444736000000000"

definition to_filetime :: "timestamp \<Rightarrow> u64" where
  "to_filetime ts =
     (let unix_100ns = ts_sec ts * 10000000 + ucast (ts_nsec ts) div 100
      in unix_100ns + EPOCH_DIFF)"

definition from_filetime :: "u64 \<Rightarrow> timestamp" where
  "from_filetime ft =
     (if ft < EPOCH_DIFF then \<lparr>ts_sec = 0, ts_nsec = 0\<rparr>
      else let unix_100ns = ft - EPOCH_DIFF
           in \<lparr>ts_sec = unix_100ns div 10000000,
               ts_nsec = ucast ((unix_100ns mod 10000000) * 100)\<rparr>)"

section \<open>Paths\<close>

definition normalize_path :: "string \<Rightarrow> string" where
  "normalize_path path = trim_matches slash path"

definition normalize_path_win :: "string \<Rightarrow> string" where
  "normalize_path_win path = trim_matches slash (replace_char (CHR 0x5C) slash path)"

definition to_native_path :: "string \<Rightarrow> string" where
  "to_native_path path = path"

definition to_native_path_win :: "string \<Rightarrow> string" where
  "to_native_path_win path = replace_char slash (CHR 0x5C) path"

text \<open>A path without slashes at its ends: what every key of the inode table is.\<close>

abbreviation normalized :: "string \<Rightarrow> bool" where
  "normalized p \<equiv> normalize_path p = p"

lemma normalize_idem [simp]: "normalize_path (normalize_path p) = normalize_path p"
  by (simp add: normalize_path_def)

lemma normalized_iff: "normalized p \<longleftrightarrow> \<not> starts_with slash p \<and> \<not> ends_with slash p"
  by (simp add: normalize_path_def trim_matches_iff)

lemma normalized_Nil [simp]: "normalize_path [] = []"
  by (simp add: normalize_path_def trim_matches_def trim_start_matches_def trim_end_matches_def)

end
