(* ===== verification/Errors.thy ===== *)
theory Errors
  imports Platform
begin

text \<open>
  Error values (src/src/utils/error.rs), their translation to error numbers, and the
  classification of errors that the retry loop uses (src/src/storage/retry.rs).

  The error kinds of OpenDAL are those the code names; every other kind of that open
  enumeration is \<open>OdOther\<close>. Messages of I/O and storage errors are not kept: the code reads
  only their number and kind.
\<close>

datatype od_kind =
  OdUnexpected | OdUnsupported | OdNotFound | OdPermissionDenied | OdIsADirectory
| OdNotADirectory | OdAlreadyExists | OdRateLimited | OdOther nat

datatype io_kind =
  IoConnectionReset | IoConnectionAborted | IoTimedOut | IoInterrupted | IoOther nat

record io_error =
  raw_os_error :: "int option"
  ioe_kind :: io_kind

datatype obs_fuse_error =
  Io io_error
| Storage od_kind
| ConfigError string
| InodeNotFound u64
| PathNotFound string
| HandleNotFound u64
| PermissionDenied string
| FileExists string
| NotADirectory string
| IsADirectory string
| DirectoryNotEmpty string
| InvalidArgument string
| NotSupported string
| CacheError string
| MultipartUpload string
| Internal string

fun storage_error_to_errno :: "od_kind \<Rightarrow> int" where
  "storage_error_to_errno OdNotFound = ENOENT"
| "storage_error_to_errno OdPermissionDenied = EACCES"
| "storage_error_to_errno OdAlreadyExists = EEXIST"
| "storage_error_to_errno OdNotADirectory = ENOTDIR"
| "storage_error_to_errno OdIsADirectory = EISDIR"
| "storage_error_to_errno OdRateLimited = EAGAIN"
| "storage_error_to_errno OdUnsupported = ENOSYS"
| "storage_error_to_errno _ = EIO"

fun to_errno :: "obs_fuse_error \<Rightarrow> int" where
  "to_errno (Io e) = (case raw_os_error e of Some n \<Rightarrow> n | None \<Rightarrow> EIO)"
| "to_errno (Storage e) = storage_error_to_errno e"
| "to_errno (ConfigError _) = EINVAL"
| "to_errno (InodeNotFound _) = ENOENT"
| "to_errno (PathNotFound _) = ENOENT"
| "to_errno (HandleNotFound _) = EBADF"
| "to_errno (PermissionDenied _) = EACCES"
| "to_errno (FileExists _) = EEXIST"
| "to_errno (NotADirectory _) = ENOTDIR"
| "to_errno (IsADirectory _) = EISDIR"
| "to_errno (DirectoryNotEmpty _) = ENOTEMPTY"
| "to_errno (InvalidArgument _) = EINVAL"
| "to_errno (NotSupported _) = ENOSYS"
| "to_errno (CacheError _) = EIO"
| "to_errno (MultipartUpload _) = EIO"
| "to_errno (Internal _) = EIO"

fun od_is_retryable :: "od_kind \<Rightarrow> bool" where
  "od_is_retryable OdRateLimited = True"
| "od_is_retryable OdUnexpected = True"
| "od_is_retryable _ = False"

fun is_retryable :: "obs_fuse_error \<Rightarrow> bool" where
  "is_retryable (Storage e) = (e = OdRateLimited \<or> e = OdUnexpected)"
| "is_retryable (Io e) =
     (ioe_kind e = IoConnectionReset \<or> ioe_kind e = IoConnectionAborted \<or>
      ioe_kind e = IoTimedOut \<or> ioe_kind e = IoInterrupted)"
| "is_retryable _ = False"

text \<open>The crate-wide \<open>Result\<close>: \<open>Inl\<close> is every way a call does not return a value.\<close>

type_synonym 'a result = "obs_fuse_error abort + 'a"

end
