(* ===== verification/Decimal.thy ===== *)
theory Decimal
  imports Prelude
begin

text \<open>
  Numbers as strings: the formatting of an unsigned integer with \<open>{}\<close> and \<open>to_string\<close>, and
  \<open>from_str_radix\<close> and \<open>parse\<close> of the standard library for an unsigned type of a given width.
\<close>

definition digit_char :: "nat \<Rightarrow> char" where
  "digit_char d = char_of (48 + d)"

fun decimal :: "nat \<Rightarrow> string" where
  "decimal n = (if n < 10 then [digit_char n] else decimal (n div 10) @ [digit_char (n mod 10)])"

declare decimal.simps [simp del]

definition digit_value :: "nat \<Rightarrow> char \<Rightarrow> nat option" where
  "digit_value radix c =
     (let d = of_char c in if 48 \<le> d \<and> d < 48 + radix then Some (d - 48) else (None :: nat option))"

fun digits_value :: "nat \<Rightarrow> nat \<Rightarrow> string \<Rightarrow> nat option" where
  "digits_value radix acc [] = Some acc"
| "digits_value radix acc (c # cs) =
     (case digit_value radix c of None \<Rightarrow> None | Some d \<Rightarrow> digits_value radix (acc * radix + d) cs)"

text \<open>One leading plus sign is accepted; an empty number, a foreign character and a value that does
  not fit the width are errors. The radix is at most ten here.\<close>

definition from_str_radix :: "nat \<Rightarrow> nat \<Rightarrow> string \<Rightarrow> nat option" where
  "from_str_radix width radix s =
     (let t = (if starts_with (CHR ''+'') s then tl s else s)
      in if t = [] then None
         else (case digits_value radix 0 t of
                 None \<Rightarrow> None
               | Some v \<Rightarrow> if v < 2 ^ width then Some v else None))"

lemma of_char_digit [simp]: "d < 10 \<Longrightarrow> (of_char (digit_char d) :: nat) = 48 + d"
  by (simp add: digit_char_def of_char_of)

lemma digit_value_digit [simp]: "d < 10 \<Longrightarrow> digit_value 10 (digit_char d) = Some d"
  by (simp add: digit_value_def Let_def)

lemma digits_value_append:
  "digits_value r a (xs @ ys) =
     (case digits_value r a xs of None \<Rightarrow> None | Some v \<Rightarrow> digits_value r v ys)"
  by (induction xs arbitrary: a) (auto split: option.splits)

lemma decimal_nonempty [simp]: "decimal n \<noteq> []"
  by (subst decimal.simps) simp

lemma digits_value_decimal: "digits_value 10 0 (decimal n) = Some n"
proof (induction n rule: decimal.induct)
  case (1 n)
  show ?case
  proof (cases "n < 10")
    case True
    then show ?thesis by (simp add: decimal.simps [of n])
  next
    case False
    with 1 show ?thesis by (simp add: decimal.simps [of n] digits_value_append)
  qed
qed

lemma decimal_digits: "c \<in> set (decimal n) \<Longrightarrow> 48 \<le> (of_char c :: nat) \<and> (of_char c :: nat) < 58"
proof (induction n rule: decimal.induct)
  case (1 n)
  show ?case
  proof (cases "n < 10")
    case True
    with 1 show ?thesis by (simp add: decimal.simps [of n])
  next
    case False
    then have "c \<in> set (decimal (n div 10)) \<or> c = digit_char (n mod 10)"
      using 1 by (auto simp: decimal.simps [of n])
    with 1 False show ?thesis by auto
  qed
qed

lemma decimal_no_char: "(of_char c :: nat) < 48 \<or> 58 \<le> (of_char c :: nat) \<Longrightarrow> c \<notin> set (decimal n)"
  using decimal_digits [of c n] by auto

lemma decimal_inj: "decimal m = decimal n \<Longrightarrow> m = n"
  by (metis digits_value_decimal option.inject)

text \<open>What a number is printed as parses back to it.\<close>

lemma parse_decimal: "n < 2 ^ w \<Longrightarrow> from_str_radix w 10 (decimal n) = Some n"
proof -
  assume "n < 2 ^ w"
  moreover have "\<not> starts_with (CHR ''+'') (decimal n)"
  proof -
    have "CHR ''+'' \<notin> set (decimal n)" by (rule decimal_no_char) simp
    then show ?thesis by (metis decimal_nonempty hd_in_set starts_with_def)
  qed
  ultimately show ?thesis by (simp add: from_str_radix_def digits_value_decimal)
qed

end
