(* ===== verification/Metrics.thy ===== *)
theory Metrics
  imports Decimal
begin

text \<open>
  The counters of src/src/utils/metrics.rs. Each is an atomic \<open>u64\<close>; \<open>fetch_add\<close> wraps.
  The operations on \<open>f64\<close> that the hit rates need are arguments; the uptime is an argument of the
  summary, and how a duration and a rate are formatted are arguments of its printed form.
\<close>

record metrics =
  read_ops :: u64
  read_bytes :: u64
  read_cache_hits :: u64
  read_cache_misses :: u64
  write_ops :: u64
  write_bytes :: u64
  write_buffer_flushes :: u64
  lookup_ops :: u64
  getattr_ops :: u64
  readdir_ops :: u64
  metadata_cache_hits :: u64
  metadata_cache_misses :: u64
  obs_get_ops :: u64
  obs_put_ops :: u64
  obs_list_ops :: u64
  obs_delete_ops :: u64
  obs_errors :: u64

definition metrics_new :: metrics where
  "metrics_new =
     \<lparr>read_ops = 0, read_bytes = 0, read_cache_hits = 0, read_cache_misses = 0,
      write_ops = 0, write_bytes = 0, write_buffer_flushes = 0,
      lookup_ops = 0, getattr_ops = 0, readdir_ops = 0,
      metadata_cache_hits = 0, metadata_cache_misses = 0,
      obs_get_ops = 0, obs_put_ops = 0, obs_list_ops = 0, obs_delete_ops = 0, obs_errors = 0\<rparr>"

definition inc_read_ops :: "metrics \<Rightarrow> metrics" where
  "inc_read_ops m = m\<lparr>read_ops := read_ops m + 1\<rparr>"

definition add_read_bytes :: "u64 \<Rightarrow> metrics \<Rightarrow> metrics" where
  "add_read_bytes n m = m\<lparr>read_bytes := read_bytes m + n\<rparr>"

definition inc_read_cache_hit :: "metrics \<Rightarrow> metrics" where
  "inc_read_cache_hit m = m\<lparr>read_cache_hits := read_cache_hits m + 1\<rparr>"

definition inc_read_cache_miss :: "metrics \<Rightarrow> metrics" where
  "inc_read_cache_miss m = m\<lparr>read_cache_misses := read_cache_misses m + 1\<rparr>"

definition inc_write_ops :: "metrics \<Rightarrow> metrics" where
  "inc_write_ops m = m\<lparr>write_ops := write_ops m + 1\<rparr>"

definition add_write_bytes :: "u64 \<Rightarrow> metrics \<Rightarrow> metrics" where
  "add_write_bytes n m = m\<lparr>write_bytes := write_bytes m + n\<rparr>"

definition inc_write_buffer_flush :: "metrics \<Rightarrow> metrics" where
  "inc_write_buffer_flush m = m\<lparr>write_buffer_flushes := write_buffer_flushes m + 1\<rparr>"

definition inc_lookup_ops :: "metrics \<Rightarrow> metrics" where
  "inc_lookup_ops m = m\<lparr>lookup_ops := lookup_ops m + 1\<rparr>"

definition inc_getattr_ops :: "metrics \<Rightarrow> metrics" where
  "inc_getattr_ops m = m\<lparr>getattr_ops := getattr_ops m + 1\<rparr>"

definition inc_readdir_ops :: "metrics \<Rightarrow> metrics" where
  "inc_readdir_ops m = m\<lparr>readdir_ops := readdir_ops m + 1\<rparr>"

definition inc_metadata_cache_hit :: "metrics \<Rightarrow> metrics" where
  "inc_metadata_cache_hit m = m\<lparr>metadata_cache_hits := metadata_cache_hits m + 1\<rparr>"

definition inc_metadata_cache_miss :: "metrics \<Rightarrow> metrics" where
  "inc_metadata_cache_miss m = m\<lparr>metadata_cache_misses := metadata_cache_misses m + 1\<rparr>"

definition inc_obs_get :: "metrics \<Rightarrow> metrics" where
  "inc_obs_get m = m\<lparr>obs_get_ops := obs_get_ops m + 1\<rparr>"

definition inc_obs_put :: "metrics \<Rightarrow> metrics" where
  "inc_obs_put m = m\<lparr>obs_put_ops := obs_put_ops m + 1\<rparr>"

definition inc_obs_list :: "metrics \<Rightarrow> metrics" where
  "inc_obs_list m = m\<lparr>obs_list_ops := obs_list_ops m + 1\<rparr>"

definition inc_obs_delete :: "metrics \<Rightarrow> metrics" where
  "inc_obs_delete m = m\<lparr>obs_delete_ops := obs_delete_ops m + 1\<rparr>"

definition inc_obs_error :: "metrics \<Rightarrow> metrics" where
  "inc_obs_error m = m\<lparr>obs_errors := obs_errors m + 1\<rparr>"

lemmas metrics_ops =
  inc_read_ops_def add_read_bytes_def inc_read_cache_hit_def inc_read_cache_miss_def
  inc_write_ops_def add_write_bytes_def inc_write_buffer_flush_def inc_lookup_ops_def
  inc_getattr_ops_def inc_readdir_ops_def inc_metadata_cache_hit_def inc_metadata_cache_miss_def
  inc_obs_get_def inc_obs_put_def inc_obs_list_def inc_obs_delete_def inc_obs_error_def

section \<open>The summary\<close>

text \<open>A hit rate; the sum of the two counters wraps as in a release build.\<close>

definition hit_rate :: "(u64 \<Rightarrow> 'f) \<Rightarrow> ('f \<Rightarrow> 'f \<Rightarrow> 'f) \<Rightarrow> u64 \<Rightarrow> u64 \<Rightarrow> 'f" where
  "hit_rate as_f64 div_f64 hits misses =
     (let total = hits + misses in if total = 0 then as_f64 0 else div_f64 (as_f64 hits) (as_f64 total))"

definition read_cache_hit_rate :: "(u64 \<Rightarrow> 'f) \<Rightarrow> ('f \<Rightarrow> 'f \<Rightarrow> 'f) \<Rightarrow> metrics \<Rightarrow> 'f" where
  "read_cache_hit_rate as_f64 div_f64 m = hit_rate as_f64 div_f64 (read_cache_hits m) (read_cache_misses m)"

definition metadata_cache_hit_rate :: "(u64 \<Rightarrow> 'f) \<Rightarrow> ('f \<Rightarrow> 'f \<Rightarrow> 'f) \<Rightarrow> metrics \<Rightarrow> 'f" where
  "metadata_cache_hit_rate as_f64 div_f64 m =
     hit_rate as_f64 div_f64 (metadata_cache_hits m) (metadata_cache_misses m)"

record 'f metrics_summary =
  ms_uptime :: duration
  ms_read_ops :: u64
  ms_read_bytes :: u64
  ms_read_cache_hit_rate :: 'f
  ms_write_ops :: u64
  ms_write_bytes :: u64
  ms_write_buffer_flushes :: u64
  ms_lookup_ops :: u64
  ms_getattr_ops :: u64
  ms_readdir_ops :: u64
  ms_metadata_cache_hit_rate :: 'f
  ms_obs_get_ops :: u64
  ms_obs_put_ops :: u64
  ms_obs_list_ops :: u64
  ms_obs_delete_ops :: u64
  ms_obs_errors :: u64

definition summary :: "(u64 \<Rightarrow> 'f) \<Rightarrow> ('f \<Rightarrow> 'f \<Rightarrow> 'f) \<Rightarrow> duration \<Rightarrow> metrics \<Rightarrow> 'f metrics_summary" where
  "summary as_f64 div_f64 uptime m =
     \<lparr>ms_uptime = uptime, ms_read_ops = read_ops m, ms_read_bytes = read_bytes m,
      ms_read_cache_hit_rate = read_cache_hit_rate as_f64 div_f64 m, ms_write_ops = write_ops m,
      ms_write_bytes = write_bytes m, ms_write_buffer_flushes = write_buffer_flushes m,
      ms_lookup_ops = lookup_ops m, ms_getattr_ops = getattr_ops m, ms_readdir_ops = readdir_ops m,
      ms_metadata_cache_hit_rate = metadata_cache_hit_rate as_f64 div_f64 m,
      ms_obs_get_ops = obs_get_ops m, ms_obs_put_ops = obs_put_ops m, ms_obs_list_ops = obs_list_ops m,
      ms_obs_delete_ops = obs_delete_ops m, ms_obs_errors = obs_errors m\<rparr>"

section \<open>The printed summary\<close>

text \<open>\<open>debug\<close> is the format of a duration with \<open>{:?}\<close>, \<open>percent\<close> that of a rate, a hundredfold,
  with \<open>{:.2}\<close>. A line is ended by \<open>writeln!\<close>.\<close>

definition newline :: char where
  "newline = CHR 0x0A"

definition writeln :: "string \<Rightarrow> string" where
  "writeln l = l @ [newline]"

definition u64_display :: "u64 \<Rightarrow> string" where
  "u64_display n = decimal (unat n)"

definition summary_lines :: "(duration \<Rightarrow> string) \<Rightarrow> ('f \<Rightarrow> string) \<Rightarrow> 'f metrics_summary \<Rightarrow> string list" where
  "summary_lines debug percent m =
     [''=== OBS FUSE Metrics ==='',
      ''Uptime: '' @ debug (ms_uptime m),
      '''',
      ''Read Operations:'',
      ''  Total: '' @ u64_display (ms_read_ops m),
      ''  Bytes: '' @ u64_display (ms_read_bytes m div 1024 div 1024) @ '' MB'',
      ''  Cache Hit Rate: '' @ percent (ms_read_cache_hit_rate m) @ ''%'',
      '''',
      ''Write Operations:'',
      ''  Total: '' @ u64_display (ms_write_ops m),
      ''  Bytes: '' @ u64_display (ms_write_bytes m div 1024 div 1024) @ '' MB'',
      ''  Buffer Flushes: '' @ u64_display (ms_write_buffer_flushes m),
      '''',
      ''Metadata Operations:'',
      ''  Lookups: '' @ u64_display (ms_lookup_ops m),
      ''  Getattr: '' @ u64_display (ms_getattr_ops m),
      ''  Readdir: '' @ u64_display (ms_readdir_ops m),
      ''  Cache Hit Rate: '' @ percent (ms_metadata_cache_hit_rate m) @ ''%'',
      '''',
      ''OBS Operations:'',
      ''  GET: '' @ u64_display (ms_obs_get_ops m),
      ''  PUT: '' @ u64_display (ms_obs_put_ops m),
      ''  LIST: '' @ u64_display (ms_obs_list_ops m),
      ''  DELETE: '' @ u64_display (ms_obs_delete_ops m),
      ''  Errors: '' @ u64_display (ms_obs_errors m)]"

definition summary_display :: "(duration \<Rightarrow> string) \<Rightarrow> ('f \<Rightarrow> string) \<Rightarrow> 'f metrics_summary \<Rightarrow> string" where
  "summary_display debug percent m = concat (map writeln (summary_lines debug percent m))"

lemma split_writeln:
  "\<forall>l \<in> set ls. newline \<notin> set l \<Longrightarrow> split_on newline (concat (map writeln ls)) = ls @ [[]]"
proof (induction ls)
  case (Cons l ls)
  have "split_on newline (writeln l @ concat (map writeln ls)) = split_on newline l @ split_on newline (concat (map writeln ls))"
    by (simp add: writeln_def split_on_append)
  with Cons show ?case by (simp add: split_on_no_sep)
qed simp

lemma u64_display_inj: "u64_display m = u64_display n \<longleftrightarrow> m = n"
  by (auto simp: u64_display_def word_unat_eq_iff dest: decimal_inj)

text \<open>The printed form tells the counters: two summaries that print alike, with formats that yield no
  line break, agree in every counter of operations, flushes and errors.\<close>

theorem summary_display_tells:
  assumes "summary_display debug percent m = summary_display debug percent m'"
    and "\<And>t. newline \<notin> set (debug t)" "\<And>r. newline \<notin> set (percent r)"
  shows "ms_read_ops m = ms_read_ops m' \<and> ms_write_ops m = ms_write_ops m' \<and>
     ms_write_buffer_flushes m = ms_write_buffer_flushes m' \<and> ms_lookup_ops m = ms_lookup_ops m' \<and>
     ms_getattr_ops m = ms_getattr_ops m' \<and> ms_readdir_ops m = ms_readdir_ops m' \<and>
     ms_obs_get_ops m = ms_obs_get_ops m' \<and> ms_obs_put_ops m = ms_obs_put_ops m' \<and>
     ms_obs_list_ops m = ms_obs_list_ops m' \<and> ms_obs_delete_ops m = ms_obs_delete_ops m' \<and>
     ms_obs_errors m = ms_obs_errors m'"
proof -
  have "newline \<notin> set (u64_display n)" for n by (simp add: u64_display_def decimal_no_char newline_def)
  then have l: "\<forall>l \<in> set (summary_lines debug percent x). newline \<notin> set l" for x
    using assms(2,3) by (simp add: summary_lines_def newline_def)
  have s: "split_on newline (summary_display debug percent x) = summary_lines debug percent x @ [[]]" for x
    unfolding summary_display_def by (rule split_writeln [OF l])
  have "summary_lines debug percent m = summary_lines debug percent m'"
    using s [of m] s [of m'] assms(1) by simp
  then show ?thesis by (simp add: summary_lines_def u64_display_inj)
qed

lemma summary_display_tells_witness:
  "summary_display (\<lambda>_. ''1s'') (\<lambda>_. ''0.00'') (summary (\<lambda>_. ()) (\<lambda>_ _. ()) 0 (inc_read_ops metrics_new)) \<noteq>
     summary_display (\<lambda>_. ''1s'') (\<lambda>_. ''0.00'') (summary (\<lambda>_. ()) (\<lambda>_ _. ()) 0 metrics_new)"
proof
  assume e: "summary_display (\<lambda>_. ''1s'') (\<lambda>_. ''0.00'') (summary (\<lambda>_. ()) (\<lambda>_ _. ()) 0 (inc_read_ops metrics_new)) =
     summary_display (\<lambda>_. ''1s'') (\<lambda>_. ''0.00'') (summary (\<lambda>_. ()) (\<lambda>_ _. ()) 0 metrics_new)"
  have "newline \<notin> set ''1s''" "newline \<notin> set ''0.00''" by (simp_all add: newline_def)
  with summary_display_tells [OF e] show False by (simp add: summary_def inc_read_ops_def metrics_new_def)
qed

end
