(* ===== verification/Config.thy ===== *)
theory Config
  imports Errors
begin

text \<open>
  Configuration (src/src/config.rs): the nested settings with their defaults, the merge with
  the environment, validation, and the default locations.

  A \<open>ByteSize\<close> is its \<open>u64\<close>; the \<open>kb\<close>, \<open>mb\<close>, \<open>gb\<close> constructors of the bytesize crate
  are decimal. The identity of the process, the environment, the home and cache directories,
  and the reading and parsing of the TOML file are arguments of the definitions that use them.
\<close>

section \<open>Settings\<close>

type_synonym byte_size = u64

abbreviation mb :: "u64 \<Rightarrow> byte_size" where "mb n \<equiv> n * 1000000"
abbreviation gb :: "u64 \<Rightarrow> byte_size" where "gb n \<equiv> n * 1000000000"

record obs_config =
  endpoint :: string
  bucket :: string
  region :: string
  access_key :: "string option"
  secret_key :: "string option"
  obs_prefix :: "string option"
  max_connections :: nat
  request_timeout :: duration
  obs_max_retries :: u32
  retry_delay :: duration

definition obs_config_default :: obs_config where
  "obs_config_default =
     \<lparr>endpoint = ''obs.cn-north-1.myhuaweicloud.com'', bucket = '''', region = ''cn-north-1'',
      access_key = None, secret_key = None, obs_prefix = None,
      max_connections = 64, request_timeout = secs 30, obs_max_retries = 3,
      retry_delay = 500000000\<rparr>"

record metadata_cache_config =
  attr_ttl :: duration
  dir_ttl :: duration
  negative_ttl :: duration
  max_entries :: nat

definition metadata_cache_config_default :: metadata_cache_config where
  "metadata_cache_config_default =
     \<lparr>attr_ttl = secs 3, dir_ttl = secs 5, negative_ttl = secs 1, max_entries = 100000\<rparr>"

record cache_config =
  cfg_memory_limit :: byte_size
  cfg_disk_limit :: byte_size
  cfg_cache_dir :: "string option"
  cfg_block_size :: byte_size
  cfg_metadata :: metadata_cache_config

definition cache_config_default :: cache_config where
  "cache_config_default =
     \<lparr>cfg_memory_limit = mb 512, cfg_disk_limit = gb 10, cfg_cache_dir = None,
      cfg_block_size = mb 4, cfg_metadata = metadata_cache_config_default\<rparr>"

record performance_config =
  read_ahead :: bool
  read_ahead_window :: byte_size
  read_concurrency :: nat
  write_buffer_size :: byte_size
  cfg_multipart_threshold :: byte_size
  multipart_part_size :: byte_size
  multipart_concurrency :: nat
  cfg_flush_interval :: duration

definition performance_config_default :: performance_config where
  "performance_config_default =
     \<lparr>read_ahead = True, read_ahead_window = mb 16, read_concurrency = 4,
      write_buffer_size = mb 64, cfg_multipart_threshold = mb 100, multipart_part_size = mb 8,
      multipart_concurrency = 5, cfg_flush_interval = secs 30\<rparr>"

record fuse_config =
  max_read :: byte_size
  max_write :: byte_size
  allow_root :: bool
  allow_other :: bool
  read_only :: bool
  direct_io :: bool
  fs_name :: string

definition fuse_config_default :: fuse_config where
  "fuse_config_default =
     \<lparr>max_read = mb 4, max_write = mb 4, allow_root = False, allow_other = False,
      read_only = False, direct_io = False, fs_name = ''obsfuse''\<rparr>"

datatype permission_mode = Fixed | Preserved

definition permission_mode_default :: permission_mode where
  "permission_mode_default = Fixed"

record fixed_permission =
  fp_uid :: u32
  fp_gid :: u32
  fp_file_mode :: u32
  fp_dir_mode :: u32

text \<open>Rust's \<open>0o644\<close> and \<open>0o755\<close>.\<close>

definition fixed_permission_default :: "u32 \<Rightarrow> u32 \<Rightarrow> fixed_permission" where
  "fixed_permission_default getuid getgid =
     \<lparr>fp_uid = getuid, fp_gid = getgid, fp_file_mode = 420, fp_dir_mode = 493\<rparr>"

record permission_config =
  pc_mode :: permission_mode
  pc_fixed :: fixed_permission

definition permission_config_default :: "u32 \<Rightarrow> u32 \<Rightarrow> permission_config" where
  "permission_config_default getuid getgid =
     \<lparr>pc_mode = Fixed, pc_fixed = fixed_permission_default getuid getgid\<rparr>"

record logging_config =
  log_level :: string
  log_file :: "string option"
  log_json :: bool

definition logging_config_default :: logging_config where
  "logging_config_default = \<lparr>log_level = ''info'', log_file = None, log_json = False\<rparr>"

record config =
  cfg_obs :: obs_config
  cfg_cache :: cache_config
  cfg_performance :: performance_config
  cfg_fuse :: fuse_config
  cfg_permission :: permission_config
  cfg_logging :: logging_config

definition config_default :: "u32 \<Rightarrow> u32 \<Rightarrow> config" where
  "config_default getuid getgid =
     \<lparr>cfg_obs = obs_config_default, cfg_cache = cache_config_default,
      cfg_performance = performance_config_default, cfg_fuse = fuse_config_default,
      cfg_permission = permission_config_default getuid getgid,
      cfg_logging = logging_config_default\<rparr>"

section \<open>Locations\<close>

text \<open>\<open>PathBuf::join\<close>.\<close>

definition path_join :: "string \<Rightarrow> string \<Rightarrow> string" where
  "path_join p q =
     (if starts_with slash q then q
      else if p = [] \<or> ends_with slash p then p @ q
      else p @ [slash] @ q)"

definition default_config_path :: "string option \<Rightarrow> string" where
  "default_config_path home_dir =
     path_join (path_join (case home_dir of Some h \<Rightarrow> h | None \<Rightarrow> ''.'') ''.obsfuse'') ''config.toml''"

definition default_cache_dir :: "string option \<Rightarrow> string" where
  "default_cache_dir cache_dir =
     path_join (case cache_dir of Some d \<Rightarrow> d | None \<Rightarrow> ''/tmp'') ''obsfuse''"

definition from_file ::
  "(string \<Rightarrow> string + string) \<Rightarrow> (string \<Rightarrow> string + config) \<Rightarrow> string \<Rightarrow> obs_fuse_error + config" where
  "from_file read_to_string parse_toml path =
     (case read_to_string path of
        Inl e \<Rightarrow> Inl (ConfigError (''Failed to read config file: '' @ e))
      | Inr content \<Rightarrow>
          (case parse_toml content of
             Inl e \<Rightarrow> Inl (ConfigError (''Failed to parse config file: '' @ e))
           | Inr c \<Rightarrow> Inr c))"

definition from_default_location ::
  "(string \<Rightarrow> bool) \<Rightarrow> (string \<Rightarrow> obs_fuse_error + config) \<Rightarrow> string option \<Rightarrow> u32 \<Rightarrow> u32
     \<Rightarrow> obs_fuse_error + config" where
  "from_default_location path_exists load_file home_dir getuid getgid =
     (let config_path = default_config_path home_dir
      in if path_exists config_path then load_file config_path
         else Inr (config_default getuid getgid))"

definition effective_cache_dir :: "string option \<Rightarrow> config \<Rightarrow> string" where
  "effective_cache_dir cache_dir c =
     (case cfg_cache_dir (cfg_cache c) of Some d \<Rightarrow> d | None \<Rightarrow> default_cache_dir cache_dir)"

section \<open>Environment and validation\<close>

definition merge_env_obs :: "(string \<Rightarrow> string option) \<Rightarrow> obs_config \<Rightarrow> obs_config" where
  "merge_env_obs env c0 =
     (let c1 = (case env ''OBS_ACCESS_KEY'' of Some v \<Rightarrow> c0\<lparr>access_key := Some v\<rparr> | None \<Rightarrow> c0);
          c2 = (case env ''OBS_SECRET_KEY'' of Some v \<Rightarrow> c1\<lparr>secret_key := Some v\<rparr> | None \<Rightarrow> c1);
          c3 = (case env ''OBS_ENDPOINT'' of Some v \<Rightarrow> c2\<lparr>endpoint := v\<rparr> | None \<Rightarrow> c2);
          c4 = (case env ''OBS_BUCKET'' of Some v \<Rightarrow> c3\<lparr>bucket := v\<rparr> | None \<Rightarrow> c3);
          c5 = (case env ''OBS_REGION'' of Some v \<Rightarrow> c4\<lparr>region := v\<rparr> | None \<Rightarrow> c4)
      in c5)"

definition merge_env :: "(string \<Rightarrow> string option) \<Rightarrow> config \<Rightarrow> config" where
  "merge_env env c = c\<lparr>cfg_obs := merge_env_obs env (cfg_obs c)\<rparr>"

definition validate :: "config \<Rightarrow> obs_fuse_error + unit" where
  "validate c =
     (if bucket (cfg_obs c) = [] then Inl (ConfigError ''Bucket name is required'')
      else if access_key (cfg_obs c) = None then
        Inl (ConfigError ''Access key is required (set OBS_ACCESS_KEY environment variable)'')
      else if secret_key (cfg_obs c) = None then
        Inl (ConfigError ''Secret key is required (set OBS_SECRET_KEY environment variable)'')
      else if cfg_block_size (cfg_cache c) = 0 then
        Inl (ConfigError ''Block size must be greater than 0'')
      else Inr ())"

lemma validate_Inr_iff:
  "validate c = Inr () \<longleftrightarrow>
     bucket (cfg_obs c) \<noteq> [] \<and> access_key (cfg_obs c) \<noteq> None \<and>
     secret_key (cfg_obs c) \<noteq> None \<and> cfg_block_size (cfg_cache c) \<noteq> 0"
  by (simp add: validate_def)

lemma merge_env_obs_fields:
  "bucket (merge_env_obs env c) = (case env ''OBS_BUCKET'' of Some v \<Rightarrow> v | None \<Rightarrow> bucket c)"
  "endpoint (merge_env_obs env c) = (case env ''OBS_ENDPOINT'' of Some v \<Rightarrow> v | None \<Rightarrow> endpoint c)"
  "region (merge_env_obs env c) = (case env ''OBS_REGION'' of Some v \<Rightarrow> v | None \<Rightarrow> region c)"
  "access_key (merge_env_obs env c) =
     (case env ''OBS_ACCESS_KEY'' of Some v \<Rightarrow> Some v | None \<Rightarrow> access_key c)"
  "secret_key (merge_env_obs env c) =
     (case env ''OBS_SECRET_KEY'' of Some v \<Rightarrow> Some v | None \<Rightarrow> secret_key c)"
  by (simp_all add: merge_env_obs_def Let_def split: option.splits)

end
