(* ===== verification/IdTable.thy ===== *)
theory IdTable
  imports Prelude
begin

text \<open>
  The interface of a table that hands out 64-bit identifiers from a counter, which both the
  inode table and the handle table are: minting an entry uses the next number, stores the entry
  under it and advances the counter.
\<close>

locale id_table =
  fixes lookup :: "'s \<Rightarrow> u64 \<Rightarrow> 'v option"
    and next_id :: "'s \<Rightarrow> u64"
    and mint :: "'s \<Rightarrow> 'a \<Rightarrow> u64 \<times> 's"
    and val :: "'s \<Rightarrow> 'a \<Rightarrow> 'v"
  assumes mint_id: "fst (mint s a) = next_id s"
    and mint_next: "next_id (snd (mint s a)) = next_id s + 1"
    and mint_lookup: "lookup (snd (mint s a)) = (lookup s)(next_id s \<mapsto> val s a)"
begin

definition bounded :: "'s \<Rightarrow> bool" where
  "bounded s \<longleftrightarrow> (\<forall>i. lookup s i \<noteq> None \<longrightarrow> i < next_id s)"

fun mint_all :: "'s \<Rightarrow> 'a list \<Rightarrow> u64 list \<times> 's" where
  "mint_all s [] = ([], s)"
| "mint_all s (a # as) =
     (let (i, s') = mint s a; (is, s'') = mint_all s' as in (i # is, s''))"

lemma mint_fresh: "bounded s \<Longrightarrow> lookup s (fst (mint s a)) = None"
  by (cases "lookup s (next_id s)") (auto simp: bounded_def mint_id)

lemma mint_keeps: "bounded s \<Longrightarrow> lookup s i \<noteq> None \<Longrightarrow> lookup (snd (mint s a)) i = lookup s i"
  using mint_fresh [of s a] by (auto simp: mint_lookup mint_id)

lemma mint_stored: "lookup (snd (mint s a)) (fst (mint s a)) = Some (val s a)"
  by (simp add: mint_lookup mint_id)

lemma next_unat: "unat (next_id s) + 1 < 2 ^ 64 \<Longrightarrow> unat (next_id s + 1) = unat (next_id s) + 1"
  by (simp add: unat_word_ariths)

lemma mint_bounded:
  assumes "bounded s" "unat (next_id s) + 1 < 2 ^ 64"
  shows "bounded (snd (mint s a))"
proof -
  have "next_id s < next_id s + 1"
    using assms(2) by (simp add: word_less_nat_alt next_unat)
  with assms(1) show ?thesis
    by (auto simp: bounded_def mint_lookup mint_next intro: less_trans)
qed

text \<open>A run of mints that does not exhaust the counter hands out consecutive, hence distinct,
  identifiers, none of them in use before.\<close>

lemma mint_all_ids:
  assumes "unat (next_id s) + length as < 2 ^ 64"
  shows "map unat (fst (mint_all s as)) = [unat (next_id s) ..< unat (next_id s) + length as]"
  using assms
proof (induction "as" arbitrary: s)
  case (Cons a "as")
  have n: "unat (next_id (snd (mint s a))) = Suc (unat (next_id s))"
    using Cons.prems next_unat [of s] by (simp add: mint_next)
  then have "map unat (fst (mint_all (snd (mint s a)) as)) =
      [Suc (unat (next_id s)) ..< Suc (unat (next_id s)) + length as]"
    using Cons.IH [of "snd (mint s a)"] Cons.prems by simp
  then show ?case
    by (simp add: case_prod_unfold Let_def mint_id upt_conv_Cons del: upt_Suc)
qed simp

lemma mint_all_distinct:
  "unat (next_id s) + length as < 2 ^ 64 \<Longrightarrow> distinct (fst (mint_all s as))"
  using mint_all_ids [of s "as"] by (metis distinct_map distinct_upt)

lemma mint_all_fresh:
  assumes "bounded s" "unat (next_id s) + length as < 2 ^ 64" "i \<in> set (fst (mint_all s as))"
  shows "lookup s i = None"
proof (rule ccontr)
  assume "lookup s i \<noteq> None"
  then have "unat i < unat (next_id s)"
    using assms(1) by (simp add: bounded_def word_less_nat_alt)
  moreover have "unat i \<in> set (map unat (fst (mint_all s as)))"
    using assms(3) by simp
  ultimately show False by (simp add: mint_all_ids [OF assms(2)])
qed

end

end
