(* ===== verification/Inode.thy ===== *)
theory Inode
  imports Config IdTable
begin

text \<open>
  The inode table (src/src/fs/inode.rs): file attributes, the two maps between paths and
  inode numbers, and the path arithmetic of the file system.
\<close>

section \<open>File attributes\<close>

definition ROOT_INODE :: u64 where
  "ROOT_INODE = 1"

record file_attr =
  fa_ino :: u64
  fa_size :: u64
  fa_blocks :: u64
  fa_atime :: system_time
  fa_mtime :: system_time
  fa_ctime :: system_time
  fa_crtime :: system_time
  fa_kind :: file_kind
  fa_perm :: u16
  fa_nlink :: u32
  fa_uid :: u32
  fa_gid :: u32
  fa_rdev :: u32
  fa_blksize :: u32
  fa_flags :: u32

definition file_attr_default :: "system_time \<Rightarrow> u32 \<Rightarrow> u32 \<Rightarrow> file_attr" where
  "file_attr_default now current_uid current_gid =
     \<lparr>fa_ino = 0, fa_size = 0, fa_blocks = 0, fa_atime = now, fa_mtime = now, fa_ctime = now,
      fa_crtime = now, fa_kind = RegularFile, fa_perm = 420, fa_nlink = 1,
      fa_uid = current_uid, fa_gid = current_gid, fa_rdev = 0, fa_blksize = 4096, fa_flags = 0\<rparr>"

text \<open>The permission bits kept of a mode: \<open>(mode & 0o7777) as u16\<close>.\<close>

definition perm_bits :: "u32 \<Rightarrow> u16" where
  "perm_bits mode = ucast (mode AND 4095)"

text \<open>The block count of a size, \<open>(size + 511) / 512\<close>.\<close>

definition blocks_of :: "u64 \<Rightarrow> u64" where
  "blocks_of sz = (sz + 511) div 512"

definition fa_directory :: "system_time \<Rightarrow> u64 \<Rightarrow> u32 \<Rightarrow> u32 \<Rightarrow> u32 \<Rightarrow> file_attr" where
  "fa_directory now ino uid gid mode =
     \<lparr>fa_ino = ino, fa_size = 4096, fa_blocks = 8, fa_atime = now, fa_mtime = now,
      fa_ctime = now, fa_crtime = now, fa_kind = Directory, fa_perm = perm_bits mode,
      fa_nlink = 2, fa_uid = uid, fa_gid = gid, fa_rdev = 0, fa_blksize = 4096, fa_flags = 0\<rparr>"

definition fa_file :: "system_time \<Rightarrow> u64 \<Rightarrow> u64 \<Rightarrow> u32 \<Rightarrow> u32 \<Rightarrow> u32 \<Rightarrow> file_attr" where
  "fa_file now ino sz uid gid mode =
     \<lparr>fa_ino = ino, fa_size = sz, fa_blocks = blocks_of sz, fa_atime = now, fa_mtime = now,
      fa_ctime = now, fa_crtime = now, fa_kind = RegularFile, fa_perm = perm_bits mode,
      fa_nlink = 1, fa_uid = uid, fa_gid = gid, fa_rdev = 0, fa_blksize = 4096, fa_flags = 0\<rparr>"

definition fa_symlink :: "system_time \<Rightarrow> u64 \<Rightarrow> u64 \<Rightarrow> u32 \<Rightarrow> u32 \<Rightarrow> file_attr" where
  "fa_symlink now ino sz uid gid =
     \<lparr>fa_ino = ino, fa_size = sz, fa_blocks = 0, fa_atime = now, fa_mtime = now,
      fa_ctime = now, fa_crtime = now, fa_kind = Symlink, fa_perm = 511,
      fa_nlink = 1, fa_uid = uid, fa_gid = gid, fa_rdev = 0, fa_blksize = 4096, fa_flags = 0\<rparr>"

text \<open>The attributes as handed to fuse3 on Linux, without the macOS fields.\<close>

record fuse_attr =
  fu_ino :: u64
  fu_size :: u64
  fu_blocks :: u64
  fu_atime :: timestamp
  fu_mtime :: timestamp
  fu_ctime :: timestamp
  fu_kind :: fuse_file_type
  fu_perm :: u16
  fu_nlink :: u32
  fu_uid :: u32
  fu_gid :: u32
  fu_rdev :: u32
  fu_blksize :: u32

definition systemtime_to_fuse_timestamp :: "system_time \<Rightarrow> timestamp" where
  "systemtime_to_fuse_timestamp st =
     (if 0 \<le> st
      then \<lparr>ts_sec = of_int (st div 1000000000), ts_nsec = of_int (st mod 1000000000)\<rparr>
      else \<lparr>ts_sec = 0, ts_nsec = 0\<rparr>)"

definition to_fuse3 :: "file_attr \<Rightarrow> fuse_attr" where
  "to_fuse3 a =
     \<lparr>fu_ino = fa_ino a, fu_size = fa_size a, fu_blocks = fa_blocks a,
      fu_atime = systemtime_to_fuse_timestamp (fa_atime a),
      fu_mtime = systemtime_to_fuse_timestamp (fa_mtime a),
      fu_ctime = systemtime_to_fuse_timestamp (fa_ctime a),
      fu_kind = kind_to_fuse (fa_kind a), fu_perm = fa_perm a, fu_nlink = fa_nlink a,
      fu_uid = fa_uid a, fu_gid = fa_gid a, fu_rdev = fa_rdev a, fu_blksize = fa_blksize a\<rparr>"

lemmas attr_defs = fa_directory_def fa_file_def fa_symlink_def

section \<open>The inode table\<close>

record inode_entry =
  ie_path :: string
  ie_attr :: file_attr
  ie_is_dir :: bool
  ie_children :: "u64 list option"
  ie_cached_at :: instant
  ie_ref_count :: u64

record inode_manager =
  path_to_inode :: "(string, u64) dash"
  inode_to_entry :: "(u64, inode_entry) dash"
  next_inode :: u64
  im_permission :: permission_config

definition im_init_root :: "clock \<Rightarrow> inode_manager \<Rightarrow> inode_manager" where
  "im_init_root c m =
     (let fixed = pc_fixed (im_permission m);
          entry = \<lparr>ie_path = [],
                   ie_attr = fa_directory (now_wall c) ROOT_INODE (fp_uid fixed) (fp_gid fixed)
                               (fp_dir_mode fixed),
                   ie_is_dir = True, ie_children = None, ie_cached_at = now_mono c,
                   ie_ref_count = 1\<rparr>
      in m\<lparr>path_to_inode := dash_insert [] ROOT_INODE (path_to_inode m),
           inode_to_entry := dash_insert ROOT_INODE entry (inode_to_entry m)\<rparr>)"

definition im_new :: "clock \<Rightarrow> permission_config \<Rightarrow> inode_manager" where
  "im_new c cfg =
     im_init_root c
       \<lparr>path_to_inode = [], inode_to_entry = [], next_inode = ROOT_INODE + 1,
        im_permission = cfg\<rparr>"

text \<open>The entry that a new inode gets, and its entry into both maps: the second half of
  \<open>get_or_create_inode\<close>.\<close>

definition new_entry ::
  "clock \<Rightarrow> permission_config \<Rightarrow> string \<Rightarrow> bool \<Rightarrow> u64 \<Rightarrow> u64 \<Rightarrow> inode_entry" where
  "new_entry c cfg path is_dir sz inode =
     (let fixed = pc_fixed cfg;
          attr = (if is_dir
                  then fa_directory (now_wall c) inode (fp_uid fixed) (fp_gid fixed) (fp_dir_mode fixed)
                  else fa_file (now_wall c) inode sz (fp_uid fixed) (fp_gid fixed) (fp_file_mode fixed))
      in \<lparr>ie_path = path, ie_attr = attr, ie_is_dir = is_dir, ie_children = None,
          ie_cached_at = now_mono c, ie_ref_count = 0\<rparr>)"

definition im_create :: "clock \<Rightarrow> inode_manager \<Rightarrow> string \<times> bool \<times> u64 \<Rightarrow> u64 \<times> inode_manager" where
  "im_create c m = (\<lambda>(path, is_dir, sz).
     (let inode = next_inode m;
          entry = new_entry c (im_permission m) path is_dir sz inode
      in (inode,
          m\<lparr>next_inode := inode + 1,
            path_to_inode := dash_insert path inode (path_to_inode m),
            inode_to_entry := dash_insert inode entry (inode_to_entry m)\<rparr>)))"

definition get_or_create_inode ::
  "clock \<Rightarrow> string \<Rightarrow> bool \<Rightarrow> u64 \<Rightarrow> inode_manager \<Rightarrow> u64 \<times> inode_manager" where
  "get_or_create_inode c path is_dir sz m =
     (let normalized_path = normalize_path path
      in case dash_get (path_to_inode m) normalized_path of
           Some inode \<Rightarrow> (inode, m)
         | None \<Rightarrow> im_create c m (normalized_path, is_dir, sz))"

definition get_inode :: "inode_manager \<Rightarrow> string \<Rightarrow> u64 option" where
  "get_inode m path = dash_get (path_to_inode m) (normalize_path path)"

definition get_entry :: "inode_manager \<Rightarrow> u64 \<Rightarrow> inode_entry option" where
  "get_entry m inode = dash_get (inode_to_entry m) inode"

definition im_get_path :: "inode_manager \<Rightarrow> u64 \<Rightarrow> string option" where
  "im_get_path m inode = map_option ie_path (dash_get (inode_to_entry m) inode)"

definition modify_entry ::
  "u64 \<Rightarrow> (inode_entry \<Rightarrow> inode_entry) \<Rightarrow> inode_manager \<Rightarrow> inode_manager" where
  "modify_entry inode f m = m\<lparr>inode_to_entry := dash_modify inode f (inode_to_entry m)\<rparr>"

definition im_update_attr ::
  "clock \<Rightarrow> u64 \<Rightarrow> (file_attr \<Rightarrow> file_attr) \<Rightarrow> inode_manager \<Rightarrow> inode_manager" where
  "im_update_attr c inode f =
     modify_entry inode (\<lambda>e. e\<lparr>ie_attr := f (ie_attr e), ie_cached_at := now_mono c\<rparr>)"

definition im_update_size :: "clock \<Rightarrow> u64 \<Rightarrow> u64 \<Rightarrow> inode_manager \<Rightarrow> inode_manager" where
  "im_update_size c inode sz =
     im_update_attr c inode
       (\<lambda>a. a\<lparr>fa_size := sz, fa_blocks := blocks_of sz, fa_mtime := now_wall c\<rparr>)"

definition im_update_mtime :: "clock \<Rightarrow> u64 \<Rightarrow> system_time \<Rightarrow> inode_manager \<Rightarrow> inode_manager" where
  "im_update_mtime c inode mtime = im_update_attr c inode (\<lambda>a. a\<lparr>fa_mtime := mtime\<rparr>)"

definition set_children :: "clock \<Rightarrow> u64 \<Rightarrow> u64 list \<Rightarrow> inode_manager \<Rightarrow> inode_manager" where
  "set_children c inode cs =
     modify_entry inode (\<lambda>e. e\<lparr>ie_children := Some cs, ie_cached_at := now_mono c\<rparr>)"

definition get_children :: "inode_manager \<Rightarrow> u64 \<Rightarrow> u64 list option" where
  "get_children m inode = Option.bind (dash_get (inode_to_entry m) inode) ie_children"

definition inc_ref :: "u64 \<Rightarrow> inode_manager \<Rightarrow> inode_manager" where
  "inc_ref inode = modify_entry inode (\<lambda>e. e\<lparr>ie_ref_count := ie_ref_count e + 1\<rparr>)"

definition dec_ref :: "u64 \<Rightarrow> inode_manager \<Rightarrow> u64 \<times> inode_manager" where
  "dec_ref inode m =
     (case dash_get (inode_to_entry m) inode of
        Some e \<Rightarrow>
          (saturating_sub (ie_ref_count e) 1,
           modify_entry inode (\<lambda>e. e\<lparr>ie_ref_count := saturating_sub (ie_ref_count e) 1\<rparr>) m)
      | None \<Rightarrow> (0, m))"

definition im_remove :: "u64 \<Rightarrow> inode_manager \<Rightarrow> inode_manager" where
  "im_remove inode m =
     (case dash_get (inode_to_entry m) inode of
        Some e \<Rightarrow> m\<lparr>inode_to_entry := dash_remove inode (inode_to_entry m),
                    path_to_inode := dash_remove (ie_path e) (path_to_inode m)\<rparr>
      | None \<Rightarrow> m)"

definition remove_by_path :: "string \<Rightarrow> inode_manager \<Rightarrow> inode_manager" where
  "remove_by_path path m =
     (let normalized_path = normalize_path path
      in case dash_get (path_to_inode m) normalized_path of
           Some inode \<Rightarrow> m\<lparr>path_to_inode := dash_remove normalized_path (path_to_inode m),
                           inode_to_entry := dash_remove inode (inode_to_entry m)\<rparr>
         | None \<Rightarrow> m)"

definition im_rename :: "clock \<Rightarrow> string \<Rightarrow> string \<Rightarrow> inode_manager \<Rightarrow> inode_manager" where
  "im_rename c old_path new_path m =
     (let old_normalized = normalize_path old_path; new_normalized = normalize_path new_path
      in case dash_get (path_to_inode m) old_normalized of
           Some inode \<Rightarrow>
             modify_entry inode (\<lambda>e. e\<lparr>ie_path := new_normalized, ie_cached_at := now_mono c\<rparr>)
               (m\<lparr>path_to_inode :=
                    dash_insert new_normalized inode
                      (dash_remove old_normalized (path_to_inode m))\<rparr>)
         | None \<Rightarrow> m)"

definition im_is_expired :: "instant \<Rightarrow> inode_manager \<Rightarrow> u64 \<Rightarrow> duration \<Rightarrow> bool" where
  "im_is_expired now m inode ttl =
     (case dash_get (inode_to_entry m) inode of
        Some e \<Rightarrow> elapsed now (ie_cached_at e) > ttl
      | None \<Rightarrow> True)"

definition im_invalidate :: "clock \<Rightarrow> u64 \<Rightarrow> inode_manager \<Rightarrow> inode_manager" where
  "im_invalidate c inode =
     modify_entry inode
       (\<lambda>e. e\<lparr>ie_cached_at := now_mono c - int (secs 3600), ie_children := None\<rparr>)"

definition im_invalidate_path :: "clock \<Rightarrow> string \<Rightarrow> inode_manager \<Rightarrow> inode_manager" where
  "im_invalidate_path c path m =
     (case dash_get (path_to_inode m) (normalize_path path) of
        Some inode \<Rightarrow> im_invalidate c inode m
      | None \<Rightarrow> m)"

record inode_stats =
  total_inodes :: nat
  stats_next_inode :: u64

definition im_stats :: "inode_manager \<Rightarrow> inode_stats" where
  "im_stats m = \<lparr>total_inodes = length (inode_to_entry m), stats_next_inode = next_inode m\<rparr>"

section \<open>Paths\<close>

text \<open>\<open>normalize_path\<close> of \<open>InodeManager\<close> is on Unix the function of the same name
  of Platform, which the table above uses. On Windows it trims, replaces backslashes and trims again,
  which is the same for the paths that the Windows front end hands over: they have no backslash.\<close>

definition inode_normalize_path_win :: "string \<Rightarrow> string" where
  "inode_normalize_path_win path = trim_matches slash (replace_char (CHR 0x5C) slash (trim_matches slash path))"

lemma trim_matches_subset: "set (trim_matches c s) \<subseteq> set s"
  by (auto simp: trim_matches_def trim_end_matches_def trim_start_matches_def dest!: set_dropWhileD)

lemma inode_normalize_path_win_eq:
  assumes "CHR 0x5C \<notin> set path" shows "inode_normalize_path_win path = normalize_path path"
proof -
  have "CHR 0x5C \<notin> set (trim_matches slash path)" using assms trim_matches_subset by blast
  then have "replace_char (CHR 0x5C) slash (trim_matches slash path) = trim_matches slash path"
    unfolding replace_char_def by (intro map_idI) auto
  then show ?thesis by (simp add: inode_normalize_path_win_def normalize_path_def)
qed

definition parent_path :: "string \<Rightarrow> string option" where
  "parent_path path =
     (let normalized = normalize_path path
      in if normalized = [] then None
         else let parts = split_on slash normalized
              in if length parts \<le> 1 then Some []
                 else Some (join_with [slash] (take (length parts - 1) parts)))"

text \<open>\<open>rsplit('/').next()\<close> is the last piece; a split has at least one.\<close>

definition file_name :: "string \<Rightarrow> string" where
  "file_name path = last (split_on slash (trim_end_matches slash path))"

definition join_path :: "string \<Rightarrow> string \<Rightarrow> string" where
  "join_path parent name =
     (if parent = [] then name else trim_end_matches slash parent @ [slash] @ name)"

section \<open>Consistency of the two maps\<close>

interpretation inode_ids: id_table get_entry next_inode "im_create c"
    "\<lambda>m (path, is_dir, sz). new_entry c (im_permission m) path is_dir sz (next_inode m)" for c
  by unfold_locales (auto simp: im_create_def get_entry_def Let_def split: prod.splits)

text \<open>The invariant: the maps are inverse to each other, paths carry no slash at their ends,
  an entry's attributes carry its own number, and every number in use was handed out.\<close>

definition im_wf :: "inode_manager \<Rightarrow> bool" where
  "im_wf m \<longleftrightarrow>
     dash_wf (path_to_inode m) \<and> dash_wf (inode_to_entry m) \<and>
     (\<forall>p i. dash_get (path_to_inode m) p = Some i \<longleftrightarrow> im_get_path m i = Some p) \<and>
     (\<forall>i e. get_entry m i = Some e \<longrightarrow> normalized (ie_path e) \<and> fa_ino (ie_attr e) = i) \<and>
     inode_ids.bounded m"

lemma im_wf_inverse:
  "im_wf m \<Longrightarrow> dash_get (path_to_inode m) p = Some i \<longleftrightarrow> im_get_path m i = Some p"
  by (simp add: im_wf_def)

lemma im_wf_entry:
  "im_wf m \<Longrightarrow> get_entry m i = Some e \<Longrightarrow> normalized (ie_path e) \<and> fa_ino (ie_attr e) = i"
  by (simp add: im_wf_def)

lemma im_wf_path: "im_wf m \<Longrightarrow> get_entry m i = Some e \<Longrightarrow> dash_get (path_to_inode m) (ie_path e) = Some i"
  by (simp add: im_wf_inverse) (simp add: im_get_path_def get_entry_def)

lemma get_path_entry: "im_get_path m i = Some p \<longleftrightarrow> (\<exists>e. get_entry m i = Some e \<and> ie_path e = p)"
  by (auto simp: im_get_path_def get_entry_def)

lemma im_wf_new [wf_intros]: "im_wf (im_new c cfg)"
  by (auto simp: im_wf_def im_new_def im_init_root_def Let_def im_get_path_def get_entry_def
      inode_ids.bounded_def ROOT_INODE_def fa_directory_def split: if_splits)

lemma im_wf_create:
  assumes wf: "im_wf m" and new: "dash_get (path_to_inode m) path = None"
    and norm: "normalized path" and room: "unat (next_inode m) + 1 < 2 ^ 64"
  shows "im_wf (snd (im_create c m (path, is_dir, sz)))"
proof -
  let ?i = "next_inode m" and ?m = "snd (im_create c m (path, is_dir, sz))"
  let ?e = "new_entry c (im_permission m) path is_dir sz ?i"
  have fresh: "get_entry m ?i = None"
    using inode_ids.mint_fresh [of m c "(path, is_dir, sz)"] wf
    by (simp add: im_wf_def inode_ids.mint_id)
  have ent: "get_entry ?m = (get_entry m)(?i \<mapsto> ?e)"
    using inode_ids.mint_lookup [of c m "(path, is_dir, sz)"] by simp
  have p2i: "path_to_inode ?m = dash_insert path ?i (path_to_inode m)"
    by (simp add: im_create_def Let_def)
  have i2e: "inode_to_entry ?m = dash_insert ?i ?e (inode_to_entry m)"
    by (simp add: im_create_def Let_def)
  have e: "ie_path ?e = path" "fa_ino (ie_attr ?e) = ?i"
    by (simp_all add: new_entry_def Let_def attr_defs)
  have "inode_ids.bounded ?m"
    using inode_ids.mint_bounded wf room by (simp add: im_wf_def)
  moreover have "dash_get (path_to_inode ?m) p = Some i \<longleftrightarrow> im_get_path ?m i = Some p" for p i
    using wf new fresh im_wf_path [OF wf, of i] im_wf_inverse [OF wf, of p i]
    by (auto simp: p2i ent e get_path_entry)
  ultimately show ?thesis
    using wf norm unfolding im_wf_def by (auto simp: p2i i2e ent e)
qed

lemma im_wf_get_or_create [wf_intros]:
  assumes "im_wf m" "unat (next_inode m) + 1 < 2 ^ 64"
  shows "im_wf (snd (get_or_create_inode c path is_dir sz m))"
  using assms by (auto simp: get_or_create_inode_def Let_def intro!: im_wf_create split: option.splits)

lemma im_wf_modify:
  assumes wf: "im_wf m" and f: "\<And>e. ie_path (f e) = ie_path e" "\<And>e. fa_ino (ie_attr (f e)) = fa_ino (ie_attr e)"
  shows "im_wf (modify_entry i f m)"
proof -
  have ent: "get_entry (modify_entry i f m) j =
      (if j = i then map_option f (get_entry m i) else get_entry m j)" for j
    by (simp add: get_entry_def modify_entry_def)
  have "im_get_path (modify_entry i f m) j = im_get_path m j" for j
    by (auto simp: im_get_path_def modify_entry_def f(1) option.map_comp o_def)
  moreover have sel: "next_inode (modify_entry i f m) = next_inode m"
    "path_to_inode (modify_entry i f m) = path_to_inode m"
    "inode_to_entry (modify_entry i f m) = dash_modify i f (inode_to_entry m)"
    by (simp_all add: modify_entry_def)
  moreover have "inode_ids.bounded (modify_entry i f m)"
    using wf by (auto simp: im_wf_def inode_ids.bounded_def ent sel)
  ultimately show ?thesis
    using wf f unfolding im_wf_def by (auto simp: ent)
qed

lemma im_wf_update_size [wf_intros]: "im_wf m \<Longrightarrow> im_wf (im_update_size c i sz m)"
  unfolding im_update_size_def im_update_attr_def by (rule im_wf_modify) simp_all

lemma im_wf_set_children [wf_intros]: "im_wf m \<Longrightarrow> im_wf (set_children c i cs m)"
  unfolding set_children_def by (rule im_wf_modify) simp_all

lemma im_wf_invalidate [wf_intros]: "im_wf m \<Longrightarrow> im_wf (im_invalidate c i m)"
  unfolding im_invalidate_def by (rule im_wf_modify) simp_all

lemma im_wf_inc_ref [wf_intros]: "im_wf m \<Longrightarrow> im_wf (inc_ref i m)"
  unfolding inc_ref_def by (rule im_wf_modify) simp_all

lemma im_wf_dec_ref [wf_intros]: "im_wf m \<Longrightarrow> im_wf (snd (dec_ref i m))"
  unfolding dec_ref_def by (auto split: option.splits intro!: im_wf_modify)

lemma im_wf_remove [wf_intros]:
  assumes wf: "im_wf m" shows "im_wf (im_remove i m)"
proof (cases "get_entry m i")
  case None
  with wf show ?thesis by (simp add: im_remove_def get_entry_def)
next
  case (Some e)
  then have m: "path_to_inode (im_remove i m) = dash_remove (ie_path e) (path_to_inode m)"
      "inode_to_entry (im_remove i m) = dash_remove i (inode_to_entry m)"
      "next_inode (im_remove i m) = next_inode m"
    by (simp_all add: im_remove_def get_entry_def)
  have ent: "get_entry (im_remove i m) j = (if j = i then None else get_entry m j)" for j
    by (simp add: m get_entry_def)
  have "dash_get (path_to_inode (im_remove i m)) p = Some j \<longleftrightarrow> im_get_path (im_remove i m) j = Some p" for p j
    using im_wf_inverse [OF wf, of p j] im_wf_path [OF wf Some] im_wf_path [OF wf, of j]
    by (auto simp: m get_path_entry ent Some)
  moreover have "inode_ids.bounded (im_remove i m)"
    using wf by (auto simp: im_wf_def inode_ids.bounded_def ent m)
  ultimately show ?thesis using wf unfolding im_wf_def by (auto simp: ent m split: if_splits)
qed

lemma remove_by_path_eq:
  assumes wf: "im_wf m"
  shows "remove_by_path path m =
    (case dash_get (path_to_inode m) (normalize_path path) of Some i \<Rightarrow> im_remove i m | None \<Rightarrow> m)"
proof (cases "dash_get (path_to_inode m) (normalize_path path)")
  case None
  then show ?thesis by (simp add: remove_by_path_def Let_def)
next
  case (Some i)
  then obtain e where "get_entry m i = Some e" "ie_path e = normalize_path path"
    using wf by (auto simp: im_wf_inverse get_path_entry)
  with Some show ?thesis
    by (simp add: remove_by_path_def im_remove_def Let_def get_entry_def)
qed

lemma im_wf_remove_by_path [wf_intros]: "im_wf m \<Longrightarrow> im_wf (remove_by_path path m)"
  by (simp add: remove_by_path_eq im_wf_remove split: option.splits)

text \<open>A rename keeps the invariant when it does not land on the path of another inode.\<close>

definition rename_target_free :: "string \<Rightarrow> string \<Rightarrow> inode_manager \<Rightarrow> bool" where
  "rename_target_free old_path new_path m \<longleftrightarrow>
     dash_get (path_to_inode m) (normalize_path new_path) = None \<or>
     normalize_path new_path = normalize_path old_path"

lemma im_rename_entry:
  assumes "dash_get (path_to_inode m) (normalize_path old) = Some i"
  shows "get_entry (im_rename c old new m) j =
    (if j = i then map_option (\<lambda>e. e\<lparr>ie_path := normalize_path new, ie_cached_at := now_mono c\<rparr>) (get_entry m i)
     else get_entry m j)"
    "path_to_inode (im_rename c old new m) =
       dash_insert (normalize_path new) i (dash_remove (normalize_path old) (path_to_inode m))"
    "next_inode (im_rename c old new m) = next_inode m"
    "inode_to_entry (im_rename c old new m) =
       dash_modify i (\<lambda>e. e\<lparr>ie_path := normalize_path new, ie_cached_at := now_mono c\<rparr>) (inode_to_entry m)"
  using assms by (simp_all add: im_rename_def Let_def get_entry_def modify_entry_def)

lemma inverse_rename:
  assumes "\<And>p i. f p = Some i \<longleftrightarrow> g i = Some p" "f a = Some i" "f b = None \<or> b = a"
  shows "(f(a := None, b \<mapsto> i)) p = Some j \<longleftrightarrow> (g(i \<mapsto> b)) j = Some p"
  using assms(1) [of a i] assms(1) [of b j] assms(1) [of a j] assms(1) [of p j] assms(2,3) by auto

lemma im_wf_rename [wf_intros]:
  assumes wf: "im_wf m" and free: "rename_target_free old new m"
  shows "im_wf (im_rename c old new m)"
proof (cases "dash_get (path_to_inode m) (normalize_path old)")
  case None
  with wf show ?thesis by (simp add: im_rename_def Let_def)
next
  case (Some i)
  note rn = im_rename_entry [OF Some, of c new]
  let ?m = "im_rename c old new m"
  obtain e where e: "get_entry m i = Some e" "ie_path e = normalize_path old"
    using wf Some by (auto simp: im_wf_inverse get_path_entry)
  have path: "im_get_path ?m = (im_get_path m)(i \<mapsto> normalize_path new)"
    using e(1) rn(1) by (auto simp: im_get_path_def get_entry_def fun_eq_iff)
  have get: "dash_get (path_to_inode ?m) =
      (dash_get (path_to_inode m))(normalize_path old := None, normalize_path new \<mapsto> i)"
    by (auto simp: fun_eq_iff rn(2))
  have "dash_get (path_to_inode ?m) p = Some j \<longleftrightarrow> im_get_path ?m j = Some p" for p j
    unfolding path get using im_wf_inverse [OF wf] Some free
    by (intro inverse_rename) (auto simp: rename_target_free_def)
  moreover have "inode_ids.bounded ?m"
    using wf by (auto simp: im_wf_def inode_ids.bounded_def rn split: if_splits)
  moreover have "dash_wf (inode_to_entry ?m)"
    using wf by (simp add: im_wf_def rn(4))
  moreover have "normalized (ie_path e') \<and> fa_ino (ie_attr e') = j"
    if "get_entry ?m j = Some e'" for j e'
    using that im_wf_entry [OF wf, of j e'] im_wf_entry [OF wf e(1)] e(1)
    by (auto simp: rn split: if_splits)
  moreover have "dash_wf (path_to_inode ?m)"
    using wf by (simp add: im_wf_def rn)
  ultimately show ?thesis unfolding im_wf_def by blast
qed

section \<open>Reachable tables\<close>

text \<open>One call of an operation of the table, with any arguments. The two side conditions: the
  64-bit counter is not exhausted, and a rename does not land on another inode's path.\<close>

inductive im_step :: "inode_manager \<Rightarrow> inode_manager \<Rightarrow> bool" where
  get_or_create: "unat (next_inode m) + 1 < 2 ^ 64 \<Longrightarrow>
     im_step m (snd (get_or_create_inode c path is_dir sz m))"
| update_size: "im_step m (im_update_size c i sz m)"
| children: "im_step m (set_children c i cs m)"
| inc: "im_step m (inc_ref i m)"
| dec: "im_step m (snd (dec_ref i m))"
| remove: "im_step m (im_remove i m)"
| remove_path: "im_step m (remove_by_path path m)"
| rename: "rename_target_free old_path new_path m \<Longrightarrow> im_step m (im_rename c old_path new_path m)"
| invalidate: "im_step m (im_invalidate c i m)"

inductive im_reachable :: "inode_manager \<Rightarrow> bool" where
  im_init: "im_reachable (im_new c cfg)"
| im_more: "im_reachable m \<Longrightarrow> im_step m m' \<Longrightarrow> im_reachable m'"

lemma im_step_wf: "im_step m m' \<Longrightarrow> im_wf m \<Longrightarrow> im_wf m'"
  by (induction rule: im_step.induct) (auto intro: wf_intros)

lemma im_reachable_wf: "im_reachable m \<Longrightarrow> im_wf m"
  by (induction rule: im_reachable.induct) (auto intro: wf_intros im_step_wf)

lemma im_wf_get_inode:
  "im_wf m \<Longrightarrow> get_inode m path = Some i \<longleftrightarrow> im_get_path m i = Some (normalize_path path)"
  by (simp add: get_inode_def im_wf_inverse)

lemma get_or_create_lookup:
  "get_inode (snd (get_or_create_inode c path is_dir sz m)) path
     = Some (fst (get_or_create_inode c path is_dir sz m))"
  by (simp add: get_or_create_inode_def get_inode_def im_create_def Let_def split: option.splits)

lemma get_or_create_other:
  "normalize_path q \<noteq> normalize_path path \<Longrightarrow>
     get_inode (snd (get_or_create_inode c path is_dir sz m)) q = get_inode m q"
  by (simp add: get_or_create_inode_def get_inode_def im_create_def Let_def split: option.splits)

lemma get_or_create_keeps:
  "get_inode m p = Some i \<Longrightarrow> get_inode (snd (get_or_create_inode c path is_dir sz m)) p = Some i"
  by (auto simp: get_or_create_inode_def get_inode_def im_create_def Let_def split: option.splits)

text \<open>C10 (reachable inode tables): in every table that a sequence of operations can reach from a
  new one, without exhausting the 64-bit counter and without renaming onto the path of another
  inode, the maps from paths to inodes and from inodes to entries are inverse to each other: a
  path looks up to inode i exactly when i's entry carries that (normalised) path.\<close>

theorem inode_table_bijective:
  assumes "im_reachable m"
  shows "get_inode m path = Some i \<longleftrightarrow> im_get_path m i = Some (normalize_path path)"
  using im_wf_get_inode [OF im_reachable_wf [OF assms]] .

lemma inode_table_bijective_witness:
  "get_inode (im_new \<lparr>now_mono = 0, now_wall = 0\<rparr> (permission_config_default 0 0)) ''/'' = Some 1
   \<longleftrightarrow> im_get_path (im_new \<lparr>now_mono = 0, now_wall = 0\<rparr> (permission_config_default 0 0)) 1
         = Some (normalize_path ''/'')"
  by (rule inode_table_bijective) (rule im_init)

text \<open>Stable inode numbers: in a reachable table with room in the counter, two requests for
  an inode return the same number exactly when their normalised paths agree, whatever kind and
  size they ask for, and the second request finds what the first one stored.\<close>

theorem inode_numbers_stable:
  assumes "im_reachable m" and "unat (next_inode m) + 2 < 2 ^ 64"
  shows "(let (i, m1) = get_or_create_inode c p d n m; (j, m2) = get_or_create_inode c' q d' n' m1
          in (i = j \<longleftrightarrow> normalize_path p = normalize_path q) \<and>
             im_get_path m2 i = Some (normalize_path p) \<and> im_get_path m2 j = Some (normalize_path q))"
proof -
  define r1 where "r1 = get_or_create_inode c p d n m"
  define r2 where "r2 = get_or_create_inode c' q d' n' (snd r1)"
  have wf1: "im_wf (snd r1)"
    using im_wf_get_or_create im_reachable_wf [OF assms(1)] assms(2) by (simp add: r1_def)
  have "next_inode (snd r1) = next_inode m \<or> next_inode (snd r1) = next_inode m + 1"
    by (auto simp: r1_def get_or_create_inode_def im_create_def Let_def split: option.splits)
  then have "unat (next_inode (snd r1)) + 1 < 2 ^ 64"
    using assms(2) inode_ids.next_unat [of m] by auto
  then have wf2: "im_wf (snd r2)"
    using im_wf_get_or_create wf1 by (simp add: r2_def)
  have j: "get_inode (snd r2) q = Some (fst r2)"
    unfolding r2_def by (rule get_or_create_lookup)
  have "get_inode (snd r1) p = Some (fst r1)"
    unfolding r1_def by (rule get_or_create_lookup)
  then have i: "get_inode (snd r2) p = Some (fst r1)"
    unfolding r2_def by (rule get_or_create_keeps)
  have "normalize_path p = normalize_path q \<Longrightarrow> fst r1 = fst r2"
    using i j by (simp add: get_inode_def)
  moreover have "fst r1 = fst r2 \<Longrightarrow> normalize_path p = normalize_path q"
    using i j by (simp add: im_wf_get_inode [OF wf2])
  ultimately have "fst r1 = fst r2 \<longleftrightarrow> normalize_path p = normalize_path q" by blast
  with i j show ?thesis
    by (simp add: im_wf_get_inode [OF wf2] r1_def [symmetric] r2_def [symmetric] case_prod_unfold Let_def)
qed

lemma inode_numbers_stable_witness:
  "(let m = im_new \<lparr>now_mono = 0, now_wall = 0\<rparr> (permission_config_default 0 0);
        c = \<lparr>now_mono = 1, now_wall = 1\<rparr>;
        (i, m1) = get_or_create_inode c ''/a'' False 5 m; (j, m2) = get_or_create_inode c ''a/'' True 0 m1
    in (i = j \<longleftrightarrow> normalize_path ''/a'' = normalize_path ''a/'') \<and>
       im_get_path m2 i = Some (normalize_path ''/a'') \<and> im_get_path m2 j = Some (normalize_path ''a/''))"
  unfolding Let_def [of "im_new _ _"] Let_def [of "clock.make _ _"]
  using inode_numbers_stable [OF im_init, of "\<lparr>now_mono = 0, now_wall = 0\<rparr>" "permission_config_default 0 0"
      "\<lparr>now_mono = 1, now_wall = 1\<rparr>" "''/a''" False 5 "\<lparr>now_mono = 1, now_wall = 1\<rparr>" "''a/''" True 0]
  by (simp add: im_new_def im_init_root_def Let_def ROOT_INODE_def)

text \<open>C35 (rename over an existing path): renaming inode i onto the path of another inode j leaves
  j in the inode map with that path, although the path now belongs to i; removing j afterwards
  also removes the path of i, whose entry then cannot be found by its own path.\<close>

theorem rename_over_existing_aliases:
  assumes wf: "im_wf m" and old: "get_inode m old = Some i" and new: "get_inode m new = Some j"
    and ne: "normalize_path old \<noteq> normalize_path new"
  shows "(let m1 = im_rename c old new m; m2 = im_remove j m1
          in i \<noteq> j \<and> get_inode m1 new = Some i \<and>
             im_get_path m1 i = Some (normalize_path new) \<and> im_get_path m1 j = Some (normalize_path new) \<and>
             im_get_path m2 i = Some (normalize_path new) \<and> get_inode m2 new = None)"
proof -
  have ij: "i \<noteq> j"
    using old new ne by (auto simp: im_wf_get_inode [OF wf])
  obtain ei ej where e: "get_entry m i = Some ei" "get_entry m j = Some ej"
      "ie_path ej = normalize_path new"
    using old new by (auto simp: im_wf_get_inode [OF wf] get_path_entry)
  have "dash_get (path_to_inode m) (normalize_path old) = Some i"
    using old by (simp add: get_inode_def)
  note rn = im_rename_entry [OF this, of c new]
  have "get_entry (im_rename c old new m) j = Some ej" "get_inode (im_rename c old new m) new = Some i"
      "im_get_path (im_rename c old new m) i = Some (normalize_path new)"
      "get_entry (im_remove j (im_rename c old new m)) i = get_entry (im_rename c old new m) i"
    using rn(1) rn(2) ij e
    by (simp_all add: get_inode_def get_path_entry im_remove_def get_entry_def split: option.splits)
  then show ?thesis
    using ij e(3) by (auto simp: Let_def get_path_entry get_inode_def get_entry_def im_remove_def)
qed

lemma rename_over_existing_aliases_witness:
  "let m0 = im_new \<lparr>now_mono = 0, now_wall = 0\<rparr> (permission_config_default 0 0); c = \<lparr>now_mono = 1, now_wall = 1\<rparr>;
       m = snd (get_or_create_inode c ''b'' False 0 (snd (get_or_create_inode c ''a'' False 0 m0)));
       m1 = im_rename c ''a'' ''b'' m
   in get_inode m1 ''b'' = Some 2 \<and> im_get_path m1 3 = Some ''b'' \<and> get_inode (im_remove 3 m1) ''b'' = None"
proof -
  let ?m0 = "im_new \<lparr>now_mono = 0, now_wall = 0\<rparr> (permission_config_default 0 0)"
  let ?c = "\<lparr>now_mono = 1, now_wall = 1\<rparr>"
  let ?m = "snd (get_or_create_inode ?c ''b'' False 0 (snd (get_or_create_inode ?c ''a'' False 0 ?m0)))"
  have n: "normalize_path ''a'' = ''a''" "normalize_path ''b'' = ''b''"
    by (simp_all add: normalize_path_def trim_matches_def trim_start_matches_def trim_end_matches_def)
  have g: "get_inode ?m ''a'' = Some 2" "get_inode ?m ''b'' = Some 3"
    by (simp_all add: n get_inode_def get_or_create_inode_def im_create_def im_new_def im_init_root_def ROOT_INODE_def Let_def)
  have wf: "im_wf ?m" 
    by (intro im_wf_get_or_create im_wf_new)
      (simp_all add: get_or_create_inode_def im_create_def im_new_def im_init_root_def ROOT_INODE_def Let_def)
  from rename_over_existing_aliases [OF wf g, of ?c] n show ?thesis by (simp add: Let_def)
qed

text \<open>Join and split of paths: joining the parent of a path with its file name gives the path
  back, for a normalised non-empty path whose parent does not end in a slash.\<close>

theorem join_parent_file_name:
  assumes "normalized p" "p \<noteq> []" "parent_path p = Some q" "\<not> ends_with slash q"
  shows "join_path q (file_name p) = p"
proof -
  let ?ps = "split_on slash p"
  have trim: "trim_end_matches slash p = p"
    using assms(1) by (simp add: normalized_iff trim_end_no_end)
  then have fn: "file_name p = last ?ps" by (simp add: file_name_def)
  show ?thesis
  proof (cases "length ?ps \<le> 1")
    case True
    then have "?ps = [last ?ps]" by (cases ?ps) auto
    then have "last ?ps = p" using join_split [of slash p] by (metis join_with.simps(2))
    moreover have "q = []" using True assms by (simp add: parent_path_def)
    ultimately show ?thesis by (simp add: join_path_def fn)
  next
    case False
    then have q: "q = join_with [slash] (butlast ?ps)"
      using assms by (simp add: parent_path_def Let_def butlast_conv_take)
    have bl: "butlast ?ps \<noteq> []" using False by (cases ?ps) auto
    have "q @ [slash] @ last ?ps = join_with [slash] (butlast ?ps @ [last ?ps])"
      using join_with_snoc [OF bl, of "[slash]" "last ?ps"] by (simp add: q)
    then have p: "q @ slash # last ?ps = p" by (simp add: join_split)
    have "\<not> starts_with slash p" using assms(1) by (simp add: normalized_iff)
    then have "q \<noteq> []" using p by (cases q) (metis append_Nil list.sel(1) list.distinct(1) starts_with_def, simp)
    with p show ?thesis using assms(4) by (simp add: join_path_def fn trim_end_no_end)
  qed
qed

lemma join_parent_file_name_witness:
  "join_path ''a/b'' (file_name ''a/b/c.txt'') = ''a/b/c.txt''"
  by (rule join_parent_file_name)
    (simp_all add: normalized_iff starts_with_def ends_with_def parent_path_def Let_def
      normalize_path_def trim_matches_id)

text \<open>Split of a joined path: under a normalised parent, the parent and the file name of a
  joined path are the two parts, for every non-empty name without a slash.\<close>

theorem split_join_path:
  assumes "normalized q" "n \<noteq> []" "slash \<notin> set n"
  shows "parent_path (join_path q n) = Some q \<and> file_name (join_path q n) = n"
proof -
  have n: "\<not> starts_with slash n" "\<not> ends_with slash n"
    using assms(3) hd_in_set [OF assms(2)] last_in_set [OF assms(2)]
    by (metis starts_with_def, metis ends_with_def)
  show ?thesis
  proof (cases "q = []")
    case True
    with assms n show ?thesis
      by (simp add: join_path_def parent_path_def file_name_def split_on_no_sep
          normalize_path_def trim_matches_id trim_end_no_end)
  next
    case False
    have j: "join_path q n = q @ slash # n"
      using False assms(1) by (simp add: join_path_def normalized_iff trim_end_no_end)
    have nj: "\<not> starts_with slash (q @ slash # n)" "\<not> ends_with slash (q @ slash # n)"
      using assms(1,2) n False by (auto simp: normalized_iff starts_with_def ends_with_def)
    have "split_on slash (q @ slash # n) = split_on slash q @ [n]"
      by (simp add: split_on_append split_on_no_sep assms(3))
    with nj False show ?thesis
      by (simp add: j parent_path_def file_name_def normalize_path_def trim_matches_id
          trim_end_no_end join_split Let_def)
  qed
qed

lemma split_join_path_witness:
  "parent_path (join_path ''a/b'' ''c'') = Some ''a/b'' \<and> file_name (join_path ''a/b'' ''c'') = ''c''"
  by (rule split_join_path)
    (simp_all add: normalized_iff starts_with_def ends_with_def)

end
