(* ===== verification/Attr.thy ===== *)
theory Attr
  imports Inode
begin

text \<open>
  Attributes from object metadata (src/src/fs/attr.rs), with the metadata record of
  src/src/storage/obs.rs that they are built from.
\<close>

section \<open>Object metadata\<close>

record object_meta =
  om_path :: string
  om_size :: u64
  om_last_modified :: "system_time option"
  om_is_dir :: bool
  om_content_type :: "string option"
  om_etag :: "string option"

definition om_name :: "object_meta \<Rightarrow> string" where
  "om_name meta = last (split_on slash (trim_end_matches slash (om_path meta)))"

section \<open>The attribute builder\<close>

text \<open>Both modes read the fixed settings; the preserved mode is not implemented in the source.\<close>

definition get_permissions :: "permission_config \<Rightarrow> object_meta \<Rightarrow> u32 \<times> u32 \<times> u32" where
  "get_permissions cfg meta =
     (case pc_mode cfg of
        Fixed \<Rightarrow>
          (let mode = (if om_is_dir meta then fp_dir_mode (pc_fixed cfg) else fp_file_mode (pc_fixed cfg))
           in (fp_uid (pc_fixed cfg), fp_gid (pc_fixed cfg), mode))
      | Preserved \<Rightarrow>
          (let mode = (if om_is_dir meta then fp_dir_mode (pc_fixed cfg) else fp_file_mode (pc_fixed cfg))
           in (fp_uid (pc_fixed cfg), fp_gid (pc_fixed cfg), mode)))"

definition from_object_meta ::
  "system_time \<Rightarrow> permission_config \<Rightarrow> u64 \<Rightarrow> object_meta \<Rightarrow> file_attr" where
  "from_object_meta now cfg inode meta =
     (let (uid, gid, mode) = get_permissions cfg meta;
          mtime = (case om_last_modified meta of Some t \<Rightarrow> t | None \<Rightarrow> now);
          attr = (if om_is_dir meta then fa_directory now inode uid gid mode
                  else fa_file now inode (om_size meta) uid gid mode)
      in attr\<lparr>fa_mtime := mtime, fa_atime := mtime, fa_ctime := mtime\<rparr>)"

definition new_file_attr :: "system_time \<Rightarrow> permission_config \<Rightarrow> u64 \<Rightarrow> u32 option \<Rightarrow> file_attr" where
  "new_file_attr now cfg inode mode =
     fa_file now inode 0 (fp_uid (pc_fixed cfg)) (fp_gid (pc_fixed cfg))
       (case mode of Some m \<Rightarrow> m | None \<Rightarrow> fp_file_mode (pc_fixed cfg))"

definition new_directory_attr :: "system_time \<Rightarrow> permission_config \<Rightarrow> u64 \<Rightarrow> u32 option \<Rightarrow> file_attr" where
  "new_directory_attr now cfg inode mode =
     fa_directory now inode (fp_uid (pc_fixed cfg)) (fp_gid (pc_fixed cfg))
       (case mode of Some m \<Rightarrow> m | None \<Rightarrow> fp_dir_mode (pc_fixed cfg))"

definition new_symlink_attr :: "system_time \<Rightarrow> permission_config \<Rightarrow> u64 \<Rightarrow> u64 \<Rightarrow> file_attr" where
  "new_symlink_attr now cfg inode target_len =
     fa_symlink now inode target_len (fp_uid (pc_fixed cfg)) (fp_gid (pc_fixed cfg))"

section \<open>Partial updates\<close>

record set_attr_flags =
  sa_mode :: "u32 option"
  sa_uid :: "u32 option"
  sa_gid :: "u32 option"
  sa_size :: "u64 option"
  sa_atime :: "system_time option"
  sa_mtime :: "system_time option"
  sa_ctime :: "system_time option"
  sa_fh :: "u64 option"

definition sa_default :: set_attr_flags where
  "sa_default = \<lparr>sa_mode = None, sa_uid = None, sa_gid = None, sa_size = None, sa_atime = None,
     sa_mtime = None, sa_ctime = None, sa_fh = None\<rparr>"

definition has_any :: "set_attr_flags \<Rightarrow> bool" where
  "has_any f \<longleftrightarrow> sa_mode f \<noteq> None \<or> sa_uid f \<noteq> None \<or> sa_gid f \<noteq> None \<or> sa_size f \<noteq> None \<or>
     sa_atime f \<noteq> None \<or> sa_mtime f \<noteq> None \<or> sa_ctime f \<noteq> None"

definition sa_is_truncate :: "set_attr_flags \<Rightarrow> bool" where
  "sa_is_truncate f \<longleftrightarrow> sa_size f \<noteq> None"

definition if_some :: "'a option \<Rightarrow> ('a \<Rightarrow> 'b \<Rightarrow> 'b) \<Rightarrow> 'b \<Rightarrow> 'b" where
  "if_some x f b = (case x of Some a \<Rightarrow> f a b | None \<Rightarrow> b)"

definition sa_apply :: "set_attr_flags \<Rightarrow> file_attr \<Rightarrow> file_attr" where
  "sa_apply f a0 =
     (let a1 = if_some (sa_mode f) (\<lambda>mode a. a\<lparr>fa_perm := perm_bits mode\<rparr>) a0;
          a2 = if_some (sa_uid f) (\<lambda>uid a. a\<lparr>fa_uid := uid\<rparr>) a1;
          a3 = if_some (sa_gid f) (\<lambda>gid a. a\<lparr>fa_gid := gid\<rparr>) a2;
          a4 = if_some (sa_size f) (\<lambda>sz a. a\<lparr>fa_size := sz, fa_blocks := blocks_of sz\<rparr>) a3;
          a5 = if_some (sa_atime f) (\<lambda>t a. a\<lparr>fa_atime := t\<rparr>) a4;
          a6 = if_some (sa_mtime f) (\<lambda>t a. a\<lparr>fa_mtime := t\<rparr>) a5;
          a7 = if_some (sa_ctime f) (\<lambda>t a. a\<lparr>fa_ctime := t\<rparr>) a6
      in a7)"

definition file_type_from_path :: "string \<Rightarrow> file_kind" where
  "file_type_from_path path = (if ends_with slash path \<or> path = [] then Directory else RegularFile)"

definition is_directory_path :: "string \<Rightarrow> bool" where
  "is_directory_path path \<longleftrightarrow> ends_with slash path \<or> path = []"

lemma if_some_simps [simp]: "if_some None f b = b" "if_some (Some a) f b = f a b"
  by (simp_all add: if_some_def)

lemma from_object_meta_fields [simp]:
  "fa_ino (from_object_meta now cfg i meta) = i"
  "fa_kind (from_object_meta now cfg i meta) = (if om_is_dir meta then Directory else RegularFile)"
  "\<not> om_is_dir meta \<Longrightarrow> fa_size (from_object_meta now cfg i meta) = om_size meta"
  by (simp_all add: from_object_meta_def attr_defs Let_def case_prod_unfold)

lemma new_attr_ino [simp]:
  "fa_ino (new_file_attr now cfg i mo) = i" "fa_ino (new_directory_attr now cfg i mo) = i"
  by (simp_all add: new_file_attr_def new_directory_attr_def attr_defs)

text \<open>The block count covers the size: the number of 512-byte blocks is the size over 512,
  rounded up, as long as the rounding does not wrap.\<close>

lemma blocks_of_ceiling:
  assumes "unat sz + 511 < 2 ^ 64"
  shows "unat sz \<le> unat (blocks_of sz) * 512 \<and> unat (blocks_of sz) * 512 < unat sz + 512"
proof -
  have "unat (blocks_of sz) = (unat sz + 511) div 512"
    using unat_plus_no_wrap [of sz 511] assms by (simp add: blocks_of_def unat_div)
  then show ?thesis by simp linarith
qed

end
