(* ===== verification/Handle.thy ===== *)
theory Handle
  imports Platform IdTable
begin

text \<open>The table of open file handles (src/src/fs/handle.rs).\<close>

record handle_state =
  hs_inode :: u64
  hs_flags :: u32
  hs_writable :: bool
  hs_readable :: bool
  hs_position :: u64
  hs_last_access :: instant
  hs_dirty :: bool
  hs_is_dir :: bool

definition handle_state_new :: "instant \<Rightarrow> u64 \<Rightarrow> u32 \<Rightarrow> bool \<Rightarrow> handle_state" where
  "handle_state_new now inode flags is_dir =
     \<lparr>hs_inode = inode, hs_flags = flags, hs_writable = is_writable flags,
      hs_readable = is_readable flags, hs_position = 0, hs_last_access = now,
      hs_dirty = False, hs_is_dir = is_dir\<rparr>"

definition hs_is_append :: "handle_state \<Rightarrow> bool" where
  "hs_is_append h = is_append (hs_flags h)"

definition hs_is_truncate :: "handle_state \<Rightarrow> bool" where
  "hs_is_truncate h = is_truncate (hs_flags h)"

definition update_position :: "instant \<Rightarrow> u64 \<Rightarrow> u64 \<Rightarrow> handle_state \<Rightarrow> handle_state" where
  "update_position now offset sz h = h\<lparr>hs_position := offset + sz, hs_last_access := now\<rparr>"

definition mark_dirty :: "handle_state \<Rightarrow> handle_state" where
  "mark_dirty h = h\<lparr>hs_dirty := True\<rparr>"

record handle_manager =
  handles :: "(u64, handle_state) dash"
  next_handle :: u64

definition hm_new :: handle_manager where
  "hm_new = \<lparr>handles = [], next_handle = 1\<rparr>"

definition hm_open ::
  "instant \<Rightarrow> u64 \<Rightarrow> u32 \<Rightarrow> bool \<Rightarrow> handle_manager \<Rightarrow> u64 \<times> handle_manager" where
  "hm_open now inode flags is_dir m =
     (let handle = next_handle m; state = handle_state_new now inode flags is_dir
      in (handle, m\<lparr>next_handle := handle + 1, handles := dash_insert handle state (handles m)\<rparr>))"

definition hm_get :: "handle_manager \<Rightarrow> u64 \<Rightarrow> handle_state option" where
  "hm_get m handle = dash_get (handles m) handle"

definition hm_update :: "u64 \<Rightarrow> (handle_state \<Rightarrow> handle_state) \<Rightarrow> handle_manager \<Rightarrow> handle_manager" where
  "hm_update handle f m = m\<lparr>handles := dash_modify handle f (handles m)\<rparr>"

definition hm_close :: "u64 \<Rightarrow> handle_manager \<Rightarrow> handle_state option \<times> handle_manager" where
  "hm_close handle m = (dash_get (handles m) handle, m\<lparr>handles := dash_remove handle (handles m)\<rparr>)"

definition handles_for_inode :: "handle_manager \<Rightarrow> u64 \<Rightarrow> u64 list" where
  "handles_for_inode m inode = map fst (filter (\<lambda>e. hs_inode (snd e) = inode) (handles m))"

definition has_open_handles :: "handle_manager \<Rightarrow> u64 \<Rightarrow> bool" where
  "has_open_handles m inode = list_ex (\<lambda>e. hs_inode (snd e) = inode) (handles m)"

definition has_writable_handles :: "handle_manager \<Rightarrow> u64 \<Rightarrow> bool" where
  "has_writable_handles m inode =
     list_ex (\<lambda>e. hs_inode (snd e) = inode \<and> hs_writable (snd e)) (handles m)"

definition dirty_handles :: "handle_manager \<Rightarrow> u64 list" where
  "dirty_handles m = map fst (filter (\<lambda>e. hs_dirty (snd e)) (handles m))"

record handle_stats =
  hst_total :: nat
  hst_readable :: nat
  hst_writable :: nat
  hst_dirty :: nat
  hst_directories :: nat

text \<open>The loop of \<open>stats\<close>: one step per entry.\<close>

fun stats_step :: "handle_state \<Rightarrow> handle_stats \<Rightarrow> handle_stats" where
  "stats_step h s =
     \<lparr>hst_total = hst_total s + 1,
      hst_readable = (if hs_readable h then hst_readable s + 1 else hst_readable s),
      hst_writable = (if hs_writable h then hst_writable s + 1 else hst_writable s),
      hst_dirty = (if hs_dirty h then hst_dirty s + 1 else hst_dirty s),
      hst_directories = (if hs_is_dir h then hst_directories s + 1 else hst_directories s)\<rparr>"

definition hm_stats :: "handle_manager \<Rightarrow> handle_stats" where
  "hm_stats m =
     fold (\<lambda>e s. stats_step (snd e) s) (handles m)
       \<lparr>hst_total = 0, hst_readable = 0, hst_writable = 0, hst_dirty = 0, hst_directories = 0\<rparr>"

section \<open>Properties\<close>

interpretation handle_ids: id_table hm_get next_handle
    "\<lambda>m (inode, flags, is_dir). hm_open now inode flags is_dir m"
    "\<lambda>m (inode, flags, is_dir). handle_state_new now inode flags is_dir" for now
  by unfold_locales (auto simp: hm_open_def hm_get_def Let_def split: prod.splits)

text \<open>One call of an operation of the table.\<close>

inductive hm_step :: "handle_manager \<Rightarrow> handle_manager \<Rightarrow> bool" where
  opened: "unat (next_handle m) + 1 < 2 ^ 64 \<Longrightarrow> hm_step m (snd (hm_open now inode flags is_dir m))"
| updated: "hm_step m (hm_update handle f m)"
| closed: "hm_step m (snd (hm_close handle m))"

inductive hm_reachable :: "handle_manager \<Rightarrow> bool" where
  hm_init: "hm_reachable hm_new"
| hm_more: "hm_reachable m \<Longrightarrow> hm_step m m' \<Longrightarrow> hm_reachable m'"

lemma hm_reachable_inv: "hm_reachable m \<Longrightarrow> dash_wf (handles m) \<and> handle_ids.bounded m"
proof (induction rule: hm_reachable.induct)
  case hm_init
  show ?case unfolding handle_ids.bounded_def by (simp add: hm_new_def hm_get_def)
next
  case (hm_more m m')
  from hm_more.hyps(2) hm_more.IH show ?case
  proof (induction rule: hm_step.induct)
    case (opened m now inode flags is_dir)
    then have "handle_ids.bounded (snd (hm_open now inode flags is_dir m))"
      using handle_ids.mint_bounded [of m now "(inode, flags, is_dir)"] by simp
    with opened show ?case by (simp add: hm_open_def Let_def)
  qed (auto simp: handle_ids.bounded_def hm_get_def hm_update_def hm_close_def)
qed

fun hm_open_all ::
  "instant \<Rightarrow> handle_manager \<Rightarrow> (u64 \<times> u32 \<times> bool) list \<Rightarrow> u64 list \<times> handle_manager" where
  "hm_open_all now m [] = ([], m)"
| "hm_open_all now m ((inode, flags, is_dir) # reqs) =
     (let (h, m') = hm_open now inode flags is_dir m; (hs, m'') = hm_open_all now m' reqs
      in (h # hs, m''))"

lemma hm_open_all_mint: "hm_open_all now m reqs = handle_ids.mint_all now m reqs"
  by (induction now m reqs rule: hm_open_all.induct) (auto simp: handle_ids.mint_all.simps split: prod.splits)

lemma stats_fold:
  "fold (\<lambda>e s. stats_step (snd e) s) es s =
     \<lparr>hst_total = hst_total s + length es,
      hst_readable = hst_readable s + length (filter (\<lambda>e. hs_readable (snd e)) es),
      hst_writable = hst_writable s + length (filter (\<lambda>e. hs_writable (snd e)) es),
      hst_dirty = hst_dirty s + length (filter (\<lambda>e. hs_dirty (snd e)) es),
      hst_directories = hst_directories s + length (filter (\<lambda>e. hs_is_dir (snd e)) es)\<rparr>"
  by (induction es arbitrary: s) auto

text \<open>Fresh handles: in every reachable handle table with room in the counter, opening any
  sequence of files returns pairwise distinct handle numbers, none of which was open before.\<close>

theorem opened_handles_distinct:
  assumes "hm_reachable m" and "unat (next_handle m) + length reqs < 2 ^ 64"
  shows "(let hs = fst (hm_open_all now m reqs)
          in distinct hs \<and> (\<forall>h \<in> set hs. hm_get m h = None))"
  using handle_ids.mint_all_distinct [OF assms(2)]
    handle_ids.mint_all_fresh [OF _ assms(2)] hm_reachable_inv [OF assms(1)]
  by (auto simp: Let_def hm_open_all_mint)

lemma opened_handles_distinct_witness:
  "(let hs = fst (hm_open_all 0 hm_new [(1, O_RDONLY, False), (1, O_RDWR, False)])
    in distinct hs \<and> (\<forall>h \<in> set hs. hm_get hm_new h = None))"
  by (rule opened_handles_distinct [OF hm_init]) (simp add: hm_new_def)

text \<open>Queries of the handle table: in every reachable table, the listed handles of an inode are
  exactly the open handles on it, without repetition, the two yes/no queries agree with the open
  handles, and the statistics count the handles that are listed.\<close>

theorem handle_queries_exact:
  assumes "hm_reachable m"
  shows "distinct (handles_for_inode m i) \<and>
     set (handles_for_inode m i) = {h. \<exists>s. hm_get m h = Some s \<and> hs_inode s = i} \<and>
     (has_open_handles m i \<longleftrightarrow> handles_for_inode m i \<noteq> []) \<and>
     (has_writable_handles m i \<longleftrightarrow> (\<exists>h s. hm_get m h = Some s \<and> hs_inode s = i \<and> hs_writable s)) \<and>
     hst_dirty (hm_stats m) = length (dirty_handles m) \<and>
     hst_total (hm_stats m) = card {h. hm_get m h \<noteq> None}"
proof -
  have wf: "dash_wf (handles m)" using hm_reachable_inv [OF assms] by simp
  then have mem: "(h, s) \<in> set (handles m) \<longleftrightarrow> hm_get m h = Some s" for h s
    by (simp add: dash_mem_iff hm_get_def)
  have "{h. hm_get m h \<noteq> None} = fst ` set (handles m)"
    by (auto simp: hm_get_def map_of_eq_None_iff)
  then have card: "card {h. hm_get m h \<noteq> None} = length (handles m)"
    using wf distinct_card [of "map fst (handles m)"] by (simp add: dash_wf_def)
  have "set (handles_for_inode m i) = {h. \<exists>s. hm_get m h = Some s \<and> hs_inode s = i}"
    by (auto simp: handles_for_inode_def mem image_iff)
  moreover have "distinct (handles_for_inode m i)"
    using dash_wf_filter [OF wf] by (simp add: handles_for_inode_def dash_wf_def)
  moreover have "has_open_handles m i \<longleftrightarrow> handles_for_inode m i \<noteq> []"
    by (auto simp: has_open_handles_def handles_for_inode_def list_ex_iff filter_empty_conv)
  moreover have "has_writable_handles m i \<longleftrightarrow>
      (\<exists>h s. hm_get m h = Some s \<and> hs_inode s = i \<and> hs_writable s)"
    unfolding has_writable_handles_def list_ex_iff Bex_def split_paired_Ex mem by auto
  moreover have "hst_dirty (hm_stats m) = length (dirty_handles m)"
      "hst_total (hm_stats m) = length (handles m)"
    unfolding hm_stats_def stats_fold by (simp_all add: dirty_handles_def)
  ultimately show ?thesis using card by simp
qed

lemma handle_queries_exact_witness:
  "set (handles_for_inode hm_new 1) = {h. \<exists>s. hm_get hm_new h = Some s \<and> hs_inode s = 1}"
  using handle_queries_exact [OF hm_init, of 1] by blast

end
