(* ===== verification/TtlCache.thy ===== *)
theory TtlCache
  imports Prelude
begin

text \<open>
  The interface of a cache whose entries expire: every value is stored with the instant it was
  put, a lookup serves it while its age is at most the time to live and drops it afterwards.
  The attribute cache, the directory cache, the negative cache and the prefetch buffer are such
  caches. A put may evict other keys (\<open>put_other\<close>).
\<close>

datatype ('k, 'v) cache_event = CGet 'k instant | CPut 'k 'v instant | CDel 'k

fun touches :: "'k \<Rightarrow> ('k, 'v) cache_event \<Rightarrow> bool" where
  "touches k (CGet _ _) = False"
| "touches k (CPut k' _ _) = (k' = k)"
| "touches k (CDel k') = (k' = k)"

locale ttl_cache =
  fixes entry :: "'s \<Rightarrow> 'k \<Rightarrow> ('v \<times> instant) option"
    and ttl :: "'s \<Rightarrow> duration"
    and get :: "instant \<Rightarrow> 'k \<Rightarrow> 's \<Rightarrow> 'v option \<times> 's"
    and put :: "instant \<Rightarrow> 'k \<Rightarrow> 'v \<Rightarrow> 's \<Rightarrow> 's"
    and del :: "'k \<Rightarrow> 's \<Rightarrow> 's"
  assumes get_val: "fst (get now k s) =
      (case entry s k of Some (v, t) \<Rightarrow> if elapsed now t \<le> ttl s then Some v else None | None \<Rightarrow> None)"
    and get_entries: "entry (snd (get now k s)) k' =
      (if k' = k \<and> fst (get now k s) = None then None else entry s k')"
    and put_same: "entry (put now k v s) k = Some (v, now)"
    and put_other: "k' \<noteq> k \<Longrightarrow> entry (put now k v s) k' = entry s k' \<or> entry (put now k v s) k' = None"
    and del_entries: "entry (del k s) k' = (if k' = k then None else entry s k')"
    and ttl_get: "ttl (snd (get now k s)) = ttl s"
    and ttl_put: "ttl (put now k v s) = ttl s"
    and ttl_del: "ttl (del k s) = ttl s"
begin

text \<open>A value just put is served until it is older than the time to live.\<close>

lemma get_after_put:
  "fst (get now' k (put now k v s)) = (if elapsed now' now \<le> ttl s then Some v else None)"
  by (simp add: get_val put_same ttl_put)

lemma get_after_del: "fst (get now k (del k s)) = None"
  by (simp add: get_val del_entries)

lemma get_stable: "fst (get now k s) = Some v \<Longrightarrow> snd (get now k s) = s' \<Longrightarrow> entry s' = entry s"
  by (auto simp: fun_eq_iff get_entries)

lemma served_young:
  assumes "fst (get now k s) = Some v"
  shows "\<exists>t. entry s k = Some (v, t) \<and> elapsed now t \<le> ttl s"
  using assms by (auto simp: get_val split: option.splits if_splits)

text \<open>A history of calls.\<close>

fun event :: "('k, 'v) cache_event \<Rightarrow> 's \<Rightarrow> 's" where
  "event (CGet k now) s = snd (get now k s)"
| "event (CPut k v now) s = put now k v s"
| "event (CDel k) s = del k s"

definition run :: "('k, 'v) cache_event list \<Rightarrow> 's \<Rightarrow> 's" where
  "run es s = fold event es s"

lemma run_simps [simp]:
  "run [] s = s" "run (e # es) s = run es (event e s)" "run (es @ [e]) s = event e (run es s)"
  by (simp_all add: run_def)

lemma ttl_event [simp]: "ttl (event e s) = ttl s"
  by (cases e) (simp_all add: ttl_get ttl_put ttl_del)

lemma ttl_run [simp]: "ttl (run es s) = ttl s"
  by (induction es rule: rev_induct) simp_all

definition untouched :: "'k \<Rightarrow> ('k, 'v) cache_event list \<Rightarrow> bool" where
  "untouched k es \<longleftrightarrow> (\<forall>e \<in> set es. \<not> touches k e)"

lemma untouched_simps [simp]:
  "untouched k []" "untouched k (es @ [e]) \<longleftrightarrow> untouched k es \<and> \<not> touches k e"
  "untouched k (e # es) \<longleftrightarrow> untouched k es \<and> \<not> touches k e"
  by (auto simp: untouched_def)

lemma event_entry:
  assumes "entry (event e s) k = Some (v, t)"
  shows "(entry s k = Some (v, t) \<and> \<not> touches k e) \<or> e = CPut k v t"
proof (cases e)
  case (CPut k' v' t')
  then show ?thesis
    using assms put_other [of k k' t' v' s] put_same [of t' k' v' s] by (cases "k' = k") auto
qed (use assms in \<open>auto simp: get_entries del_entries split: if_splits\<close>)

text \<open>What a history leaves under a key is what was there before, untouched, or the value of the
  last put.\<close>

lemma run_entry:
  "entry (run es s) k = Some (v, t) \<Longrightarrow>
     (entry s k = Some (v, t) \<and> untouched k es) \<or>
     (\<exists>pre post. es = pre @ CPut k v t # post \<and> untouched k post)"
proof (induction es rule: rev_induct)
  case (snoc e es)
  from snoc.prems have "(entry (run es s) k = Some (v, t) \<and> \<not> touches k e) \<or> e = CPut k v t"
    by (auto dest: event_entry)
  then show ?case
  proof
    assume e: "entry (run es s) k = Some (v, t) \<and> \<not> touches k e"
    then show ?thesis
      using snoc.IH by (metis append_Cons append_assoc untouched_simps(2))
  next
    assume "e = CPut k v t"
    then show ?thesis by (metis untouched_simps(1))
  qed
qed simp

text \<open>Freshness: what is served after a history that starts without an entry for the key is the
  value of the last put of the key, not removed since, and at most the time to live old.\<close>

lemma served_is_last_put:
  assumes "entry s k = None" "fst (get now k (run es s)) = Some v"
  shows "\<exists>pre t post. es = pre @ CPut k v t # post \<and> untouched k post \<and> elapsed now t \<le> ttl s"
proof -
  obtain t where t: "entry (run es s) k = Some (v, t)" "elapsed now t \<le> ttl s"
    using served_young [OF assms(2)] by auto
  with run_entry [OF t(1)] assms(1) show ?thesis by auto
qed

end

text \<open>A cache whose put leaves the other keys alone.\<close>

locale ttl_store = ttl_cache +
  assumes put_keeps: "k' \<noteq> k \<Longrightarrow> entry (put now k v s) k' = entry s k'"
begin

lemma get_after_put_other:
  "k' \<noteq> k \<Longrightarrow> fst (get now' k' (put now k v s)) = fst (get now' k' s)"
  by (simp add: get_val put_keeps ttl_put split: option.split)

text \<open>In such a cache a put is served by every later lookup within the time to live, as long as
  the key is neither put again nor removed and no lookup in between found it expired.\<close>

lemma put_survives:
  assumes "untouched k es" "\<forall>k' now'. CGet k' now' \<in> set es \<longrightarrow> elapsed now' t \<le> ttl s"
    "entry s k = Some (v, t)"
  shows "entry (run es s) k = Some (v, t)"
  using assms
proof (induction es rule: rev_induct)
  case (snoc e es)
  then have IH: "entry (run es s) k = Some (v, t)" by auto
  show ?case
  proof (cases e)
    case (CGet k' now')
    then have "fst (get now' k' (run es s)) \<noteq> None \<or> k' \<noteq> k"
      using snoc.prems IH by (auto simp: get_val)
    then show ?thesis using IH by (auto simp: CGet get_entries)
  qed (use snoc.prems IH in \<open>auto simp: put_keeps del_entries\<close>)
qed simp

end

end
