(* ===== verification/MetaCache.thy ===== *)
theory MetaCache
  imports Attr Metrics TtlCache
begin

text \<open>
  The metadata cache (src/src/cache/metadata.rs): attributes and directory listings by inode,
  and paths known not to exist, each with its own time to live. Lookups count hits and misses in
  the shared metrics, so they take and return them.
\<close>

section \<open>State and operations\<close>

record cached_attr =
  ca_attr :: file_attr
  ca_cached_at :: instant

definition cached_attr_new :: "instant \<Rightarrow> file_attr \<Rightarrow> cached_attr" where
  "cached_attr_new now attr = \<lparr>ca_attr = attr, ca_cached_at = now\<rparr>"

definition ca_is_expired :: "instant \<Rightarrow> cached_attr \<Rightarrow> duration \<Rightarrow> bool" where
  "ca_is_expired now c ttl \<longleftrightarrow> elapsed now (ca_cached_at c) > ttl"

record cached_dir_entry =
  cd_children :: "u64 list"
  cd_cached_at :: instant
  cd_complete :: bool

definition cached_dir_new :: "instant \<Rightarrow> u64 list \<Rightarrow> bool \<Rightarrow> cached_dir_entry" where
  "cached_dir_new now children complete =
     \<lparr>cd_children = children, cd_cached_at = now, cd_complete = complete\<rparr>"

definition cd_is_expired :: "instant \<Rightarrow> cached_dir_entry \<Rightarrow> duration \<Rightarrow> bool" where
  "cd_is_expired now c ttl \<longleftrightarrow> elapsed now (cd_cached_at c) > ttl"

record metadata_cache =
  attr_cache :: "(u64, cached_attr) dash"
  dir_cache :: "(u64, cached_dir_entry) dash"
  negative_cache :: "(string, instant) dash"
  mc_config :: metadata_cache_config

definition mc_new :: "metadata_cache_config \<Rightarrow> metadata_cache" where
  "mc_new cfg = \<lparr>attr_cache = [], dir_cache = [], negative_cache = [], mc_config = cfg\<rparr>"

definition get_attr ::
  "instant \<Rightarrow> u64 \<Rightarrow> metadata_cache \<times> metrics \<Rightarrow> file_attr option \<times> (metadata_cache \<times> metrics)" where
  "get_attr now inode = (\<lambda>(mc, mt).
     (case dash_get (attr_cache mc) inode of
        Some cached \<Rightarrow>
          if \<not> ca_is_expired now cached (attr_ttl (mc_config mc))
          then (Some (ca_attr cached), (mc, inc_metadata_cache_hit mt))
          else (None, (mc\<lparr>attr_cache := dash_remove inode (attr_cache mc)\<rparr>, inc_metadata_cache_miss mt))
      | None \<Rightarrow> (None, (mc, inc_metadata_cache_miss mt))))"

text \<open>The eviction sorts by age (a stable sort) and removes the first entries.\<close>

definition oldest_attrs :: "nat \<Rightarrow> metadata_cache \<Rightarrow> u64 list" where
  "oldest_attrs count mc =
     map fst (take count (sort_key snd (map (\<lambda>e. (fst e, ca_cached_at (snd e))) (attr_cache mc))))"

definition evict_oldest_attrs :: "nat \<Rightarrow> metadata_cache \<Rightarrow> metadata_cache" where
  "evict_oldest_attrs count mc =
     mc\<lparr>attr_cache := fold dash_remove (oldest_attrs count mc) (attr_cache mc)\<rparr>"

definition put_attr :: "instant \<Rightarrow> u64 \<Rightarrow> file_attr \<Rightarrow> metadata_cache \<Rightarrow> metadata_cache" where
  "put_attr now inode attr mc =
     (let mc1 = (if max_entries (mc_config mc) \<le> length (attr_cache mc)
                 then evict_oldest_attrs (max_entries (mc_config mc) div 10) mc else mc)
      in mc1\<lparr>attr_cache := dash_insert inode (cached_attr_new now attr) (attr_cache mc1)\<rparr>)"

definition mc_update_attr ::
  "instant \<Rightarrow> u64 \<Rightarrow> (file_attr \<Rightarrow> file_attr) \<Rightarrow> metadata_cache \<Rightarrow> metadata_cache" where
  "mc_update_attr now inode f mc =
     mc\<lparr>attr_cache := dash_modify inode
          (\<lambda>c. c\<lparr>ca_attr := f (ca_attr c), ca_cached_at := now\<rparr>) (attr_cache mc)\<rparr>"

definition invalidate_attr :: "u64 \<Rightarrow> metadata_cache \<Rightarrow> metadata_cache" where
  "invalidate_attr inode mc = mc\<lparr>attr_cache := dash_remove inode (attr_cache mc)\<rparr>"

definition get_dir ::
  "instant \<Rightarrow> u64 \<Rightarrow> metadata_cache \<times> metrics \<Rightarrow> u64 list option \<times> (metadata_cache \<times> metrics)" where
  "get_dir now inode = (\<lambda>(mc, mt).
     (case dash_get (dir_cache mc) inode of
        Some cached \<Rightarrow>
          if \<not> cd_is_expired now cached (dir_ttl (mc_config mc))
          then (Some (cd_children cached), (mc, inc_metadata_cache_hit mt))
          else (None, (mc\<lparr>dir_cache := dash_remove inode (dir_cache mc)\<rparr>, inc_metadata_cache_miss mt))
      | None \<Rightarrow> (None, (mc, inc_metadata_cache_miss mt))))"

definition put_dir :: "instant \<Rightarrow> u64 \<Rightarrow> u64 list \<Rightarrow> bool \<Rightarrow> metadata_cache \<Rightarrow> metadata_cache" where
  "put_dir now inode children complete mc =
     mc\<lparr>dir_cache := dash_insert inode (cached_dir_new now children complete) (dir_cache mc)\<rparr>"

definition invalidate_dir :: "u64 \<Rightarrow> metadata_cache \<Rightarrow> metadata_cache" where
  "invalidate_dir inode mc = mc\<lparr>dir_cache := dash_remove inode (dir_cache mc)\<rparr>"

definition is_negative :: "instant \<Rightarrow> string \<Rightarrow> metadata_cache \<Rightarrow> bool \<times> metadata_cache" where
  "is_negative now path mc =
     (case dash_get (negative_cache mc) path of
        Some timestamp \<Rightarrow>
          if elapsed now timestamp \<le> negative_ttl (mc_config mc) then (True, mc)
          else (False, mc\<lparr>negative_cache := dash_remove path (negative_cache mc)\<rparr>)
      | None \<Rightarrow> (False, mc))"

definition put_negative :: "instant \<Rightarrow> string \<Rightarrow> metadata_cache \<Rightarrow> metadata_cache" where
  "put_negative now path mc = mc\<lparr>negative_cache := dash_insert path now (negative_cache mc)\<rparr>"

definition remove_negative :: "string \<Rightarrow> metadata_cache \<Rightarrow> metadata_cache" where
  "remove_negative path mc = mc\<lparr>negative_cache := dash_remove path (negative_cache mc)\<rparr>"

definition mc_invalidate :: "u64 \<Rightarrow> metadata_cache \<Rightarrow> metadata_cache" where
  "mc_invalidate inode mc = invalidate_dir inode (invalidate_attr inode mc)"

definition invalidate_parent :: "u64 \<Rightarrow> metadata_cache \<Rightarrow> metadata_cache" where
  "invalidate_parent parent_inode mc = invalidate_dir parent_inode mc"

definition mc_clear :: "metadata_cache \<Rightarrow> metadata_cache" where
  "mc_clear mc = mc\<lparr>attr_cache := [], dir_cache := [], negative_cache := []\<rparr>"

record metadata_cache_stats =
  attr_entries :: nat
  dir_entries :: nat
  negative_entries :: nat

definition mc_stats :: "metadata_cache \<Rightarrow> metadata_cache_stats" where
  "mc_stats mc = \<lparr>attr_entries = length (attr_cache mc), dir_entries = length (dir_cache mc),
     negative_entries = length (negative_cache mc)\<rparr>"

lemmas mc_sel_defs =
  get_attr_def get_dir_def mc_update_attr_def invalidate_attr_def invalidate_dir_def
  put_dir_def is_negative_def put_negative_def remove_negative_def mc_invalidate_def

section \<open>Expiry\<close>

lemma fold_remove_get:
  "dash_get (fold dash_remove ks m) k = (if k \<in> set ks then None else dash_get m k)"
  by (induction ks arbitrary: m) auto

lemma dash_wf_fold_remove [simp]: "dash_wf m \<Longrightarrow> dash_wf (fold dash_remove ks m)"
  by (induction ks arbitrary: m) auto

lemma put_attr_get:
  "dash_get (attr_cache (put_attr now i a mc)) i = Some (cached_attr_new now a)"
  by (simp add: put_attr_def Let_def)

lemma put_attr_get_other:
  "j \<noteq> i \<Longrightarrow> dash_get (attr_cache (put_attr now i a mc)) j =
     (if max_entries (mc_config mc) \<le> length (attr_cache mc) \<and>
         j \<in> set (oldest_attrs (max_entries (mc_config mc) div 10) mc)
      then None else dash_get (attr_cache mc) j)"
  by (auto simp: put_attr_def Let_def evict_oldest_attrs_def fold_remove_get)

lemma put_attr_frame [simp]:
  "mc_config (put_attr now i a mc) = mc_config mc"
  "dir_cache (put_attr now i a mc) = dir_cache mc"
  "negative_cache (put_attr now i a mc) = negative_cache mc"
  by (simp_all add: put_attr_def evict_oldest_attrs_def Let_def)

interpretation attr_ttl: ttl_cache
  "\<lambda>s k. map_option (\<lambda>c. (ca_attr c, ca_cached_at c)) (dash_get (attr_cache (fst s)) k)"
  "\<lambda>s. attr_ttl (mc_config (fst s))"
  get_attr
  "\<lambda>now k v s. (put_attr now k v (fst s), snd s)"
  "\<lambda>k s. (invalidate_attr k (fst s), snd s)"
proof unfold_locales
  fix now k s k'
  show "map_option (\<lambda>c. (ca_attr c, ca_cached_at c)) (dash_get (attr_cache (fst (snd (get_attr now k s)))) k') =
      (if k' = k \<and> fst (get_attr now k s) = None then None
       else map_option (\<lambda>c. (ca_attr c, ca_cached_at c)) (dash_get (attr_cache (fst s)) k'))"
    by (cases s) (auto simp: get_attr_def split: option.splits)
qed (auto simp: get_attr_def invalidate_attr_def ca_is_expired_def put_attr_get put_attr_get_other
    cached_attr_new_def split: option.splits)

interpretation dir_ttl: ttl_store
  "\<lambda>s k. map_option (\<lambda>c. (cd_children c, cd_cached_at c)) (dash_get (dir_cache (fst s)) k)"
  "\<lambda>s. dir_ttl (mc_config (fst s))"
  get_dir
  "\<lambda>now k v s. (put_dir now k v complete (fst s), snd s)"
  "\<lambda>k s. (invalidate_dir k (fst s), snd s)" for complete
proof unfold_locales
  fix now k s k'
  show "map_option (\<lambda>c. (cd_children c, cd_cached_at c)) (dash_get (dir_cache (fst (snd (get_dir now k s)))) k') =
      (if k' = k \<and> fst (get_dir now k s) = None then None
       else map_option (\<lambda>c. (cd_children c, cd_cached_at c)) (dash_get (dir_cache (fst s)) k'))"
    by (cases s) (auto simp: get_dir_def split: option.splits)
qed (auto simp: get_dir_def invalidate_dir_def cd_is_expired_def put_dir_def cached_dir_new_def
    split: option.splits)

definition get_negative :: "instant \<Rightarrow> string \<Rightarrow> metadata_cache \<Rightarrow> unit option \<times> metadata_cache" where
  "get_negative now path mc =
     (let (b, mc') = is_negative now path mc in (if b then Some () else None, mc'))"

interpretation negative_ttl: ttl_store
  "\<lambda>mc p. map_option (\<lambda>t. ((), t)) (dash_get (negative_cache mc) p)"
  "\<lambda>mc. negative_ttl (mc_config mc)"
  get_negative
  "\<lambda>now p v mc. put_negative now p mc"
  "\<lambda>p mc. remove_negative p mc"
  by unfold_locales
    (auto simp: get_negative_def is_negative_def put_negative_def remove_negative_def split: option.splits)

text \<open>The calls of a client, one for every operation of the cache.\<close>

datatype mc_call =
    MGetAttr u64 instant | MPutAttr u64 file_attr instant
  | MUpdateAttr u64 "file_attr \<Rightarrow> file_attr" instant | MInvalidateAttr u64
  | MGetDir u64 instant | MPutDir u64 "u64 list" bool instant | MInvalidateDir u64
  | MIsNegative string instant | MPutNegative string instant | MRemoveNegative string
  | MInvalidate u64 | MInvalidateParent u64 | MClear

fun mc_do :: "mc_call \<Rightarrow> metadata_cache \<times> metrics \<Rightarrow> metadata_cache \<times> metrics" where
  "mc_do (MGetAttr i now) s = snd (get_attr now i s)"
| "mc_do (MPutAttr i a now) s = (put_attr now i a (fst s), snd s)"
| "mc_do (MUpdateAttr i f now) s = (mc_update_attr now i f (fst s), snd s)"
| "mc_do (MInvalidateAttr i) s = (invalidate_attr i (fst s), snd s)"
| "mc_do (MGetDir i now) s = snd (get_dir now i s)"
| "mc_do (MPutDir i children complete now) s = (put_dir now i children complete (fst s), snd s)"
| "mc_do (MInvalidateDir i) s = (invalidate_dir i (fst s), snd s)"
| "mc_do (MIsNegative p now) s = (snd (is_negative now p (fst s)), snd s)"
| "mc_do (MPutNegative p now) s = (put_negative now p (fst s), snd s)"
| "mc_do (MRemoveNegative p) s = (remove_negative p (fst s), snd s)"
| "mc_do (MInvalidate i) s = (mc_invalidate i (fst s), snd s)"
| "mc_do (MInvalidateParent i) s = (invalidate_parent i (fst s), snd s)"
| "mc_do MClear s = (mc_clear (fst s), snd s)"

text \<open>What a call means for the attributes of one inode: it may replace or remove them, it may update
  them, and an update renews their age.\<close>

fun replaces_attr :: "u64 \<Rightarrow> mc_call \<Rightarrow> bool" where
  "replaces_attr i (MPutAttr j _ _) = (j = i)"
| "replaces_attr i (MInvalidateAttr j) = (j = i)"
| "replaces_attr i (MInvalidate j) = (j = i)"
| "replaces_attr i MClear = True"
| "replaces_attr i _ = False"

fun updated_attr :: "u64 \<Rightarrow> mc_call \<Rightarrow> file_attr \<Rightarrow> file_attr" where
  "updated_attr i (MUpdateAttr j f _) a = (if j = i then f a else a)"
| "updated_attr i _ a = a"

fun renewed_at :: "u64 \<Rightarrow> mc_call \<Rightarrow> instant \<Rightarrow> instant" where
  "renewed_at i (MUpdateAttr j _ now) t = (if j = i then now else t)"
| "renewed_at i _ t = t"

lemma mc_do_attr_ttl [simp]: "mc_config (fst (mc_do c s)) = mc_config (fst s)"
  by (cases s; cases c) (simp_all add: mc_sel_defs mc_clear_def invalidate_parent_def split: option.split)

lemma mc_do_other:
  "(\<And>i now. c \<noteq> MGetAttr i now) \<Longrightarrow> (\<And>i a now. c \<noteq> MPutAttr i a now) \<Longrightarrow>
     dash_get (attr_cache (fst (mc_do c s))) i = Some e \<Longrightarrow>
     \<not> replaces_attr i c \<and>
     (\<exists>e0. dash_get (attr_cache (fst s)) i = Some e0 \<and> ca_attr e = updated_attr i c (ca_attr e0) \<and>
        ca_cached_at e = renewed_at i c (ca_cached_at e0))"
  by (cases s; cases c)
    (auto simp: mc_sel_defs mc_clear_def invalidate_parent_def split: option.splits if_splits)

text \<open>An entry after a call is the one just put, or the entry before, updated by the call.\<close>

lemma mc_do_entry:
  assumes "dash_get (attr_cache (fst (mc_do c s))) i = Some e"
  shows "c = MPutAttr i (ca_attr e) (ca_cached_at e) \<or> (\<not> replaces_attr i c \<and>
     (\<exists>e0. dash_get (attr_cache (fst s)) i = Some e0 \<and> ca_attr e = updated_attr i c (ca_attr e0) \<and>
        ca_cached_at e = renewed_at i c (ca_cached_at e0)))"
proof (cases c)
  case (MGetAttr j now)
  then show ?thesis using assms by (cases s) (auto simp: get_attr_def split: option.splits if_splits)
next
  case (MPutAttr j a now)
  then show ?thesis
    using assms by (cases "i = j") (auto simp: put_attr_get put_attr_get_other cached_attr_new_def split: if_splits)
qed (use assms mc_do_other [of c s i e] in auto)

lemma mc_run_entry:
  assumes "dash_get (attr_cache (fst (fold mc_do calls (mc_new cfg, mt)))) i = Some e"
  shows "\<exists>pre a t post. calls = pre @ MPutAttr i a t # post \<and> (\<forall>c \<in> set post. \<not> replaces_attr i c) \<and>
     ca_attr e = fold (updated_attr i) post a \<and> ca_cached_at e = fold (renewed_at i) post t"
  using assms
proof (induction calls arbitrary: e rule: rev_induct)
  case (snoc c calls)
  let ?s = "fold mc_do calls (mc_new cfg, mt)"
  consider "c = MPutAttr i (ca_attr e) (ca_cached_at e)"
    | e0 where "\<not> replaces_attr i c" "dash_get (attr_cache (fst ?s)) i = Some e0"
        "ca_attr e = updated_attr i c (ca_attr e0)" "ca_cached_at e = renewed_at i c (ca_cached_at e0)"
    using mc_do_entry [of c ?s i e] snoc.prems by auto
  then show ?case
  proof cases
    case 1
    then have "calls @ [c] = calls @ MPutAttr i (ca_attr e) (ca_cached_at e) # []" by simp
    then show ?thesis by fastforce
  next
    case (2 e0)
    from snoc.IH [OF 2(2)] obtain pre a t post where
      "calls = pre @ MPutAttr i a t # post" "\<forall>c \<in> set post. \<not> replaces_attr i c"
      "ca_attr e0 = fold (updated_attr i) post a" "ca_cached_at e0 = fold (renewed_at i) post t" by blast
    with 2 show ?thesis
      by (intro exI [of _ pre] exI [of _ a] exI [of _ t] exI [of _ "post @ [c]"]) auto
  qed
qed (simp add: mc_new_def)

lemma mc_run_config [simp]: "mc_config (fst (fold mc_do calls s)) = mc_config (fst s)"
  by (induction calls arbitrary: s) simp_all

text \<open>C17 (no stale attributes): whatever operations of the cache were called on a new one, in any order,
  attributes that a lookup returns are those of a put for that inode with the later updates of the inode
  applied in their order; no other put, invalidation or clearing that concerns the inode followed the put,
  and the last of the put and its updates is at most the attribute time to live ago.\<close>

theorem served_attr_is_last_put:
  assumes "fst (get_attr now i (fold mc_do calls (mc_new cfg, mt))) = Some a"
  shows "\<exists>pre a0 t post. calls = pre @ MPutAttr i a0 t # post \<and> (\<forall>c \<in> set post. \<not> replaces_attr i c) \<and>
     a = fold (updated_attr i) post a0 \<and> elapsed now (fold (renewed_at i) post t) \<le> attr_ttl cfg"
proof -
  obtain t where "map_option (\<lambda>c. (ca_attr c, ca_cached_at c))
       (dash_get (attr_cache (fst (fold mc_do calls (mc_new cfg, mt)))) i) = Some (a, t)"
    "elapsed now t \<le> attr_ttl cfg"
    using attr_ttl.served_young [OF assms] by (auto simp: mc_new_def)
  then obtain e where "dash_get (attr_cache (fst (fold mc_do calls (mc_new cfg, mt)))) i = Some e"
    "ca_attr e = a" "elapsed now (ca_cached_at e) \<le> attr_ttl cfg" by auto
  with mc_run_entry [of calls cfg mt i e] show ?thesis by metis
qed

definition attr0 :: file_attr where
  "attr0 = fa_file 0 7 42 0 0 420"

lemma served_attr_is_last_put_witness:
  "\<exists>pre a0 t post.
     [MPutAttr 7 attr0 10, MUpdateAttr 7 (\<lambda>a. a\<lparr>fa_size := 43\<rparr>) 11, MGetAttr 7 12] = pre @ MPutAttr 7 a0 t # post \<and>
     (\<forall>c \<in> set post. \<not> replaces_attr 7 c) \<and> attr0\<lparr>fa_size := 43\<rparr> = fold (updated_attr 7) post a0 \<and>
     elapsed 13 (fold (renewed_at 7) post t) \<le> attr_ttl metadata_cache_config_default"
  by (rule served_attr_is_last_put [of _ _ _ _ metrics_new])
    (simp add: get_attr_def put_attr_def mc_update_attr_def dash_modify_def mc_new_def ca_is_expired_def
      cached_attr_new_def elapsed_def metadata_cache_config_default_def Let_def evict_oldest_attrs_def)

text \<open>An update renews the age of an entry that has expired but has not been looked up since: the
  attributes that the update leaves alone are served again, however old they are.\<close>

lemma update_revives_expired_attr:
  assumes "dash_get (attr_cache mc) i = Some e"
  shows "fst (get_attr now' i (mc_update_attr now i f mc, mt)) =
     (if elapsed now' now \<le> attr_ttl (mc_config mc) then Some (f (ca_attr e)) else None)"
  using assms by (simp add: get_attr_def mc_update_attr_def ca_is_expired_def not_less)

text \<open>A put attribute is served: attributes put for an inode are served at every instant up to
  the time to live afterwards, and never later.\<close>

theorem put_attr_served:
  "fst (get_attr now' i (put_attr now i a mc, mt)) =
     (if elapsed now' now \<le> attr_ttl (mc_config mc) then Some a else None)"
  using attr_ttl.get_after_put [of now' i now a "(mc, mt)"] by simp

section \<open>Size\<close>

lemma oldest_attrs_wf:
  assumes "dash_wf (attr_cache mc)"
  shows "distinct (oldest_attrs n mc)" "set (oldest_attrs n mc) \<subseteq> fst ` set (attr_cache mc)"
    "length (oldest_attrs n mc) = min n (length (attr_cache mc))"
proof -
  let ?es = "map (\<lambda>e. (fst e, ca_cached_at (snd e))) (attr_cache mc)"
  have "distinct (map fst ?es)" using assms by (simp add: dash_wf_def o_def)
  then have "distinct (map fst (sort_key snd ?es))" by (simp only: distinct_map distinct_sort set_sort)
  then show "distinct (oldest_attrs n mc)"
    unfolding oldest_attrs_def take_map [symmetric] by (rule distinct_take)
  show "set (oldest_attrs n mc) \<subseteq> fst ` set (attr_cache mc)"
    by (auto simp: oldest_attrs_def dest!: in_set_takeD)
  show "length (oldest_attrs n mc) = min n (length (attr_cache mc))"
    by (simp add: oldest_attrs_def min.commute)
qed

lemma length_fold_remove:
  assumes "dash_wf m" "distinct ks" "set ks \<subseteq> fst ` set m"
  shows "length (fold dash_remove ks m) + length ks = length m"
  using assms
proof (induction ks arbitrary: m)
  case (Cons k ks)
  then obtain v where v: "dash_get m k = Some v"
    by (metis imageE insert_subset list.simps(15) map_of_eq_None_iff not_None_eq)
  have "fst ` set (dash_remove k m) = fst ` set m - {k}"
    by (simp add: dash_remove_filter) force
  then have "set ks \<subseteq> fst ` set (dash_remove k m)"
    using Cons.prems by auto
  then show ?case
    using Cons.IH [of "dash_remove k m"] Cons.prems length_remove_present [OF _ v] by simp
qed simp

definition mc_wf :: "metadata_cache \<Rightarrow> bool" where
  "mc_wf mc \<longleftrightarrow> dash_wf (attr_cache mc) \<and> dash_wf (dir_cache mc) \<and> dash_wf (negative_cache mc)"

lemma mc_wf_new [wf_intros]: "mc_wf (mc_new cfg)"
  by (simp add: mc_wf_def mc_new_def)

lemma mc_wf_put_attr [wf_intros]: "mc_wf mc \<Longrightarrow> mc_wf (put_attr now i a mc)"
  by (simp add: mc_wf_def) (simp add: put_attr_def evict_oldest_attrs_def Let_def)

lemma length_evict:
  "dash_wf (attr_cache mc) \<Longrightarrow>
     length (attr_cache (evict_oldest_attrs n mc)) = length (attr_cache mc) - n"
  using length_fold_remove [of "attr_cache mc" "oldest_attrs n mc"] oldest_attrs_wf [of mc n]
  by (simp add: evict_oldest_attrs_def)

text \<open>The attribute cache is bounded: with room for at least ten entries, putting attributes
  keeps the number of cached attributes within the configured maximum.\<close>

theorem put_attr_bounded:
  assumes "mc_wf mc" "10 \<le> max_entries (mc_config mc)"
    "length (attr_cache mc) \<le> max_entries (mc_config mc)"
  shows "length (attr_cache (put_attr now i a mc)) \<le> max_entries (mc_config mc)"
proof (cases "max_entries (mc_config mc) \<le> length (attr_cache mc)")
  case True
  let ?e = "evict_oldest_attrs (max_entries (mc_config mc) div 10) mc"
  have "length (attr_cache ?e) < max_entries (mc_config mc)"
    using assms True by (simp add: length_evict mc_wf_def)
  then show ?thesis
    using length_insert_le [of i "cached_attr_new now a" "attr_cache ?e"] True
    by (simp add: put_attr_def Let_def)
next
  case False
  then show ?thesis
    using length_insert_le [of i "cached_attr_new now a" "attr_cache mc"]
    by (simp add: put_attr_def Let_def)
qed

definition cache_of_ten :: metadata_cache where
  "cache_of_ten = mc_new (metadata_cache_config_default\<lparr>max_entries := 10\<rparr>)"

lemma put_attr_bounded_witness: "length (attr_cache (put_attr 0 7 attr0 cache_of_ten)) \<le> 10"
  using put_attr_bounded [of cache_of_ten 0 7 attr0]
  by (simp add: cache_of_ten_def mc_wf_new) (simp add: mc_new_def)

text \<open>A small attribute cache is not bounded: with a maximum below ten, a full cache evicts
  nothing, so each put for a new inode makes it one entry larger.\<close>

theorem put_attr_small_grows:
  assumes "max_entries (mc_config mc) < 10" "max_entries (mc_config mc) \<le> length (attr_cache mc)"
    "dash_get (attr_cache mc) i = None"
  shows "length (attr_cache (put_attr now i a mc)) = Suc (length (attr_cache mc))"
  using assms by (simp add: put_attr_def evict_oldest_attrs_def oldest_attrs_def Let_def
      length_insert_absent)

definition cache_of_zero :: metadata_cache where
  "cache_of_zero = mc_new (metadata_cache_config_default\<lparr>max_entries := 0\<rparr>)"

lemma put_attr_small_grows_witness: "length (attr_cache (put_attr 0 7 attr0 cache_of_zero)) = 1"
  using put_attr_small_grows [of cache_of_zero 7 0 attr0]
  by (simp add: cache_of_zero_def mc_new_def)

text \<open>Eviction by age: the entries that an eviction removes are not younger than any entry it
  keeps.\<close>

theorem evicts_oldest_attrs:
  assumes "dash_get (attr_cache mc) i = Some ci" "dash_get (attr_cache (evict_oldest_attrs n mc)) i = None"
    and "dash_get (attr_cache (evict_oldest_attrs n mc)) j = Some cj" and "mc_wf mc"
  shows "ca_cached_at ci \<le> ca_cached_at cj"
proof -
  let ?es = "map (\<lambda>e. (fst e, ca_cached_at (snd e))) (attr_cache mc)"
  let ?s = "sort_key snd ?es"
  have wf: "dash_wf (attr_cache mc)" using assms(4) by (simp add: mc_wf_def)
  have i: "i \<in> set (oldest_attrs n mc)" and j: "j \<notin> set (oldest_attrs n mc)"
    and cj: "dash_get (attr_cache mc) j = Some cj"
    using assms(1-3) by (simp_all add: evict_oldest_attrs_def fold_remove_get split: if_splits)
  from i obtain t where t: "(i, t) \<in> set (take n ?s)" by (auto simp: oldest_attrs_def)
  then have "(i, t) \<in> set ?s" by (rule in_set_takeD)
  then obtain c where "(i, c) \<in> set (attr_cache mc)" "t = ca_cached_at c" by auto
  then have "t = ca_cached_at ci" using assms(1) dash_mem_iff [OF wf, of i c] by simp
  have "(j, cj) \<in> set (attr_cache mc)" using cj by (rule map_of_SomeD)
  then have "(j, ca_cached_at cj) \<in> set ?s" by force
  then have "(j, ca_cached_at cj) \<in> set (take n ?s) \<union> set (drop n ?s)"
    by (simp only: set_append [symmetric] append_take_drop_id)
  moreover have "(j, ca_cached_at cj) \<notin> set (take n ?s)"
    using j imageI [of "(j, ca_cached_at cj)" "set (take n ?s)" fst]
    by (auto simp: oldest_attrs_def simp del: set_sort)
  ultimately have d: "(j, ca_cached_at cj) \<in> set (drop n ?s)" by blast
  have "sorted (map snd (take n ?s @ drop n ?s))"
    by (simp only: append_take_drop_id sorted_sort_key)
  then have "\<forall>x \<in> set (map snd (take n ?s)). \<forall>y \<in> set (map snd (drop n ?s)). x \<le> y"
    unfolding map_append sorted_append by blast
  moreover have "t \<in> set (map snd (take n ?s))" "ca_cached_at cj \<in> set (map snd (drop n ?s))"
    using t d by force+
  ultimately show ?thesis using \<open>t = ca_cached_at ci\<close> by blast
qed

definition two_attrs :: metadata_cache where
  "two_attrs = cache_of_ten\<lparr>attr_cache := [(7, cached_attr_new 5 attr0), (8, cached_attr_new 3 attr0)]\<rparr>"

lemma evicts_oldest_attrs_witness:
  "dash_get (attr_cache (evict_oldest_attrs 1 two_attrs)) 8 = None \<and>
   ca_cached_at (cached_attr_new 3 attr0) \<le> ca_cached_at (cached_attr_new 5 attr0)"
proof -
  have e: "attr_cache (evict_oldest_attrs 1 two_attrs) = [(7, cached_attr_new 5 attr0)]"
    by (simp add: evict_oldest_attrs_def oldest_attrs_def two_attrs_def cached_attr_new_def)
  have t: "attr_cache two_attrs = [(7, cached_attr_new 5 attr0), (8, cached_attr_new 3 attr0)]" "mc_wf two_attrs"
    by (simp_all add: two_attrs_def cache_of_ten_def mc_wf_def mc_new_def dash_wf_def)
  show ?thesis
    using evicts_oldest_attrs [of two_attrs 8 "cached_attr_new 3 attr0" 1 7 "cached_attr_new 5 attr0"]
    by (simp add: e [simplified] t)
qed

end
