(* ===== verification/DataCache.thy ===== *)
theory DataCache
  imports Config Metrics Decimal
begin

text \<open>
  The two-level block cache (src/src/cache/data.rs): blocks of file data in memory under a
  limit, evicted in order of last use into an optional cache of files on disk.

  A division by a zero block size panics, which is the value \<open>None\<close> of the operations that
  compute block numbers. The directory of the disk cache is a map from file names to contents,
  with the reads and writes that fail given as functions.
\<close>

section \<open>Blocks\<close>

record block_key =
  bk_inode :: u64
  bk_offset :: u64

definition block_key_new :: "u64 \<Rightarrow> u64 \<Rightarrow> u64 \<Rightarrow> block_key option" where
  "block_key_new inode offset block_size =
     (if block_size = 0 then None
      else Some \<lparr>bk_inode = inode, bk_offset = (offset div block_size) * block_size\<rparr>)"

definition block_num :: "block_key \<Rightarrow> u64 \<Rightarrow> u64 option" where
  "block_num k block_size = (if block_size = 0 then None else Some (bk_offset k div block_size))"

record cached_block =
  cb_data :: bytes
  cb_cached_at :: instant
  cb_last_access :: instant
  cb_access_count :: u64

definition cached_block_new :: "instant \<Rightarrow> bytes \<Rightarrow> cached_block" where
  "cached_block_new now data =
     \<lparr>cb_data = data, cb_cached_at = now, cb_last_access = now, cb_access_count = 1\<rparr>"

definition cb_touch :: "instant \<Rightarrow> cached_block \<Rightarrow> cached_block" where
  "cb_touch now b = b\<lparr>cb_last_access := now, cb_access_count := cb_access_count b + 1\<rparr>"

section \<open>The disk cache\<close>

datatype write_fault = NoFault | CreateFails | WriteFails nat

record disk =
  d_files :: "(string, bytes) dash"
  d_read_fails :: "string \<Rightarrow> bool"
  d_write_fault :: "string \<Rightarrow> write_fault"

definition fs_read :: "disk \<Rightarrow> string \<Rightarrow> bytes option" where
  "fs_read d path = (if d_read_fails d path then None else dash_get (d_files d) path)"

text \<open>\<open>File::create\<close> truncates; a write that fails leaves the bytes written so far.\<close>

definition fs_write :: "disk \<Rightarrow> string \<Rightarrow> bytes \<Rightarrow> bool \<times> disk" where
  "fs_write d path data =
     (case d_write_fault d path of
        NoFault \<Rightarrow> (True, d\<lparr>d_files := dash_insert path data (d_files d)\<rparr>)
      | CreateFails \<Rightarrow> (False, d)
      | WriteFails n \<Rightarrow> (False, d\<lparr>d_files := dash_insert path (take n data) (d_files d)\<rparr>))"

definition fs_remove :: "string \<Rightarrow> disk \<Rightarrow> disk" where
  "fs_remove path d = d\<lparr>d_files := dash_remove path (d_files d)\<rparr>"

record disk_cache_entry =
  de_path :: string
  de_size :: u64
  de_last_access :: instant

record disk_cache =
  dk_dir :: string
  dk_size_limit :: u64
  dk_entries :: "(block_key, disk_cache_entry) dash"
  dk_current_size :: u64
  dk_disk :: disk

definition dk_new :: "disk \<Rightarrow> string \<Rightarrow> u64 \<Rightarrow> disk_cache" where
  "dk_new d dir limit =
     \<lparr>dk_dir = dir, dk_size_limit = limit, dk_entries = [], dk_current_size = 0, dk_disk = d\<rparr>"

definition dk_get :: "instant \<Rightarrow> block_key \<Rightarrow> disk_cache \<Rightarrow> bytes option \<times> disk_cache" where
  "dk_get now key dk =
     (case dash_get (dk_entries dk) key of
        Some e \<Rightarrow>
          (fs_read (dk_disk dk) (de_path e),
           dk\<lparr>dk_entries := dash_insert key (e\<lparr>de_last_access := now\<rparr>) (dk_entries dk)\<rparr>)
      | None \<Rightarrow> (None, dk))"

text \<open>\<open>min_by_key\<close> keeps the first of equally old entries.\<close>

fun oldest_entry :: "(block_key \<times> disk_cache_entry) list \<Rightarrow> (block_key \<times> disk_cache_entry) option" where
  "oldest_entry [] = None"
| "oldest_entry (e # es) =
     (case oldest_entry es of
        None \<Rightarrow> Some e
      | Some e' \<Rightarrow> if de_last_access (snd e') < de_last_access (snd e) then Some e' else Some e)"

definition dk_evict_one :: "disk_cache \<Rightarrow> disk_cache option" where
  "dk_evict_one dk =
     (case oldest_entry (dk_entries dk) of
        Some (key, e) \<Rightarrow> Some (dk\<lparr>dk_entries := dash_remove key (dk_entries dk),
                                  dk_disk := fs_remove (de_path e) (dk_disk dk)\<rparr>)
      | None \<Rightarrow> None)"

definition dk_calculate_size :: "disk_cache \<Rightarrow> u64" where
  "dk_calculate_size dk = sum_list (map (\<lambda>e. de_size (snd e)) (dk_entries dk))"

definition dk_entry_count :: "disk_cache \<Rightarrow> nat" where
  "dk_entry_count dk = length (dk_entries dk)"

lemma oldest_entry_mem: "oldest_entry es = Some e \<Longrightarrow> e \<in> set es"
  by (induction es arbitrary: e) (auto split: option.splits if_splits)

lemma oldest_entry_None [simp]: "oldest_entry es = None \<longleftrightarrow> es = []"
  by (cases es) (auto split: option.splits)

lemma dk_evict_one_less: "dk_evict_one dk = Some dk' \<Longrightarrow> length (dk_entries dk') < length (dk_entries dk)"
  by (auto simp: dk_evict_one_def dash_remove_filter split: option.splits dest!: oldest_entry_mem
      intro!: length_filter_less)

text \<open>The loop that makes room: \<open>False\<close> when nothing is left to evict.\<close>

function dk_make_room :: "u64 \<Rightarrow> disk_cache \<Rightarrow> bool \<times> disk_cache" where
  "dk_make_room sz dk =
     (if dk_current_size dk + sz > dk_size_limit dk
      then (case dk_evict_one dk of
              None \<Rightarrow> (False, dk)
            | Some dk' \<Rightarrow> dk_make_room sz (dk'\<lparr>dk_current_size := dk_calculate_size dk'\<rparr>))
      else (True, dk))"
  by pat_completeness auto
termination
  by (relation "measure (\<lambda>(sz, dk). length (dk_entries dk))") (auto dest: dk_evict_one_less)

declare dk_make_room.simps [simp del]

definition block_file_name :: "block_key \<Rightarrow> string" where
  "block_file_name key = decimal (unat (bk_inode key)) @ ''_'' @ decimal (unat (bk_offset key))"

definition dk_put :: "instant \<Rightarrow> block_key \<Rightarrow> bytes \<Rightarrow> disk_cache \<Rightarrow> disk_cache" where
  "dk_put now key data dk =
     (let path = path_join (dk_dir dk) (block_file_name key);
          sz = len64 data;
          (room, dk1) = dk_make_room sz dk
      in if \<not> room then dk1
         else let (ok, d') = fs_write (dk_disk dk1) path data
              in if ok
                 then dk1\<lparr>dk_disk := d',
                         dk_entries := dash_insert key
                           \<lparr>de_path = path, de_size = sz, de_last_access = now\<rparr> (dk_entries dk1),
                         dk_current_size := dk_current_size dk1 + sz\<rparr>
                 else dk1\<lparr>dk_disk := d'\<rparr>)"

definition dk_invalidate :: "u64 \<Rightarrow> disk_cache \<Rightarrow> disk_cache" where
  "dk_invalidate inode dk =
     dk\<lparr>dk_entries := filter (\<lambda>e. bk_inode (fst e) \<noteq> inode) (dk_entries dk),
        dk_disk := fold (\<lambda>e. fs_remove (de_path (snd e)))
          (filter (\<lambda>e. bk_inode (fst e) = inode) (dk_entries dk)) (dk_disk dk)\<rparr>"

definition dk_clear :: "disk_cache \<Rightarrow> disk_cache" where
  "dk_clear dk =
     dk\<lparr>dk_entries := [], dk_current_size := 0,
        dk_disk := fold (\<lambda>e. fs_remove (de_path (snd e))) (dk_entries dk) (dk_disk dk)\<rparr>"

section \<open>The memory cache\<close>

record data_cache =
  memory_cache :: "(block_key, cached_block) dash"
  dc_disk_cache :: "disk_cache option"
  dc_block_size :: u64
  memory_limit :: u64
  memory_usage :: u64

definition dc_new :: "disk \<Rightarrow> cache_config \<Rightarrow> data_cache" where
  "dc_new d cfg =
     \<lparr>memory_cache = [],
      dc_disk_cache = map_option (\<lambda>dir. dk_new d dir (cfg_disk_limit cfg)) (cfg_cache_dir cfg),
      dc_block_size = cfg_block_size cfg, memory_limit = cfg_memory_limit cfg, memory_usage = 0\<rparr>"

text \<open>The scan for the least recently used block starts from the current instant.\<close>

fun scan_oldest ::
  "instant \<Rightarrow> block_key option \<Rightarrow> (block_key \<times> cached_block) list \<Rightarrow> block_key option" where
  "scan_oldest oldest_time oldest_key [] = oldest_key"
| "scan_oldest oldest_time oldest_key ((k, b) # es) =
     (if cb_last_access b < oldest_time then scan_oldest (cb_last_access b) (Some k) es
      else scan_oldest oldest_time oldest_key es)"

definition evict_one :: "instant \<Rightarrow> data_cache \<Rightarrow> (u64 \<times> data_cache) option" where
  "evict_one now dc =
     (case scan_oldest now None (memory_cache dc) of
        None \<Rightarrow> None
      | Some key \<Rightarrow>
          (case dash_get (memory_cache dc) key of
             None \<Rightarrow> None
           | Some b \<Rightarrow>
               Some (len64 (cb_data b),
                     dc\<lparr>memory_cache := dash_remove key (memory_cache dc),
                        dc_disk_cache := map_option (dk_put now key (cb_data b)) (dc_disk_cache dc)\<rparr>)))"

lemma evict_one_less:
  "evict_one now dc = Some (n, dc') \<Longrightarrow> length (memory_cache dc') < length (memory_cache dc)"
  by (auto simp: evict_one_def split: option.splits dest: length_remove_less)

function evict_loop :: "instant \<Rightarrow> u64 \<Rightarrow> data_cache \<Rightarrow> data_cache" where
  "evict_loop now data_size dc =
     (if memory_usage dc + data_size > memory_limit dc \<and> memory_cache dc \<noteq> []
      then (case evict_one now dc of
              Some (evicted_size, dc') \<Rightarrow>
                evict_loop now data_size
                  (dc'\<lparr>memory_usage := saturating_sub (memory_usage dc) evicted_size\<rparr>)
            | None \<Rightarrow> dc)
      else dc)"
  by pat_completeness auto
termination
  by (relation "measure (\<lambda>(now, n, dc). length (memory_cache dc))") (auto dest: evict_one_less)

declare evict_loop.simps [simp del]

definition put_memory :: "instant \<Rightarrow> block_key \<Rightarrow> bytes \<Rightarrow> data_cache \<Rightarrow> data_cache" where
  "put_memory now key data dc =
     (let data_size = len64 data; dc1 = evict_loop now data_size dc
      in dc1\<lparr>memory_usage := memory_usage dc1 + data_size,
            memory_cache := dash_insert key (cached_block_new now data) (memory_cache dc1)\<rparr>)"

definition dc_get ::
  "instant \<Rightarrow> u64 \<Rightarrow> u64 \<Rightarrow> data_cache \<times> metrics \<Rightarrow> (bytes option \<times> (data_cache \<times> metrics)) option" where
  "dc_get now inode offset = (\<lambda>(dc, mt).
     (case block_key_new inode offset (dc_block_size dc) of
        None \<Rightarrow> None
      | Some key \<Rightarrow> Some
          (case dash_get (memory_cache dc) key of
             Some b \<Rightarrow>
               (Some (cb_data b),
                (dc\<lparr>memory_cache := dash_insert key (cb_touch now b) (memory_cache dc)\<rparr>,
                 inc_read_cache_hit mt))
           | None \<Rightarrow>
               (case dc_disk_cache dc of
                  None \<Rightarrow> (None, (dc, inc_read_cache_miss mt))
                | Some dk \<Rightarrow>
                    (case dk_get now key dk of
                       (Some data, dk') \<Rightarrow>
                         (Some data,
                          (put_memory now key data (dc\<lparr>dc_disk_cache := Some dk'\<rparr>), inc_read_cache_hit mt))
                     | (None, dk') \<Rightarrow>
                         (None, (dc\<lparr>dc_disk_cache := Some dk'\<rparr>, inc_read_cache_miss mt)))))))"

definition dc_put :: "instant \<Rightarrow> u64 \<Rightarrow> u64 \<Rightarrow> bytes \<Rightarrow> data_cache \<Rightarrow> data_cache option" where
  "dc_put now inode offset data dc =
     map_option (\<lambda>key. put_memory now key data dc) (block_key_new inode offset (dc_block_size dc))"

definition dc_invalidate :: "u64 \<Rightarrow> data_cache \<Rightarrow> data_cache" where
  "dc_invalidate inode dc =
     (let removed = filter (\<lambda>e. bk_inode (fst e) = inode) (memory_cache dc);
          removed_size = sum_list (map (\<lambda>e. len64 (cb_data (snd e))) removed)
      in dc\<lparr>memory_cache := filter (\<lambda>e. bk_inode (fst e) \<noteq> inode) (memory_cache dc),
            memory_usage := saturating_sub (memory_usage dc) removed_size,
            dc_disk_cache := map_option (dk_invalidate inode) (dc_disk_cache dc)\<rparr>)"

text \<open>The loop over the block numbers of a range, with the size removed so far.\<close>

fun remove_blocks ::
  "u64 \<Rightarrow> u64 \<Rightarrow> u64 list \<Rightarrow> (block_key, cached_block) dash \<times> u64 \<Rightarrow> (block_key, cached_block) dash \<times> u64" where
  "remove_blocks inode bs [] st = st"
| "remove_blocks inode bs (n # ns) (m, removed_size) =
     (let key = \<lparr>bk_inode = inode, bk_offset = n * bs\<rparr>
      in remove_blocks inode bs ns
           (case dash_get m key of
              Some b \<Rightarrow> (dash_remove key m, removed_size + len64 (cb_data b))
            | None \<Rightarrow> (m, removed_size)))"

definition dc_invalidate_range :: "u64 \<Rightarrow> u64 \<Rightarrow> nat \<Rightarrow> data_cache \<Rightarrow> data_cache option" where
  "dc_invalidate_range inode offset len dc =
     (let bs = dc_block_size dc
      in if bs = 0 then None
         else let start_block = offset div bs;
                  end_block = (offset + of_nat len + bs - 1) div bs;
                  (m, removed_size) =
                    remove_blocks inode bs (map of_nat [unat start_block ..< unat end_block]) (memory_cache dc, 0)
              in Some (dc\<lparr>memory_cache := m,
                          memory_usage := saturating_sub (memory_usage dc) removed_size\<rparr>))"

definition dc_clear :: "data_cache \<Rightarrow> data_cache" where
  "dc_clear dc =
     dc\<lparr>memory_cache := [], memory_usage := 0, dc_disk_cache := map_option dk_clear (dc_disk_cache dc)\<rparr>"

record data_cache_stats =
  memory_entries :: nat
  st_memory_usage :: u64
  st_memory_limit :: u64
  disk_entries :: nat

definition dc_stats :: "data_cache \<Rightarrow> data_cache_stats" where
  "dc_stats dc =
     \<lparr>memory_entries = length (memory_cache dc), st_memory_usage = memory_usage dc,
      st_memory_limit = memory_limit dc,
      disk_entries = (case dc_disk_cache dc of Some dk \<Rightarrow> dk_entry_count dk | None \<Rightarrow> 0)\<rparr>"

end
