(* ===== verification/DataCacheProps.thy ===== *)
theory DataCacheProps
  imports DataCache
begin

text \<open>
  Properties of the block cache: alignment of keys, accounting and the memory limit, eviction in
  order of use, the disk limit, and what the invalidations remove and leave.
\<close>

section \<open>Alignment\<close>

lemma block_key_facts:
  assumes "bs \<noteq> 0"
  shows "\<exists>k. block_key_new i off bs = Some k \<and> bk_inode k = i \<and>
     unat (bk_offset k) = unat off div unat bs * unat bs \<and>
     unat (bk_offset k) \<le> unat off \<and> unat off < unat (bk_offset k) + unat bs \<and>
     (\<forall>off'. block_key_new i off' bs = Some k \<longleftrightarrow> unat off' div unat bs = unat off div unat bs)"
proof -
  have pos: "0 < unat bs" using assms by (simp add: unat_gt_0)
  have mul: "unat (o1 div bs * bs) = unat o1 div unat bs * unat bs" for o1
  proof -
    have "unat o1 div unat bs * unat bs < 18446744073709551616"
      by (rule le_less_trans [OF div_times_less_eq_dividend unat_u64_bound])
    moreover have "unat o1 div unat bs < 18446744073709551616"
      by (rule le_less_trans [OF div_le_dividend unat_u64_bound])
    ultimately show ?thesis by (simp add: unat_word_ariths unat_div)
  qed
  have same: "o1 div bs * bs = off div bs * bs \<longleftrightarrow> unat o1 div unat bs = unat off div unat bs" for o1
    using mul [of o1] mul [of off] pos by (metis mult_cancel2 not_gr_zero word_eq_iff_unsigned)
  have "unat off < unat off div unat bs * unat bs + unat bs"
    using pos by (metis add.commute dividend_less_div_times)
  then show ?thesis
    using assms by (simp add: block_key_new_def mul same)
qed

text \<open>Blocks are aligned: for a non-zero block size, the block of an offset starts at a multiple
  of the block size and contains the offset, and two offsets of an inode have the same key
  exactly when their quotients by the block size agree.\<close>

theorem block_key_aligned:
  assumes "bs \<noteq> 0"
  shows "\<exists>k. block_key_new i off bs = Some k \<and> bk_inode k = i \<and>
     unat (bk_offset k) = unat off div unat bs * unat bs \<and>
     unat (bk_offset k) \<le> unat off \<and> unat off < unat (bk_offset k) + unat bs \<and>
     (\<forall>off'. block_key_new i off' bs = Some k \<longleftrightarrow> unat off' div unat bs = unat off div unat bs)"
  by (rule block_key_facts [OF assms])

lemma block_key_aligned_witness:
  "\<exists>k. block_key_new 1 100 64 = Some k \<and> unat (bk_offset k) = 64"
  using block_key_aligned [of 64 1 100] by auto

section \<open>Accounting in memory\<close>

abbreviation block_size_of :: "cached_block \<Rightarrow> nat" where
  "block_size_of b \<equiv> length (cb_data b)"

text \<open>The bytes held never exceed the accounted usage.\<close>

definition dc_accounted :: "data_cache \<Rightarrow> bool" where
  "dc_accounted dc \<longleftrightarrow>
     dash_wf (memory_cache dc) \<and> dash_sum block_size_of (memory_cache dc) \<le> unat (memory_usage dc)"

lemma scan_oldest_Some:
  "scan_oldest t k es = Some k' \<Longrightarrow> k = Some k' \<or> k' \<in> fst ` set es"
  by (induction t k es rule: scan_oldest.induct) (auto split: if_splits)

lemma scan_oldest_found:
  "\<exists>e \<in> set es. cb_last_access (snd e) < t \<Longrightarrow> scan_oldest t k es \<noteq> None"
proof (induction t k es rule: scan_oldest.induct)
  case (2 t k key b es)
  have "scan_oldest t' (Some k') es \<noteq> None" for t' k'
    by (induction es arbitrary: t' k') (auto split: if_splits)
  with 2 show ?case by auto
qed simp

lemma scan_oldest_min:
  assumes "scan_oldest t k es = Some k'" "dash_wf es"
  shows "(k = Some k' \<and> (\<forall>e \<in> set es. t \<le> cb_last_access (snd e))) \<or>
    (\<exists>b. (k', b) \<in> set es \<and> cb_last_access b < t \<and>
         (\<forall>e \<in> set es. cb_last_access b \<le> cb_last_access (snd e)))"
  using assms
proof (induction t k es rule: scan_oldest.induct)
  case (2 t k key b es)
  then have wf: "dash_wf es" by (simp add: dash_wf_def)
  show ?case
  proof (cases "cb_last_access b < t")
    case True
    with 2 wf have "(key = k' \<and> (\<forall>e \<in> set es. cb_last_access b \<le> cb_last_access (snd e))) \<or>
      (\<exists>b'. (k', b') \<in> set es \<and> cb_last_access b' < cb_last_access b \<and>
         (\<forall>e \<in> set es. cb_last_access b' \<le> cb_last_access (snd e)))" by simp
    then show ?thesis
    proof
      assume "\<exists>b'. (k', b') \<in> set es \<and> cb_last_access b' < cb_last_access b \<and>
         (\<forall>e \<in> set es. cb_last_access b' \<le> cb_last_access (snd e))"
      then obtain b' where b': "(k', b') \<in> set es" "cb_last_access b' < cb_last_access b"
         "\<forall>e \<in> set es. cb_last_access b' \<le> cb_last_access (snd e)" by blast
      with True have "cb_last_access b' < t" by linarith
      with b' show ?thesis by (intro disjI2 exI [of _ b']) simp
    qed (use True in auto)
  next
    case False
    with 2 wf have "(k = Some k' \<and> (\<forall>e \<in> set es. t \<le> cb_last_access (snd e))) \<or>
      (\<exists>b'. (k', b') \<in> set es \<and> cb_last_access b' < t \<and>
         (\<forall>e \<in> set es. cb_last_access b' \<le> cb_last_access (snd e)))" by simp
    then show ?thesis
    proof
      assume "k = Some k' \<and> (\<forall>e \<in> set es. t \<le> cb_last_access (snd e))"
      then show ?thesis using False by simp
    next
      assume "\<exists>b'. (k', b') \<in> set es \<and> cb_last_access b' < t \<and>
         (\<forall>e \<in> set es. cb_last_access b' \<le> cb_last_access (snd e))"
      then obtain b' where b': "(k', b') \<in> set es" "cb_last_access b' < t"
         "\<forall>e \<in> set es. cb_last_access b' \<le> cb_last_access (snd e)" by blast
      with False have "cb_last_access b' \<le> cb_last_access b" by linarith
      with b' show ?thesis by (intro disjI2 exI [of _ b']) simp
    qed
  qed
qed simp

lemma evict_one_effect:
  assumes "evict_one now dc = Some (n, dc')"
  shows "\<exists>k b. scan_oldest now None (memory_cache dc) = Some k \<and> dash_get (memory_cache dc) k = Some b \<and>
    n = len64 (cb_data b) \<and> memory_cache dc' = dash_remove k (memory_cache dc) \<and>
    memory_usage dc' = memory_usage dc \<and> memory_limit dc' = memory_limit dc \<and>
    dc_block_size dc' = dc_block_size dc \<and>
    dc_disk_cache dc' = map_option (dk_put now k (cb_data b)) (dc_disk_cache dc)"
  using assms by (auto simp: evict_one_def split: option.splits)

text \<open>C20 (eviction in order of use): the block that leaves memory was used no later than any block
  that stays, and it is handed to the disk cache when there is one.\<close>

theorem evicts_least_recently_used:
  assumes "evict_one now dc = Some (n, dc')" "dash_wf (memory_cache dc)"
  shows "\<exists>k b. dash_get (memory_cache dc) k = Some b \<and> n = len64 (cb_data b) \<and>
     memory_cache dc' = dash_remove k (memory_cache dc) \<and>
     (\<forall>k' b'. dash_get (memory_cache dc) k' = Some b' \<longrightarrow> cb_last_access b \<le> cb_last_access b') \<and>
     dc_disk_cache dc' = map_option (dk_put now k (cb_data b)) (dc_disk_cache dc)"
proof -
  obtain k b where k: "scan_oldest now None (memory_cache dc) = Some k"
      "dash_get (memory_cache dc) k = Some b" "n = len64 (cb_data b)"
      "memory_cache dc' = dash_remove k (memory_cache dc)"
      "dc_disk_cache dc' = map_option (dk_put now k (cb_data b)) (dc_disk_cache dc)"
    using evict_one_effect [OF assms(1)] by auto
  obtain b2 where b2: "(k, b2) \<in> set (memory_cache dc)"
      "\<forall>e \<in> set (memory_cache dc). cb_last_access b2 \<le> cb_last_access (snd e)"
    using scan_oldest_min [OF k(1) assms(2)] by auto
  have "b2 = b" using k(2) b2(1) dash_mem_iff [OF assms(2), of k b2] by simp
  then have "cb_last_access b \<le> cb_last_access b'" if "dash_get (memory_cache dc) k' = Some b'" for k' b'
    using b2(2) map_of_SomeD [OF that] by force
  with k show ?thesis by blast
qed

lemma evict_accounted:
  assumes "dc_accounted dc" "evict_one now dc = Some (n, dc')"
  shows "dc_accounted (dc'\<lparr>memory_usage := saturating_sub (memory_usage dc) n\<rparr>)"
proof -
  obtain k b where k: "dash_get (memory_cache dc) k = Some b" "n = len64 (cb_data b)"
      "memory_cache dc' = dash_remove k (memory_cache dc)"
    using evict_one_effect [OF assms(2)] by auto
  have s: "dash_sum block_size_of (dash_remove k (memory_cache dc)) + length (cb_data b)
      = dash_sum block_size_of (memory_cache dc)"
    using dash_sum_remove_present [OF _ k(1), of block_size_of] assms(1) by (simp add: dc_accounted_def)
  moreover have "dash_sum block_size_of (memory_cache dc) < 2 ^ 64"
    using assms(1) unat_u64_bound [of "memory_usage dc"] by (simp add: dc_accounted_def)
  ultimately have "length (cb_data b) < 2 ^ 64" by linarith
  then show ?thesis
    using assms(1) s by (simp add: dc_accounted_def k unat_saturating_sub unat_len64) linarith
qed

lemma evict_loop_continue:
  "memory_limit dc < memory_usage dc + sz \<Longrightarrow> memory_cache dc \<noteq> [] \<Longrightarrow>
     evict_one now dc = Some (n, dc') \<Longrightarrow>
     evict_loop now sz dc = evict_loop now sz (dc'\<lparr>memory_usage := saturating_sub (memory_usage dc) n\<rparr>)"
  by (subst evict_loop.simps) simp

lemma evict_loop_stop:
  "\<not> (memory_limit dc < memory_usage dc + sz \<and> memory_cache dc \<noteq> []) \<or> evict_one now dc = None \<Longrightarrow>
     evict_loop now sz dc = dc"
  by (subst evict_loop.simps) auto

text \<open>What every eviction keeps, the loop keeps.\<close>

lemma evict_loop_invariant:
  assumes "P dc"
    and "\<And>dc n dc'. P dc \<Longrightarrow> evict_one now dc = Some (n, dc') \<Longrightarrow>
      P (dc'\<lparr>memory_usage := saturating_sub (memory_usage dc) n\<rparr>)"
  shows "P (evict_loop now sz dc)"
  using assms(1)
proof (induction "length (memory_cache dc)" arbitrary: dc rule: less_induct)
  case less
  show ?case
  proof (cases "memory_limit dc < memory_usage dc + sz \<and> memory_cache dc \<noteq> [] \<and> evict_one now dc \<noteq> None")
    case True
    then obtain n dc' where e: "evict_one now dc = Some (n, dc')" by auto
    let ?dc = "dc'\<lparr>memory_usage := saturating_sub (memory_usage dc) n\<rparr>"
    have "P (evict_loop now sz ?dc)"
      using less.hyps [of ?dc] evict_one_less [OF e] assms(2) [OF less.prems e] by simp
    then show ?thesis using True e by (simp add: evict_loop_continue)
  next
    case False
    then have "evict_loop now sz dc = dc" by (intro evict_loop_stop) blast
    then show ?thesis using less.prems by simp
  qed
qed

lemma evict_loop_accounted: "dc_accounted dc \<Longrightarrow> dc_accounted (evict_loop now sz dc)"
  by (rule evict_loop_invariant) (auto intro: evict_accounted)

lemma evict_loop_frame [simp]:
  "memory_limit (evict_loop now sz dc) = memory_limit dc"
  "dc_block_size (evict_loop now sz dc) = dc_block_size dc"
  by (rule evict_loop_invariant; use evict_one_effect in fastforce)+

lemma evict_loop_usage_le: "memory_usage (evict_loop now sz dc) \<le> memory_usage dc"
  by (rule evict_loop_invariant)
    (auto intro: order_trans [OF saturating_sub_le])

text \<open>When every block was last used before now, the loop stops with room or with an empty cache.\<close>

lemma evict_loop_room:
  "\<forall>e \<in> set (memory_cache dc). cb_last_access (snd e) < now \<Longrightarrow>
     memory_usage (evict_loop now sz dc) + sz \<le> memory_limit dc \<or> memory_cache (evict_loop now sz dc) = []"
proof (induction now sz dc rule: evict_loop.induct)
  case (1 now sz dc)
  show ?case
  proof (cases "memory_usage dc + sz > memory_limit dc \<and> memory_cache dc \<noteq> []")
    case True
    then obtain k where k: "scan_oldest now None (memory_cache dc) = Some k"
      using scan_oldest_found [of "memory_cache dc" now None] "1.prems"
      by (cases "memory_cache dc") auto
    then obtain b where "dash_get (memory_cache dc) k = Some b"
      using scan_oldest_Some [OF k] by (metis map_of_eq_None_iff not_None_eq option.distinct(1))
    with k obtain n dc' where e: "evict_one now dc = Some (n, dc')"
      by (auto simp: evict_one_def)
    have "set (memory_cache dc') \<subseteq> set (memory_cache dc)" "memory_limit dc' = memory_limit dc"
      using evict_one_effect [OF e] by (auto simp: dash_remove_filter)
    then show ?thesis
      using "1.IH" [OF True e refl] "1.prems" True evict_loop_continue [OF _ _ e, of sz] by auto
  next
    case False
    then show ?thesis by (auto simp: evict_loop_stop not_less)
  qed
qed

lemma put_memory_block_size [simp]: "dc_block_size (put_memory now k d dc) = dc_block_size dc"
  by (simp add: put_memory_def Let_def)

lemma dc_put_block_size: "dc_put now i off d dc = Some dc' \<Longrightarrow> dc_block_size dc' = dc_block_size dc"
  unfolding dc_put_def using put_memory_block_size by (elim map_option_eq_Some [THEN iffD1, elim_format] exE conjE) metis

lemma put_memory_accounted:
  assumes "dc_accounted dc" "unat (memory_usage dc) + length data < 2 ^ 64"
  shows "dc_accounted (put_memory now k data dc)"
proof -
  let ?dc1 = "evict_loop now (len64 data) dc"
  have 1: "dc_accounted ?dc1" by (rule evict_loop_accounted [OF assms(1)])
  have "unat (memory_usage ?dc1) \<le> unat (memory_usage dc)"
    using evict_loop_usage_le by (simp add: word_le_nat_alt [symmetric])
  then have "unat (memory_usage ?dc1 + len64 data) = unat (memory_usage ?dc1) + length data"
    using assms(2) unat_plus_no_wrap [of "memory_usage ?dc1" "len64 data"] by (simp add: unat_len64)
  then show ?thesis
    using 1 dash_sum_insert_le [of block_size_of k "cached_block_new now data" "memory_cache ?dc1"]
    by (auto simp: dc_accounted_def put_memory_def Let_def cached_block_new_def)
qed

text \<open>C18 (the memory limit): putting a block in an accounted cache whose blocks were all used before
  now leaves at most the configured limit of bytes in memory, or, when the block alone is larger
  than the limit, just that block. The accounted usage and the size of the block together are below 2 to the
  power 64.\<close>

theorem put_memory_within_limit:
  assumes "dc_accounted dc" "unat (memory_usage dc) + length data < 2 ^ 64"
    and "\<forall>e \<in> set (memory_cache dc). cb_last_access (snd e) < now"
  shows "dash_sum block_size_of (memory_cache (put_memory now k data dc))
     \<le> max (unat (memory_limit dc)) (length data)"
proof -
  let ?dc1 = "evict_loop now (len64 data) dc"
  have acc: "dash_sum block_size_of (memory_cache ?dc1) \<le> unat (memory_usage ?dc1)"
    using evict_loop_accounted [OF assms(1)] by (simp add: dc_accounted_def)
  have sum: "dash_sum block_size_of (memory_cache (put_memory now k data dc))
      \<le> dash_sum block_size_of (memory_cache ?dc1) + length data"
    using dash_sum_insert_le [of block_size_of k "cached_block_new now data" "memory_cache ?dc1"]
    by (simp add: put_memory_def Let_def cached_block_new_def)
  have "unat (memory_usage ?dc1) \<le> unat (memory_usage dc)"
    using evict_loop_usage_le by (simp add: word_le_nat_alt [symmetric])
  then have u: "unat (memory_usage ?dc1 + len64 data) = unat (memory_usage ?dc1) + length data"
    using assms(2) unat_plus_no_wrap [of "memory_usage ?dc1" "len64 data"] by (simp add: unat_len64)
  from evict_loop_room [OF assms(3), of "len64 data"] show ?thesis
    using acc sum u by (auto simp: word_le_nat_alt)
qed

definition two_blocks :: data_cache where
  "two_blocks =
     \<lparr>memory_cache =
        [(\<lparr>bk_inode = 2, bk_offset = 0\<rparr>, cached_block_new 5 [1, 2, 3]),
         (\<lparr>bk_inode = 2, bk_offset = 4\<rparr>, cached_block_new 3 [4, 5])],
      dc_disk_cache = None, dc_block_size = 4, memory_limit = 6, memory_usage = 5\<rparr>"

lemma two_blocks_ok:
  "dc_accounted two_blocks"
  "\<forall>e \<in> set (memory_cache two_blocks). cb_last_access (snd e) < 9"
  by (simp_all add: two_blocks_def dc_accounted_def dash_wf_def cached_block_new_def)

lemma put_memory_within_limit_witness:
  "dash_sum block_size_of (memory_cache (put_memory 9 \<lparr>bk_inode = 2, bk_offset = 8\<rparr> [6, 7] two_blocks)) \<le> 6"
  using put_memory_within_limit [OF two_blocks_ok(1) _ two_blocks_ok(2), of "[6, 7]" "\<lparr>bk_inode = 2, bk_offset = 8\<rparr>"]
  by (simp add: two_blocks_def)

lemma evicts_least_recently_used_witness:
  "\<exists>k b. dash_get (memory_cache two_blocks) k = Some b \<and> cb_last_access b \<le> 3"
proof -
  obtain n dc' where e: "evict_one 9 two_blocks = Some (n, dc')"
    by (simp add: evict_one_def two_blocks_def cached_block_new_def)
  have wf: "dash_wf (memory_cache two_blocks)" using two_blocks_ok(1) by (simp add: dc_accounted_def)
  have g: "dash_get (memory_cache two_blocks) \<lparr>bk_inode = 2, bk_offset = 4\<rparr> = Some (cached_block_new 3 [4, 5])"
    by (simp add: two_blocks_def)
  obtain k b where k: "dash_get (memory_cache two_blocks) k = Some b"
      "\<forall>k' b'. dash_get (memory_cache two_blocks) k' = Some b' \<longrightarrow> cb_last_access b \<le> cb_last_access b'"
    using evicts_least_recently_used [OF e wf] by blast
  then have "cb_last_access b \<le> cb_last_access (cached_block_new 3 [4, 5])" using g by blast
  then show ?thesis using k(1) by (auto simp: cached_block_new_def)
qed

section \<open>Lookup after insertion, and invalidation\<close>

lemma dc_get_after_put:
  assumes "dc_put now i off data dc = Some dc'"
    and "block_key_new i off' (dc_block_size dc) = block_key_new i off (dc_block_size dc)"
  shows "\<exists>st. dc_get now' i off' (dc', mt) = Some (Some data, st) \<and> snd st = inc_read_cache_hit mt"
proof -
  obtain k where k: "block_key_new i off (dc_block_size dc) = Some k" "dc' = put_memory now k data dc"
    using assms(1) by (auto simp: dc_put_def)
  have "dash_get (memory_cache dc') k = Some (cached_block_new now data)" "dc_block_size dc' = dc_block_size dc"
    by (simp_all add: k(2) put_memory_def Let_def)
  then show ?thesis using k(1) assms(2) by (simp add: dc_get_def cached_block_new_def)
qed

text \<open>A block is returned as it was put: after a put, a get at any offset of the same block returns
  exactly the bytes of that put and counts a hit, whatever the offset inside the block was.\<close>

theorem get_returns_last_put:
  assumes "dc_put now i off data dc = Some dc'"
    and "block_key_new i off' (dc_block_size dc) = block_key_new i off (dc_block_size dc)"
  shows "\<exists>st. dc_get now' i off' (dc', mt) = Some (Some data, st) \<and> snd st = inc_read_cache_hit mt"
  by (rule dc_get_after_put [OF assms])

lemma get_returns_last_put_witness:
  "\<exists>dc' st. dc_put 9 2 6 [6, 7] two_blocks = Some dc' \<and> dc_get 10 2 4 (dc', metrics_new) = Some (Some [6, 7], st)"
proof -
  have k: "block_key_new 2 4 (dc_block_size two_blocks) = block_key_new 2 6 (dc_block_size two_blocks)"
    by (simp add: two_blocks_def block_key_new_def)
  obtain dc' where p: "dc_put 9 2 6 [6, 7] two_blocks = Some dc'"
    by (simp add: dc_put_def two_blocks_def block_key_new_def)
  show ?thesis using get_returns_last_put [OF p k] p by blast
qed

lemma sum_filter_split:
  "dash_sum f (filter P m) + dash_sum f (filter (\<lambda>e. \<not> P e) m) = dash_sum f m"
  by (induction m) auto

lemma sum_list_len64:
  "dash_sum block_size_of m < 2 ^ 64 \<Longrightarrow>
     unat (sum_list (map (\<lambda>e. len64 (cb_data (snd e))) m)) = dash_sum block_size_of m"
  by (induction m) (auto simp: unat_len64 unat_plus_no_wrap)

lemma dc_invalidate_accounted:
  assumes "dc_accounted dc" shows "dc_accounted (dc_invalidate i dc)"
proof -
  let ?P = "\<lambda>e. bk_inode (fst e) = i"
  have s: "dash_sum block_size_of (filter ?P (memory_cache dc)) +
      dash_sum block_size_of (filter (\<lambda>e. \<not> ?P e) (memory_cache dc)) = dash_sum block_size_of (memory_cache dc)"
    by (rule sum_filter_split)
  moreover have "dash_sum block_size_of (memory_cache dc) < 2 ^ 64"
    using assms unat_u64_bound [of "memory_usage dc"] by (simp add: dc_accounted_def)
  ultimately have "dash_sum block_size_of (filter ?P (memory_cache dc)) < 2 ^ 64" by linarith
  then show ?thesis
    using assms s
    by (simp add: dc_accounted_def dc_invalidate_def Let_def unat_saturating_sub sum_list_len64) linarith
qed

lemma filtered_inode_gone:
  "dash_get (filter (\<lambda>e. bk_inode (fst e) \<noteq> i) m) \<lparr>bk_inode = i, bk_offset = x\<rparr> = None"
  using dash_get_filter_key [of "\<lambda>k. bk_inode k \<noteq> i" m] by simp

text \<open>C19 (an invalidated inode has no cached data): after the data of an inode is invalidated, no
  get for that inode returns a block, from memory or from disk, and the accounting still covers
  the blocks that stay.\<close>

theorem invalidated_inode_gone:
  assumes "dc_block_size dc \<noteq> 0"
  shows "(\<exists>st. dc_get now i off (dc_invalidate i dc, mt) = Some (None, st)) \<and>
     (dc_accounted dc \<longrightarrow> dc_accounted (dc_invalidate i dc))"
proof -
  have "\<exists>st. dc_get now i off (dc_invalidate i dc, mt) = Some (None, st)"
    using assms
    by (auto simp: filtered_inode_gone dc_get_def dc_invalidate_def dk_invalidate_def dk_get_def block_key_new_def Let_def
        split: option.splits)
  then show ?thesis using dc_invalidate_accounted by blast
qed

lemma invalidated_inode_gone_witness:
  "(\<exists>st. dc_get 9 2 0 (dc_invalidate 2 two_blocks, metrics_new) = Some (None, st)) \<and>
     dc_accounted (dc_invalidate 2 two_blocks)"
  using invalidated_inode_gone [of two_blocks 9 2 0 metrics_new] two_blocks_ok(1) by (simp add: two_blocks_def)

lemma remove_blocks_filter:
  "fst (remove_blocks i bs ns (m, r)) =
     filter (\<lambda>e. fst e \<notin> (\<lambda>n. \<lparr>bk_inode = i, bk_offset = n * bs\<rparr>) ` set ns) m"
proof (induction ns arbitrary: m r)
  case (Cons n ns)
  let ?k = "\<lparr>bk_inode = i, bk_offset = n * bs\<rparr>"
  have "fst (remove_blocks i bs (n # ns) (m, r)) =
      filter (\<lambda>e. fst e \<notin> (\<lambda>n. \<lparr>bk_inode = i, bk_offset = n * bs\<rparr>) ` set ns) (dash_remove ?k m)"
    by (cases "dash_get m ?k") (simp_all add: Cons.IH Let_def dash_remove_absent)
  then show ?case by (simp add: dash_remove_filter conj_commute)
qed simp

lemma range_block_covered:
  fixes offset off' bs :: u64
  assumes "bs \<noteq> 0" "unat offset + len + unat bs \<le> 2 ^ 64" "unat offset \<le> unat off'" "unat off' < unat offset + len"
  shows "off' div bs \<in> set (map of_nat [unat (offset div bs) ..< unat ((offset + of_nat len + bs - 1) div bs)])"
proof -
  have b: "0 < unat bs" using assms(1) by (simp add: unat_gt_0)
  have l: "unat (of_nat len :: u64) = len" using assms(2) b by (simp add: unat_of_nat take_bit_nat_eq_self)
  have "offset + of_nat len + bs - 1 = offset + (of_nat len + (bs - 1))" by (simp only: add.assoc add_diff_eq)
  moreover have m1: "unat (bs - 1) = unat bs - 1" using b by (metis assms(1) unat_minus_one)
  moreover have m2: "unat (of_nat len + (bs - 1)) = len + (unat bs - 1)"
    using assms(2) b l m1 by (subst unat_plus_no_wrap) auto
  ultimately have e: "unat (offset + of_nat len + bs - 1) = unat offset + (len + (unat bs - 1))"
    using assms(2) b m1 m2 by (simp only:) (subst unat_plus_no_wrap; simp)
  have "(unat off' + unat bs) div unat bs \<le> (unat offset + (len + (unat bs - 1))) div unat bs"
    using assms(4) b by (intro div_le_mono) linarith
  moreover have "(unat off' + unat bs) div unat bs = unat off' div unat bs + 1"
    using b by (intro div_add_self2) simp
  ultimately have "unat off' div unat bs < (unat offset + (len + (unat bs - 1))) div unat bs"
    by linarith
  moreover have "unat offset div unat bs \<le> unat off' div unat bs" using assms(3) by (rule div_le_mono)
  ultimately have "unat (off' div bs) \<in> {unat (offset div bs) ..< unat ((offset + of_nat len + bs - 1) div bs)}"
    by (simp add: unat_div e)
  then show ?thesis by (auto intro!: image_eqI [of _ _ "unat (off' div bs)"])
qed

text \<open>Range invalidation, memory and disk: invalidating a byte range removes from memory the block
  of every byte of the range, but never touches the disk cache, so a get inside the range still
  returns the block the disk cache holds for it.\<close>

theorem range_invalidation_keeps_disk:
  assumes "dc_block_size dc \<noteq> 0" "unat offset + len + unat (dc_block_size dc) \<le> 2 ^ 64"
    and "unat offset \<le> unat off'" "unat off' < unat offset + len"
    and "block_key_new i off' (dc_block_size dc) = Some k"
  shows "\<exists>dc'. dc_invalidate_range i offset len dc = Some dc' \<and>
     dash_get (memory_cache dc') k = None \<and> dc_disk_cache dc' = dc_disk_cache dc \<and>
     (\<forall>dk dk' data. dc_disk_cache dc = Some dk \<and> dk_get now k dk = (Some data, dk') \<longrightarrow>
        (\<exists>st. dc_get now i off' (dc', mt) = Some (Some data, st)))"
proof -
  let ?bs = "dc_block_size dc"
  let ?ns = "map of_nat [unat (offset div ?bs) ..< unat ((offset + of_nat len + ?bs - 1) div ?bs)]"
  obtain m r where m: "remove_blocks i ?bs ?ns (memory_cache dc, 0) = (m, r)" by fastforce
  define dc' where "dc' = dc\<lparr>memory_cache := m, memory_usage := saturating_sub (memory_usage dc) r\<rparr>"
  have inv: "dc_invalidate_range i offset len dc = Some dc'"
    using assms(1) m by (simp add: dc_invalidate_range_def dc'_def Let_def)
  have k: "k = \<lparr>bk_inode = i, bk_offset = off' div ?bs * ?bs\<rparr>"
    using assms(1,5) by (simp add: block_key_new_def)
  have "k \<in> (\<lambda>n. \<lparr>bk_inode = i, bk_offset = n * ?bs\<rparr>) ` set ?ns"
    unfolding k by (intro imageI range_block_covered assms(1-4))
  then have g: "dash_get m k = None"
    using remove_blocks_filter [of i ?bs ?ns "memory_cache dc" 0] m
      dash_get_filter_key [of "\<lambda>k. k \<notin> (\<lambda>n. \<lparr>bk_inode = i, bk_offset = n * ?bs\<rparr>) ` set ?ns" "memory_cache dc" k]
    by simp
  have "dc_get now i off' (dc', mt) =
      Some (Some data, (put_memory now k data (dc'\<lparr>dc_disk_cache := Some dk'\<rparr>), inc_read_cache_hit mt))"
    if "dc_disk_cache dc = Some dk" "dk_get now k dk = (Some data, dk')" for dk dk' data
    using assms(5) g that by (simp add: dc_get_def dc'_def)
  then show ?thesis using inv g by (auto simp: dc'_def)
qed

definition stale_disk :: data_cache where
  "stale_disk =
     (two_blocks\<lparr>memory_cache := [], memory_usage := 0\<rparr>)
     \<lparr>dc_disk_cache := Some
       \<lparr>dk_dir = ''d'', dk_size_limit = 100,
        dk_entries = [(\<lparr>bk_inode = 2, bk_offset = 0\<rparr>, \<lparr>de_path = ''d/2_0'', de_size = 4, de_last_access = 1\<rparr>)],
        dk_current_size = 4,
        dk_disk = \<lparr>d_files = [(''d/2_0'', [1, 2, 3, 4])], d_read_fails = (\<lambda>p. False), d_write_fault = (\<lambda>p. NoFault)\<rparr>\<rparr>\<rparr>"

lemma range_invalidation_keeps_disk_witness:
  "\<exists>dc' st. dc_invalidate_range 2 0 3 stale_disk = Some dc' \<and>
     dc_get 9 2 1 (dc', metrics_new) = Some (Some [1, 2, 3, 4], st)"
proof -
  have bs: "dc_block_size stale_disk = 4" by (simp add: stale_disk_def two_blocks_def)
  have k: "block_key_new 2 1 (dc_block_size stale_disk) = Some \<lparr>bk_inode = 2, bk_offset = 0\<rparr>"
    by (simp add: bs block_key_new_def)
  have g: "\<exists>dk dk'. dc_disk_cache stale_disk = Some dk \<and>
      dk_get 9 \<lparr>bk_inode = 2, bk_offset = 0\<rparr> dk = (Some [1, 2, 3, 4], dk')"
    by (simp add: stale_disk_def dk_get_def fs_read_def)
  show ?thesis
    using range_invalidation_keeps_disk [OF _ _ _ _ k, where offset = 0 and len = 3 and now = 9 and mt = metrics_new] g
    by (fastforce simp: bs)
qed

section \<open>The disk limit\<close>

abbreviation entry_bytes :: "disk_cache_entry \<Rightarrow> nat" where
  "entry_bytes e \<equiv> unat (de_size e)"

definition dk_ok :: "disk_cache \<Rightarrow> bool" where
  "dk_ok dk \<longleftrightarrow> dash_wf (dk_entries dk) \<and>
     dash_sum entry_bytes (dk_entries dk) \<le> unat (dk_current_size dk) \<and>
     dk_current_size dk \<le> dk_size_limit dk"

lemma calculate_size_unat:
  "dash_sum entry_bytes (dk_entries dk) < 2 ^ 64 \<Longrightarrow>
     unat (dk_calculate_size dk) = dash_sum entry_bytes (dk_entries dk)"
proof -
  have "dash_sum entry_bytes es < 2 ^ 64 \<Longrightarrow>
      unat (sum_list (map (\<lambda>e. de_size (snd e)) es)) = dash_sum entry_bytes es" for es :: "(block_key \<times> disk_cache_entry) list"
    by (induction es) (auto simp: unat_plus_no_wrap)
  then show "dash_sum entry_bytes (dk_entries dk) < 2 ^ 64 \<Longrightarrow> ?thesis"
    by (simp add: dk_calculate_size_def)
qed

lemma dk_evict_one_effect:
  assumes "dk_evict_one dk = Some dk'"
  shows "\<exists>k. dk_entries dk' = dash_remove k (dk_entries dk) \<and> dk_size_limit dk' = dk_size_limit dk \<and>
    dk_current_size dk' = dk_current_size dk \<and> dk_dir dk' = dk_dir dk"
  using assms by (auto simp: dk_evict_one_def split: option.splits)

lemma dk_evict_ok:
  assumes "dk_ok dk" "dk_evict_one dk = Some dk'"
  shows "dk_ok (dk'\<lparr>dk_current_size := dk_calculate_size dk'\<rparr>)" (is "dk_ok ?dk")
proof -
  obtain k where k: "dk_entries dk' = dash_remove k (dk_entries dk)" "dk_size_limit dk' = dk_size_limit dk"
    using dk_evict_one_effect [OF assms(2)] by blast
  have le: "dash_sum entry_bytes (dk_entries dk') \<le> unat (dk_current_size dk)"
    using assms(1) dash_sum_remove_le [of entry_bytes k "dk_entries dk"] k by (simp add: dk_ok_def)
  then have "unat (dk_calculate_size dk') = dash_sum entry_bytes (dk_entries dk')"
    using unat_u64_bound [of "dk_current_size dk"] by (intro calculate_size_unat) simp
  with le show ?thesis
    using assms(1) by (simp add: dk_ok_def k word_le_nat_alt)
qed

lemma dk_make_room_ok:
  "dk_ok dk \<Longrightarrow> dk_make_room sz dk = (r, dk') \<Longrightarrow>
     dk_ok dk' \<and> dk_size_limit dk' = dk_size_limit dk \<and> (r \<longrightarrow> dk_current_size dk' + sz \<le> dk_size_limit dk')"
proof (induction sz dk arbitrary: r dk' rule: dk_make_room.induct)
  case (1 sz dk)
  show ?case
  proof (cases "dk_current_size dk + sz > dk_size_limit dk")
    case True
    show ?thesis
    proof (cases "dk_evict_one dk")
      case None
      with True 1 show ?thesis by (simp add: dk_make_room.simps [of sz dk])
    next
      case (Some dk1)
      have "dk_make_room sz (dk1\<lparr>dk_current_size := dk_calculate_size dk1\<rparr>) = (r, dk')"
        using "1.prems"(2) True Some by (simp add: dk_make_room.simps [of sz dk])
      from "1.IH" [OF True Some dk_evict_ok [OF "1.prems"(1) Some] this]
      show ?thesis using dk_evict_one_effect [OF Some] by auto
    qed
  next
    case False
    with 1 show ?thesis by (auto simp: dk_make_room.simps [of sz dk] not_less)
  qed
qed

lemma dk_put_ok:
  assumes "dk_ok dk" "unat (dk_size_limit dk) + length data < 2 ^ 64"
  shows "dk_ok (dk_put now k data dk) \<and> dk_size_limit (dk_put now k data dk) = dk_size_limit dk"
proof -
  obtain r dk1 where mr: "dk_make_room (len64 data) dk = (r, dk1)" by fastforce
  note ok1 = dk_make_room_ok [OF assms(1) mr]
  have cur: "unat (dk_current_size dk1) \<le> unat (dk_size_limit dk)"
    using ok1 unfolding dk_ok_def by (metis word_le_nat_alt)
  then have u: "unat (dk_current_size dk1 + len64 data) = unat (dk_current_size dk1) + unat (len64 data)"
    using assms(2) by (intro unat_plus_no_wrap) (simp add: unat_len64)
  show ?thesis
  proof (cases r)
    case False
    with mr ok1 show ?thesis by (simp add: dk_put_def)
  next
    case True
    let ?e = "\<lparr>de_path = path_join (dk_dir dk) (block_file_name k), de_size = len64 data, de_last_access = now\<rparr>"
    have "dash_sum entry_bytes (dash_insert k ?e (dk_entries dk1))
        \<le> unat (dk_current_size dk1 + len64 data)"
      using ok1 u dash_sum_insert_le [of entry_bytes k ?e "dk_entries dk1"] by (simp add: dk_ok_def)
    then show ?thesis
      using True mr ok1 by (auto simp: dk_put_def dk_ok_def Let_def split: prod.splits)
  qed
qed

text \<open>The states a disk cache passes through, with blocks that cannot overflow the size arithmetic.\<close>

inductive dk_reachable :: "disk \<Rightarrow> string \<Rightarrow> u64 \<Rightarrow> disk_cache \<Rightarrow> bool" for d dir limit where
  dk_reach_new: "dk_reachable d dir limit (dk_new d dir limit)"
| dk_reach_put: "dk_reachable d dir limit dk \<Longrightarrow> unat limit + length data < 2 ^ 64 \<Longrightarrow>
    dk_reachable d dir limit (dk_put now k data dk)"
| dk_reach_get: "dk_reachable d dir limit dk \<Longrightarrow> dk_reachable d dir limit (snd (dk_get now k dk))"
| dk_reach_invalidate: "dk_reachable d dir limit dk \<Longrightarrow> dk_reachable d dir limit (dk_invalidate i dk)"
| dk_reach_clear: "dk_reachable d dir limit dk \<Longrightarrow> dk_reachable d dir limit (dk_clear dk)"

lemma dk_reachable_ok: "dk_reachable d dir limit dk \<Longrightarrow> dk_ok dk \<and> dk_size_limit dk = limit"
proof (induction rule: dk_reachable.induct)
  case dk_reach_new
  then show ?case by (simp add: dk_new_def dk_ok_def)
next
  case (dk_reach_put dk data now k)
  then show ?case using dk_put_ok by simp
next
  case (dk_reach_get dk now k)
  show ?case
  proof (cases "dash_get (dk_entries dk) k")
    case (Some e)
    then show ?thesis
      using dk_reach_get.IH dash_sum_insert_present [OF Some, of entry_bytes "e\<lparr>de_last_access := now\<rparr>"]
      by (auto simp: dk_get_def dk_ok_def)
  qed (use dk_reach_get.IH in \<open>simp add: dk_get_def\<close>)
next
  case (dk_reach_invalidate dk i)
  then show ?case
    using sum_filter_split [of entry_bytes "\<lambda>e. bk_inode (fst e) = i" "dk_entries dk"]
    by (auto simp: dk_invalidate_def dk_ok_def)
next
  case (dk_reach_clear dk)
  then show ?case by (simp add: dk_clear_def dk_ok_def)
qed

text \<open>C21 (the disk limit): in every state a disk cache reaches by puts of data whose size and the limit
  together stay below 2 to the power 64, gets, invalidations and clearings, over files that may fail, the sizes of its entries add up to at
  most the accounted size, which is at most the configured limit.\<close>

theorem disk_cache_bounded:
  assumes "dk_reachable d dir limit dk"
  shows "dash_sum entry_bytes (dk_entries dk) \<le> unat (dk_current_size dk) \<and>
     unat (dk_current_size dk) \<le> unat limit"
  using dk_reachable_ok [OF assms] unfolding dk_ok_def by (metis word_le_nat_alt)

lemma disk_cache_bounded_witness:
  "dash_sum entry_bytes (dk_entries (dk_put 2 \<lparr>bk_inode = 1, bk_offset = 0\<rparr> [1, 2]
     (dk_new \<lparr>d_files = [], d_read_fails = (\<lambda>p. False), d_write_fault = (\<lambda>p. NoFault)\<rparr> ''d'' 3))) \<le> 3"
proof -
  let ?d = "\<lparr>d_files = [], d_read_fails = (\<lambda>p. False), d_write_fault = (\<lambda>p. NoFault)\<rparr>"
  have "dk_reachable ?d ''d'' 3 (dk_put 2 \<lparr>bk_inode = 1, bk_offset = 0\<rparr> [1, 2] (dk_new ?d ''d'' 3))"
    by (intro dk_reach_put dk_reach_new) simp
  from disk_cache_bounded [OF this] show ?thesis by simp
qed

text \<open>Two blocks never share a file.\<close>

lemma block_file_name_inj: "block_file_name k1 = block_file_name k2 \<Longrightarrow> k1 = (k2 :: block_key)"
proof -
  assume "block_file_name k1 = block_file_name k2"
  then have "split_on CHR ''_'' (block_file_name k1) = split_on CHR ''_'' (block_file_name k2)" by simp
  then have "decimal (unat (bk_inode k1)) = decimal (unat (bk_inode k2)) \<and>
      decimal (unat (bk_offset k1)) = decimal (unat (bk_offset k2))"
    by (simp add: block_file_name_def split_on_append split_on_no_sep decimal_no_char)
  then show "k1 = k2" by (auto dest!: decimal_inj simp: word_unat_eq_iff intro: block_key.equality)
qed

end
