(* ===== verification/ObsClient.thy ===== *)
theory ObsClient
  imports Attr Metrics
begin

text \<open>
  The client of the object store (src/src/storage/obs.rs).

  The store itself and the OpenDAL operator that talks to it are not code of the repository:
  they are the parameter \<open>'s operator\<close>, one function per operator call the code makes, each from a
  store state to an outcome and the next store state. Every operation of the client takes the
  operator and threads the counters and the store state, the pair \<open>'s net\<close>. What the properties
  need to know of the store is the hypothesis \<open>faithful_store\<close>. Building the operator from the
  configuration (endpoint, credentials, retry layer) is a call into OpenDAL and not modelled.
\<close>

section \<open>The operator\<close>

record od_metadata =
  content_length :: u64
  last_modified :: "system_time option"
  od_is_dir :: bool
  content_type :: "string option"
  etag :: "string option"

record 's operator =
  op_exists :: "string \<Rightarrow> 's \<Rightarrow> (od_kind + bool) \<times> 's"
  op_stat :: "string \<Rightarrow> 's \<Rightarrow> (od_kind + od_metadata) \<times> 's"
  op_read :: "string \<Rightarrow> 's \<Rightarrow> (od_kind + bytes) \<times> 's"
  op_read_range :: "string \<Rightarrow> u64 \<Rightarrow> u64 \<Rightarrow> 's \<Rightarrow> (od_kind + bytes) \<times> 's"
  op_write :: "string \<Rightarrow> bytes \<Rightarrow> string option \<Rightarrow> 's \<Rightarrow> (od_kind + unit) \<times> 's"
  op_delete :: "string \<Rightarrow> 's \<Rightarrow> (od_kind + unit) \<times> 's"
  op_list :: "string \<Rightarrow> 's \<Rightarrow> (od_kind + string list) \<times> 's"
  op_create_dir :: "string \<Rightarrow> 's \<Rightarrow> (od_kind + unit) \<times> 's"
  op_copy :: "string \<Rightarrow> string \<Rightarrow> 's \<Rightarrow> (od_kind + unit) \<times> 's"
  op_rename :: "string \<Rightarrow> string \<Rightarrow> 's \<Rightarrow> (od_kind + unit) \<times> 's"

type_synonym 's net = "metrics \<times> 's"

text \<open>The documented behaviour of an object store, seen through the objects it holds: a write that
  succeeds replaces the object, a read returns it, a range read returns a part of it, a delete
  removes it, and none of them changes another object.\<close>

definition faithful_store :: "'s operator \<Rightarrow> ('s \<Rightarrow> string \<Rightarrow> bytes option) \<Rightarrow> bool" where
  "faithful_store op obj \<longleftrightarrow>
     (\<forall>p d ct s s'. op_write op p d ct s = (Inr (), s') \<longrightarrow> obj s' = (obj s)(p \<mapsto> d)) \<and>
     (\<forall>p s s'. op_delete op p s = (Inr (), s') \<longrightarrow> obj s' = (obj s)(p := None)) \<and>
     (\<forall>p s d s'. op_read op p s = (Inr d, s') \<longrightarrow> obj s p = Some d \<and> obj s' = obj s) \<and>
     (\<forall>p a b s d s'. op_read_range op p a b s = (Inr d, s') \<longrightarrow>
        (\<exists>x. obj s p = Some x \<and> d = take (unat b - unat a) (drop (unat a) x)) \<and> obj s' = obj s)"

section \<open>Object metadata\<close>

definition from_opendal :: "string \<Rightarrow> od_metadata \<Rightarrow> object_meta" where
  "from_opendal path meta =
     \<lparr>om_path = path, om_size = content_length meta, om_last_modified = last_modified meta,
      om_is_dir = od_is_dir meta, om_content_type = content_type meta, om_etag = etag meta\<rparr>"

record object_write_meta =
  ow_content_type :: "string option"
  ow_custom_meta :: "(string, string) dash"

section \<open>Building the operator\<close>

text \<open>The settings that the OBS service of the opendal crate is built with; the builder itself, with the
  retry layer of that crate, is a parameter.\<close>

record obs_builder =
  ob_endpoint :: string
  ob_bucket :: string
  ob_access_key_id :: "string option"
  ob_secret_access_key :: "string option"

definition builder_of :: "obs_config \<Rightarrow> obs_builder" where
  "builder_of cfg =
     \<lparr>ob_endpoint = ''https://'' @ endpoint cfg, ob_bucket = bucket cfg,
      ob_access_key_id = access_key cfg, ob_secret_access_key = secret_key cfg\<rparr>"

definition build_operator ::
  "(obs_builder \<Rightarrow> od_kind + 'b) \<Rightarrow> (u32 \<Rightarrow> 'b \<Rightarrow> 's operator) \<Rightarrow> obs_config \<Rightarrow> obs_fuse_error + 's operator" where
  "build_operator operator_new retry_layer cfg =
     (case operator_new (builder_of cfg) of
        Inl e \<Rightarrow> Inl (Storage e)
      | Inr b \<Rightarrow> Inr (retry_layer (obs_max_retries cfg) b))"

section \<open>Operations\<close>

text \<open>The \<open>map_err\<close> of every operation: count the error and wrap it.\<close>

definition obs_call :: "(od_kind + 'a) \<times> 's \<Rightarrow> metrics \<Rightarrow> 'a result \<times> 's net" where
  "obs_call r mt =
     (case r of
        (Inr x, s) \<Rightarrow> (Inr x, (mt, s))
      | (Inl e, s) \<Rightarrow> (Inl (Err (Storage e)), (inc_obs_error mt, s)))"

text \<open>\<open>exists\<close> converts its error with \<open>?\<close> and counts nothing.\<close>

definition oc_exists :: "'s operator \<Rightarrow> string \<Rightarrow> 's net \<Rightarrow> bool result \<times> 's net" where
  "oc_exists op path = (\<lambda>(mt, s).
     (case op_exists op path s of
        (Inr b, s') \<Rightarrow> (Inr b, (mt, s'))
      | (Inl e, s') \<Rightarrow> (Inl (Err (Storage e)), (mt, s'))))"

definition oc_stat :: "'s operator \<Rightarrow> string \<Rightarrow> 's net \<Rightarrow> object_meta result \<times> 's net" where
  "oc_stat op path = (\<lambda>(mt, s).
     (case obs_call (op_stat op path s) (inc_obs_get mt) of
        (Inr meta, net) \<Rightarrow> (Inr (from_opendal path meta), net)
      | (Inl e, net) \<Rightarrow> (Inl e, net)))"

definition oc_read :: "'s operator \<Rightarrow> string \<Rightarrow> 's net \<Rightarrow> bytes result \<times> 's net" where
  "oc_read op path = (\<lambda>(mt, s).
     (case obs_call (op_read op path s) (inc_obs_get mt) of
        (Inr data, (mt', s')) \<Rightarrow> (Inr data, (add_read_bytes (len64 data) mt', s'))
      | (Inl e, net) \<Rightarrow> (Inl e, net)))"

definition oc_read_range ::
  "'s operator \<Rightarrow> string \<Rightarrow> u64 \<Rightarrow> u64 \<Rightarrow> 's net \<Rightarrow> bytes result \<times> 's net" where
  "oc_read_range op path offset sz = (\<lambda>(mt, s).
     (case obs_call (op_read_range op path offset (offset + sz) s) (inc_obs_get mt) of
        (Inr data, (mt', s')) \<Rightarrow> (Inr data, (add_read_bytes (len64 data) mt', s'))
      | (Inl e, net) \<Rightarrow> (Inl e, net)))"

definition oc_write :: "'s operator \<Rightarrow> string \<Rightarrow> bytes \<Rightarrow> 's net \<Rightarrow> unit result \<times> 's net" where
  "oc_write op path data = (\<lambda>(mt, s).
     (case obs_call (op_write op path data None s) (inc_obs_put mt) of
        (Inr _, (mt', s')) \<Rightarrow> (Inr (), (add_write_bytes (len64 data) mt', s'))
      | (Inl e, net) \<Rightarrow> (Inl e, net)))"

text \<open>The custom metadata of a write is not sent.\<close>

definition oc_write_with_meta ::
  "'s operator \<Rightarrow> string \<Rightarrow> bytes \<Rightarrow> object_write_meta \<Rightarrow> 's net \<Rightarrow> unit result \<times> 's net" where
  "oc_write_with_meta op path data meta = (\<lambda>(mt, s).
     (case obs_call (op_write op path data (ow_content_type meta) s) (inc_obs_put mt) of
        (Inr _, (mt', s')) \<Rightarrow> (Inr (), (add_write_bytes (len64 data) mt', s'))
      | (Inl e, net) \<Rightarrow> (Inl e, net)))"

definition oc_delete :: "'s operator \<Rightarrow> string \<Rightarrow> 's net \<Rightarrow> unit result \<times> 's net" where
  "oc_delete op path = (\<lambda>(mt, s). obs_call (op_delete op path s) (inc_obs_delete mt))"

text \<open>The loop of both list operations: one stat for each entry, up to the first error.\<close>

fun stat_entries ::
  "'s operator \<Rightarrow> string list \<Rightarrow> object_meta list \<Rightarrow> 's net \<Rightarrow> object_meta list result \<times> 's net" where
  "stat_entries op [] results net = (Inr results, net)"
| "stat_entries op (path # paths) results (mt, s) =
     (case obs_call (op_stat op path s) mt of
        (Inr meta, net) \<Rightarrow> stat_entries op paths (results @ [from_opendal path meta]) net
      | (Inl e, net) \<Rightarrow> (Inl e, net))"

definition oc_list :: "'s operator \<Rightarrow> string \<Rightarrow> 's net \<Rightarrow> object_meta list result \<times> 's net" where
  "oc_list op prefix = (\<lambda>(mt, s).
     (case obs_call (op_list op prefix s) (inc_obs_list mt) of
        (Inr entries, net) \<Rightarrow> stat_entries op entries [] net
      | (Inl e, net) \<Rightarrow> (Inl e, net)))"

definition dir_prefix :: "string \<Rightarrow> string" where
  "dir_prefix prefix = (if prefix = [] \<or> ends_with slash prefix then prefix else prefix @ ''/'')"

definition oc_list_dir :: "'s operator \<Rightarrow> string \<Rightarrow> 's net \<Rightarrow> object_meta list result \<times> 's net" where
  "oc_list_dir op prefix = (\<lambda>(mt, s).
     (case obs_call (op_list op (dir_prefix prefix) s) (inc_obs_list mt) of
        (Inr entries, net) \<Rightarrow> stat_entries op entries [] net
      | (Inl e, net) \<Rightarrow> (Inl e, net)))"

definition oc_create_dir :: "'s operator \<Rightarrow> string \<Rightarrow> 's net \<Rightarrow> unit result \<times> 's net" where
  "oc_create_dir op path = (\<lambda>(mt, s).
     obs_call (op_create_dir op (if ends_with slash path then path else path @ ''/'') s) (inc_obs_put mt))"

definition oc_copy :: "'s operator \<Rightarrow> string \<Rightarrow> string \<Rightarrow> 's net \<Rightarrow> unit result \<times> 's net" where
  "oc_copy op from to = (\<lambda>(mt, s). obs_call (op_copy op from to s) (inc_obs_put (inc_obs_get mt)))"

definition oc_rename :: "'s operator \<Rightarrow> string \<Rightarrow> string \<Rightarrow> 's net \<Rightarrow> unit result \<times> 's net" where
  "oc_rename op from to = (\<lambda>(mt, s).
     obs_call (op_rename op from to s) (inc_obs_delete (inc_obs_put (inc_obs_get mt))))"

section \<open>What the operations guarantee\<close>

lemma obs_call_simps [simp]:
  "obs_call (Inr x, s) mt = (Inr x, (mt, s))"
  "obs_call (Inl e, s) mt = (Inl (Err (Storage e)), (inc_obs_error mt, s))"
  by (simp_all add: obs_call_def)

lemma obs_call_store [simp]: "snd (snd (obs_call r mt)) = snd r"
  by (simp add: obs_call_def split: prod.splits sum.splits)

lemma obs_call_cases:
  obtains x s where "r = (Inr x, s)" "obs_call r mt = (Inr x, (mt, s))"
  | e s where "r = (Inl e, s)" "obs_call r mt = (Inl (Err (Storage e)), (inc_obs_error mt, s))"
  by (cases r; cases "fst r") auto

lemma oc_write_ok:
  assumes "faithful_store op obj" "oc_write op path data (mt, s) = (Inr u, (mt', s'))"
  shows "obj s' = (obj s)(path \<mapsto> data)"
proof -
  obtain r s1 where w: "op_write op path data None s = (r, s1)" by fastforce
  then show ?thesis
    using assms by (cases r) (auto simp: oc_write_def faithful_store_def)
qed

lemma oc_write_fails:
  "oc_write op path data (mt, s) = (Inl e, net') \<Longrightarrow>
     \<exists>k s'. op_write op path data None s = (Inl k, s') \<and> e = Err (Storage k) \<and> snd net' = s'"
  by (rule obs_call_cases [of "op_write op path data None s" "inc_obs_put mt"])
    (auto simp: oc_write_def)

lemma oc_read_ok:
  assumes "faithful_store op obj" "oc_read op path (mt, s) = (Inr data, (mt', s'))"
  shows "obj s path = Some data \<and> obj s' = obj s"
proof -
  obtain r s1 where w: "op_read op path s = (r, s1)" by fastforce
  then show ?thesis
    using assms by (cases r) (auto simp: oc_read_def faithful_store_def)
qed

text \<open>A write is read back: with a store that behaves as documented, an object written through
  the client and then read through it is the bytes written, every other object is unchanged, and
  the counters have advanced by one put, one get and the bytes in each direction.\<close>

theorem write_then_read:
  assumes "faithful_store op obj"
    and "oc_write op path data (mt, s) = (Inr u, (mt1, s1))"
    and "oc_read op path (mt1, s1) = (Inr data', (mt2, s2))"
  shows "data' = data \<and> obj s2 = (obj s)(path \<mapsto> data) \<and>
     mt2 = add_read_bytes (len64 data) (inc_obs_get (add_write_bytes (len64 data) (inc_obs_put mt)))"
proof -
  have w: "obj s1 = (obj s)(path \<mapsto> data)" using oc_write_ok [OF assms(1,2)] .
  have r: "obj s1 path = Some data'" "obj s2 = obj s1" using oc_read_ok [OF assms(1,3)] by auto
  have m1: "mt1 = add_write_bytes (len64 data) (inc_obs_put mt)"
    using assms(2) by (cases rule: obs_call_cases [of "op_write op path data None s" "inc_obs_put mt"])
      (auto simp: oc_write_def)
  have "mt2 = add_read_bytes (len64 data') (inc_obs_get mt1)"
    using assms(3) by (cases rule: obs_call_cases [of "op_read op path s1" "inc_obs_get mt1"])
      (auto simp: oc_read_def)
  with w r m1 show ?thesis by simp
qed

text \<open>A store for the concrete runs: objects in a map; a read of a missing object is \<open>NotFound\<close>,
  the paths in \<open>ms_broken\<close> cannot be written.\<close>

record map_store =
  ms_objects :: "(string, bytes) dash"
  ms_broken :: "string list"

definition map_operator :: "map_store operator" where
  "map_operator =
     \<lparr>op_exists = (\<lambda>p s. (Inr (dash_get (ms_objects s) p \<noteq> None), s)),
      op_stat = (\<lambda>p s. (case dash_get (ms_objects s) p of
          None \<Rightarrow> Inl OdNotFound
        | Some d \<Rightarrow> Inr \<lparr>content_length = len64 d, last_modified = None, od_is_dir = ends_with slash p,
                      content_type = None, etag = None\<rparr>, s)),
      op_read = (\<lambda>p s. (case dash_get (ms_objects s) p of None \<Rightarrow> Inl OdNotFound | Some d \<Rightarrow> Inr d, s)),
      op_read_range = (\<lambda>p a b s. (case dash_get (ms_objects s) p of
          None \<Rightarrow> Inl OdNotFound | Some d \<Rightarrow> Inr (take (unat b - unat a) (drop (unat a) d)), s)),
      op_write = (\<lambda>p d ct s. if p \<in> set (ms_broken s) then (Inl OdUnexpected, s)
                            else (Inr (), s\<lparr>ms_objects := dash_insert p d (ms_objects s)\<rparr>)),
      op_delete = (\<lambda>p s. (Inr (), s\<lparr>ms_objects := dash_remove p (ms_objects s)\<rparr>)),
      op_list = (\<lambda>p s. (Inr (filter (\<lambda>q. strip_prefix q p \<noteq> None) (map fst (ms_objects s))), s)),
      op_create_dir = (\<lambda>p s. (Inr (), s\<lparr>ms_objects := dash_insert p [] (ms_objects s)\<rparr>)),
      op_copy = (\<lambda>p q s. (case dash_get (ms_objects s) p of
          None \<Rightarrow> (Inl OdNotFound, s) | Some d \<Rightarrow> (Inr (), s\<lparr>ms_objects := dash_insert q d (ms_objects s)\<rparr>))),
      op_rename = (\<lambda>p q s. (case dash_get (ms_objects s) p of
          None \<Rightarrow> (Inl OdNotFound, s)
        | Some d \<Rightarrow> (Inr (), s\<lparr>ms_objects := dash_insert q d (dash_remove p (ms_objects s))\<rparr>)))\<rparr>"

abbreviation ms_obj :: "map_store \<Rightarrow> string \<Rightarrow> bytes option" where
  "ms_obj s \<equiv> dash_get (ms_objects s)"

lemma map_operator_faithful: "faithful_store map_operator ms_obj"
  by (auto simp: faithful_store_def map_operator_def fun_eq_iff split: if_splits option.splits)

lemma write_then_read_witness:
  "\<exists>net1 net2. oc_write map_operator ''a'' [1, 2] (metrics_new, \<lparr>ms_objects = [], ms_broken = []\<rparr>) = (Inr (), net1) \<and>
     oc_read map_operator ''a'' net1 = (Inr [1, 2], net2)"
proof -
  let ?s = "\<lparr>ms_objects = [], ms_broken = []\<rparr>"
  obtain mt1 s1 where w: "oc_write map_operator ''a'' [1, 2] (metrics_new, ?s) = (Inr (), (mt1, s1))"
    by (simp add: oc_write_def map_operator_def)
  have "s1 = \<lparr>ms_objects = [(''a'', [1, 2])], ms_broken = []\<rparr>"
    using w by (simp add: oc_write_def map_operator_def)
  then obtain d mt2 s2 where r: "oc_read map_operator ''a'' (mt1, s1) = (Inr d, (mt2, s2))"
    by (simp add: oc_read_def map_operator_def)
  have "d = [1, 2]" using write_then_read [OF map_operator_faithful w r] by simp
  with w r show ?thesis by blast
qed

end
