(* ===== verification/Readahead.thy ===== *)
theory Readahead
  imports Config ObsClient TtlCache
begin

text \<open>
  Read-ahead (src/src/cache/readahead.rs): per inode the last read and the length of the current
  sequential run, and a buffer of prefetched ranges that expire. \<open>seq_count\<close> and the threshold are
  \<open>usize\<close> counters that stay far below their width. The concurrency limiter is the number of free
  permits; a prefetch holds its permit while it runs, so a task that runs alone gives it back.
\<close>

section \<open>State and operations\<close>

record readahead_config =
  ra_enable :: bool
  ra_window_size :: u64
  ra_concurrency :: nat
  ra_seq_threshold :: nat
  prefetch_ttl :: duration

definition readahead_config_default :: readahead_config where
  "readahead_config_default =
     \<lparr>ra_enable = True, ra_window_size = 16 * 1024 * 1024, ra_concurrency = 4, ra_seq_threshold = 3,
      prefetch_ttl = secs 30\<rparr>"

definition readahead_config_from :: "performance_config \<Rightarrow> readahead_config" where
  "readahead_config_from cfg =
     \<lparr>ra_enable = read_ahead cfg, ra_window_size = read_ahead_window cfg,
      ra_concurrency = read_concurrency cfg, ra_seq_threshold = 3, prefetch_ttl = secs 30\<rparr>"

record read_state =
  last_offset :: u64
  last_size :: u64
  seq_count :: nat
  last_read :: instant
  prefetch_offset :: u64

definition read_state_new :: "instant \<Rightarrow> read_state" where
  "read_state_new now =
     \<lparr>last_offset = 0, last_size = 0, seq_count = 0, last_read = now, prefetch_offset = 0\<rparr>"

definition rs_update :: "instant \<Rightarrow> u64 \<Rightarrow> u64 \<Rightarrow> read_state \<Rightarrow> bool \<times> read_state" where
  "rs_update now offset sz st =
     (let is_sequential = (offset = last_offset st + last_size st)
      in (is_sequential,
          st\<lparr>seq_count := (if is_sequential then seq_count st + 1 else 1),
             last_offset := offset, last_size := sz, last_read := now\<rparr>))"

definition rs_is_sequential :: "nat \<Rightarrow> read_state \<Rightarrow> bool" where
  "rs_is_sequential threshold st \<longleftrightarrow> threshold \<le> seq_count st"

record prefetch_key =
  pk_inode :: u64
  pk_offset :: u64

record prefetched_data =
  pd_data :: bytes
  pd_fetched_at :: instant

definition pd_is_expired :: "instant \<Rightarrow> prefetched_data \<Rightarrow> duration \<Rightarrow> bool" where
  "pd_is_expired now d ttl \<longleftrightarrow> elapsed now (pd_fetched_at d) > ttl"

record prefetch_request =
  pr_inode :: u64
  pr_offset :: u64
  pr_size :: u64

record readahead =
  file_states :: "(u64, read_state) dash"
  prefetch_buffer :: "(prefetch_key, prefetched_data) dash"
  ra_config :: readahead_config
  ra_permits :: nat

definition ra_new :: "readahead_config \<Rightarrow> readahead" where
  "ra_new cfg =
     \<lparr>file_states = [], prefetch_buffer = [], ra_config = cfg, ra_permits = ra_concurrency cfg\<rparr>"

definition ra_is_enabled :: "readahead \<Rightarrow> bool" where
  "ra_is_enabled ra \<longleftrightarrow> ra_enable (ra_config ra)"

definition record_read ::
  "instant \<Rightarrow> u64 \<Rightarrow> u64 \<Rightarrow> u64 \<Rightarrow> readahead \<Rightarrow> prefetch_request option \<times> readahead" where
  "record_read now inode offset sz ra =
     (if \<not> ra_enable (ra_config ra) then (None, ra)
      else let st0 = (case dash_get (file_states ra) inode of Some st \<Rightarrow> st | None \<Rightarrow> read_state_new now);
               (is_sequential, st) = rs_update now offset sz st0
           in if is_sequential \<and> rs_is_sequential (ra_seq_threshold (ra_config ra)) st
              then let prefetch_start = offset + sz;
                       prefetch_end = prefetch_start + ra_window_size (ra_config ra)
                   in if prefetch_start > prefetch_offset st
                      then (Some \<lparr>pr_inode = inode, pr_offset = prefetch_start,
                                  pr_size = ra_window_size (ra_config ra)\<rparr>,
                            ra\<lparr>file_states := dash_insert inode (st\<lparr>prefetch_offset := prefetch_end\<rparr>)
                                 (file_states ra)\<rparr>)
                      else (None, ra\<lparr>file_states := dash_insert inode st (file_states ra)\<rparr>)
              else (None, ra\<lparr>file_states := dash_insert inode st (file_states ra)\<rparr>))"

definition get_prefetched :: "instant \<Rightarrow> prefetch_key \<Rightarrow> readahead \<Rightarrow> bytes option \<times> readahead" where
  "get_prefetched now key ra =
     (case dash_get (prefetch_buffer ra) key of
        Some entry \<Rightarrow>
          if \<not> pd_is_expired now entry (prefetch_ttl (ra_config ra)) then (Some (pd_data entry), ra)
          else (None, ra\<lparr>prefetch_buffer := dash_remove key (prefetch_buffer ra)\<rparr>)
      | None \<Rightarrow> (None, ra))"

definition store_prefetched :: "instant \<Rightarrow> prefetch_key \<Rightarrow> bytes \<Rightarrow> readahead \<Rightarrow> readahead" where
  "store_prefetched now key data ra =
     ra\<lparr>prefetch_buffer := dash_insert key \<lparr>pd_data = data, pd_fetched_at = now\<rparr> (prefetch_buffer ra)\<rparr>"

definition ra_invalidate :: "u64 \<Rightarrow> readahead \<Rightarrow> readahead" where
  "ra_invalidate inode ra =
     ra\<lparr>file_states := dash_remove inode (file_states ra),
        prefetch_buffer := fold dash_remove
          (map fst (filter (\<lambda>e. pk_inode (fst e) = inode) (prefetch_buffer ra))) (prefetch_buffer ra)\<rparr>"

definition ra_clear :: "readahead \<Rightarrow> readahead" where
  "ra_clear ra = ra\<lparr>file_states := [], prefetch_buffer := []\<rparr>"

definition try_acquire_permit :: "readahead \<Rightarrow> readahead option" where
  "try_acquire_permit ra = (if 0 < ra_permits ra then Some (ra\<lparr>ra_permits := ra_permits ra - 1\<rparr>) else None)"

definition release_permit :: "readahead \<Rightarrow> readahead" where
  "release_permit ra = ra\<lparr>ra_permits := ra_permits ra + 1\<rparr>"

record readahead_stats =
  tracked_files :: nat
  prefetched_blocks :: nat

definition ra_stats :: "readahead \<Rightarrow> readahead_stats" where
  "ra_stats ra = \<lparr>tracked_files = length (file_states ra), prefetched_blocks = length (prefetch_buffer ra)\<rparr>"

text \<open>The background task, run to its end; the permit is dropped at the end of its scope.\<close>

definition prefetch_task ::
  "'s operator \<Rightarrow> instant \<Rightarrow> string \<Rightarrow> prefetch_request \<Rightarrow> readahead \<times> 's net \<Rightarrow> readahead \<times> 's net" where
  "prefetch_task op now path request = (\<lambda>(ra, net).
     (case try_acquire_permit ra of
        None \<Rightarrow> (ra, net)
      | Some ra1 \<Rightarrow>
          (case oc_read_range op path (pr_offset request) (pr_size request) net of
             (Inr data, net') \<Rightarrow>
               (release_permit (store_prefetched now
                  \<lparr>pk_inode = pr_inode request, pk_offset = pr_offset request\<rparr> data ra1), net')
           | (Inl e, net') \<Rightarrow> (release_permit ra1, net'))))"

section \<open>The prefetch buffer is a cache with expiry\<close>

definition prefetch_entry :: "readahead \<Rightarrow> prefetch_key \<Rightarrow> (bytes \<times> instant) option" where
  "prefetch_entry ra k = map_option (\<lambda>d. (pd_data d, pd_fetched_at d)) (dash_get (prefetch_buffer ra) k)"

definition drop_prefetched :: "prefetch_key \<Rightarrow> readahead \<Rightarrow> readahead" where
  "drop_prefetched k ra = ra\<lparr>prefetch_buffer := dash_remove k (prefetch_buffer ra)\<rparr>"

interpretation prefetch_ttl: ttl_store prefetch_entry "\<lambda>ra. prefetch_ttl (ra_config ra)"
  get_prefetched store_prefetched drop_prefetched
  by unfold_locales
    (auto simp: prefetch_entry_def get_prefetched_def store_prefetched_def drop_prefetched_def
      pd_is_expired_def split: option.splits)

lemma dash_get_fold_remove:
  "dash_get (fold dash_remove ks m) k = (if k \<in> set ks then None else dash_get m k)"
  by (induction ks arbitrary: m) auto

lemma ra_invalidate_buffer:
  "dash_get (prefetch_buffer (ra_invalidate i ra)) k =
     (if pk_inode k = i then None else dash_get (prefetch_buffer ra) k)"
  by (auto simp: ra_invalidate_def dash_get_fold_remove image_iff map_of_eq_None_iff)

text \<open>Invalidation of read-ahead: after an inode is invalidated no range of it is served from the
  prefetch buffer, ranges of other inodes are served as before, and its run of sequential reads
  starts anew.\<close>

theorem invalidate_drops_prefetched:
  "fst (get_prefetched now k (ra_invalidate i ra)) =
     (if pk_inode k = i then None else fst (get_prefetched now k ra)) \<and>
   dash_get (file_states (ra_invalidate i ra)) i = None"
  using ra_invalidate_buffer [of i ra k]
  by (auto simp: get_prefetched_def ra_invalidate_def split: option.splits)

section \<open>When a prefetch is requested\<close>

text \<open>A sequence of reads, each with its instant, inode, offset and size, and the requests it
  yields in order.\<close>

type_synonym read_event = "instant \<times> u64 \<times> u64 \<times> u64"

fun record_reads :: "read_event list \<Rightarrow> readahead \<Rightarrow> prefetch_request list \<times> readahead" where
  "record_reads [] ra = ([], ra)"
| "record_reads ((now, inode, offset, sz) # es) ra =
     (let (r, ra1) = record_read now inode offset sz ra;
          (rs, ra2) = record_reads es ra1
      in (case r of Some p \<Rightarrow> p # rs | None \<Rightarrow> rs, ra2))"

abbreviation prefetched_upto :: "readahead \<Rightarrow> u64 \<Rightarrow> nat" where
  "prefetched_upto ra i \<equiv>
     (case dash_get (file_states ra) i of Some st \<Rightarrow> unat (prefetch_offset st) | None \<Rightarrow> 0)"

text \<open>Reads whose ends, with the window added, do not exceed 64 bits.\<close>

definition reads_fit :: "readahead_config \<Rightarrow> read_event list \<Rightarrow> bool" where
  "reads_fit cfg es \<longleftrightarrow>
     (\<forall>(now, i, off, sz) \<in> set es. unat off + unat sz + unat (ra_window_size cfg) < 2 ^ 64)"

lemma record_read_config [simp]: "ra_config (snd (record_read now i off sz ra)) = ra_config ra"
  by (simp add: record_read_def Let_def split: prod.splits)

lemma record_read_request:
  assumes "record_read now i off sz ra = (r, ra')"
    and "unat off + unat sz + unat (ra_window_size (ra_config ra)) < 2 ^ 64"
  shows "prefetched_upto ra j \<le> prefetched_upto ra' j"
    and "r = Some p \<Longrightarrow> pr_inode p = i \<and> prefetched_upto ra i < unat (pr_offset p) \<and>
           unat (pr_offset p) + unat (pr_size p) \<le> prefetched_upto ra' i"
proof -
  have u1: "unat (off + sz) = unat off + unat sz"
    using assms(2) by (intro unat_plus_no_wrap) simp
  have u2: "unat (off + sz + ra_window_size (ra_config ra)) =
      unat off + unat sz + unat (ra_window_size (ra_config ra))"
    using assms(2) u1 unat_plus_no_wrap [of "off + sz" "ra_window_size (ra_config ra)"] by simp
  show "prefetched_upto ra j \<le> prefetched_upto ra' j"
    using assms(1) u1 u2
    by (auto simp: record_read_def rs_update_def read_state_new_def Let_def word_less_nat_alt
        split: if_splits option.splits)
  show "r = Some p \<Longrightarrow> pr_inode p = i \<and> prefetched_upto ra i < unat (pr_offset p) \<and>
      unat (pr_offset p) + unat (pr_size p) \<le> prefetched_upto ra' i"
    using assms(1) u1 u2
    by (auto simp: record_read_def rs_update_def read_state_new_def Let_def word_less_nat_alt
        split: if_splits option.splits)
qed

lemma record_reads_after:
  assumes "reads_fit (ra_config ra) es" "record_reads es ra = (rs, ra')"
  shows "(\<forall>p \<in> set rs. prefetched_upto ra (pr_inode p) < unat (pr_offset p)) \<and>
     sorted_wrt (\<lambda>p q. pr_inode p = pr_inode q \<longrightarrow>
        unat (pr_offset p) + unat (pr_size p) < unat (pr_offset q)) rs"
  using assms
proof (induction es arbitrary: ra rs ra')
  case (Cons e es)
  obtain now i off sz where e: "e = (now, i, off, sz)" by (cases e)
  obtain r ra1 where r: "record_read now i off sz ra = (r, ra1)" by fastforce
  obtain rs1 ra2 where rs: "record_reads es ra1 = (rs1, ra2)" by fastforce
  have fit: "unat off + unat sz + unat (ra_window_size (ra_config ra)) < 2 ^ 64"
    using Cons.prems(1) by (simp add: reads_fit_def e)
  have cfg: "ra_config ra1 = ra_config ra" using record_read_config [of now i off sz ra] r by simp
  have IH: "(\<forall>p \<in> set rs1. prefetched_upto ra1 (pr_inode p) < unat (pr_offset p)) \<and>
      sorted_wrt (\<lambda>p q. pr_inode p = pr_inode q \<longrightarrow>
        unat (pr_offset p) + unat (pr_size p) < unat (pr_offset q)) rs1"
    using Cons.IH [OF _ rs] Cons.prems(1) cfg by (simp add: reads_fit_def)
  have mono: "prefetched_upto ra j \<le> prefetched_upto ra1 j" for j
    by (rule record_read_request(1) [OF r fit])
  have rest: "\<forall>p \<in> set rs1. prefetched_upto ra (pr_inode p) < unat (pr_offset p)"
    using IH mono le_less_trans by blast
  have res: "rs = (case r of Some p \<Rightarrow> p # rs1 | None \<Rightarrow> rs1)"
    using Cons.prems(2) by (simp add: e r rs)
  show ?case
  proof (cases r)
    case None
    with res rest IH show ?thesis by simp
  next
    case (Some p)
    have p: "pr_inode p = i" "prefetched_upto ra i < unat (pr_offset p)"
        "unat (pr_offset p) + unat (pr_size p) \<le> prefetched_upto ra1 i"
      using record_read_request(2) [OF r fit Some] by auto
    have "unat (pr_offset p) + unat (pr_size p) < unat (pr_offset q)"
      if "q \<in> set rs1" "pr_inode p = pr_inode q" for q
      using IH that p le_less_trans by metis
    with res Some rest IH p show ?thesis by simp
  qed
qed simp

text \<open>C23 (no range is prefetched twice): for any reads of any number of files, in any order, for which
  offset, size and prefetch window together stay below 2 to the power 64 (beyond that the offsets would
  wrap), the ranges requested for one file are strictly increasing and never overlap.\<close>

theorem prefetch_ranges_disjoint:
  assumes "reads_fit (ra_config ra) es"
  shows "sorted_wrt (\<lambda>p q. pr_inode p = pr_inode q \<longrightarrow>
      unat (pr_offset p) + unat (pr_size p) < unat (pr_offset q)) (fst (record_reads es ra))"
  using record_reads_after [OF assms, of "fst (record_reads es ra)" "snd (record_reads es ra)"] by simp

lemma prefetch_ranges_disjoint_witness:
  "\<exists>p q. fst (record_reads
       [(1, 2, 0, 20000000), (2, 2, 20000000, 20000000), (3, 3, 0, 5), (4, 2, 40000000, 20000000),
        (5, 2, 60000000, 20000000)] (ra_new readahead_config_default)) = [p, q] \<and>
     pr_inode p = pr_inode q \<and> unat (pr_offset p) + unat (pr_size p) < unat (pr_offset q)"
proof -
  let ?es = "[(1, 2, 0, 20000000), (2, 2, 20000000, 20000000), (3, 3, 0, 5), (4, 2, 40000000, 20000000),
    (5, 2, 60000000, 20000000)]"
  obtain p q where r: "fst (record_reads ?es (ra_new readahead_config_default)) = [p, q]" "pr_inode p = pr_inode q"
    by (simp add: record_read_def rs_update_def read_state_new_def ra_new_def rs_is_sequential_def
        readahead_config_default_def Let_def)
  have "reads_fit (ra_config (ra_new readahead_config_default)) ?es"
    by (simp add: reads_fit_def ra_new_def readahead_config_default_def)
  from prefetch_ranges_disjoint [OF this] r show ?thesis by simp
qed

text \<open>The reads of one file, each starting where the one before ended.\<close>

fun contiguous :: "(u64 \<times> u64) list \<Rightarrow> bool" where
  "contiguous ((o1, s1) # (o2, s2) # rs) \<longleftrightarrow> o2 = o1 + s1 \<and> contiguous ((o2, s2) # rs)"
| "contiguous rs \<longleftrightarrow> True"

lemma contiguous_snoc:
  "contiguous (rs @ [(o1, s1)]) \<Longrightarrow> o2 = o1 + s1 \<Longrightarrow> contiguous (rs @ [(o1, s1), (o2, s2)])"
  by (induction rs rule: contiguous.induct) auto

definition reads_of :: "u64 \<Rightarrow> read_event list \<Rightarrow> (u64 \<times> u64) list" where
  "reads_of i es = map (\<lambda>(now, j, off, sz). (off, sz)) (filter (\<lambda>(now, j, off, sz). j = i) es)"

abbreviation last_reads :: "nat \<Rightarrow> 'a list \<Rightarrow> 'a list" where
  "last_reads n xs \<equiv> drop (length xs - n) xs"

text \<open>What the state of a file records of the reads so far.\<close>

definition tracks :: "(u64 \<times> u64) list \<Rightarrow> read_state option \<Rightarrow> bool" where
  "tracks rs st =
     (case st of
        None \<Rightarrow> rs = []
      | Some s \<Rightarrow> rs \<noteq> [] \<and> last rs = (last_offset s, last_size s) \<and> 1 \<le> seq_count s \<and>
          seq_count s \<le> length rs \<and> contiguous (last_reads (seq_count s) rs))"

lemma tracks_update:
  assumes "tracks rs so" "st0 = (case so of Some st \<Rightarrow> st | None \<Rightarrow> read_state_new now)"
    and "rs_update now off sz st0 = (b, st)"
  shows "tracks (rs @ [(off, sz)]) (Some (st\<lparr>prefetch_offset := x\<rparr>))"
proof (cases so)
  case None
  then show ?thesis
    using assms by (auto simp: tracks_def rs_update_def read_state_new_def Let_def split: if_splits)
next
  case (Some s)
  then have t: "rs \<noteq> []" "last rs = (last_offset s, last_size s)" "1 \<le> seq_count s"
      "seq_count s \<le> length rs" "contiguous (last_reads (seq_count s) rs)"
    using assms(1) by (auto simp: tracks_def)
  show ?thesis
  proof (cases "off = last_offset s + last_size s")
    case True
    let ?l = "last_reads (seq_count s) rs"
    have l: "?l \<noteq> []" "last ?l = last rs" using t(1,3,4) by (auto simp: last_drop)
    then have "?l = butlast ?l @ [(last_offset s, last_size s)]"
      using t(2) by (metis append_butlast_last_id)
    then have "contiguous (butlast ?l @ [(last_offset s, last_size s), (off, sz)])"
      using contiguous_snoc True t(5) by metis
    moreover have "?l @ [(off, sz)] = butlast ?l @ [(last_offset s, last_size s), (off, sz)]"
      using \<open>?l = butlast ?l @ [(last_offset s, last_size s)]\<close> by (metis append.assoc append_Cons append_Nil)
    ultimately have "contiguous (?l @ [(off, sz)])" by metis
    then show ?thesis
      using True Some assms(2,3) t by (auto simp: tracks_def rs_update_def Let_def Suc_diff_le)
  next
    case False
    then show ?thesis
      using Some assms(2,3) by (auto simp: tracks_def rs_update_def Let_def)
  qed
qed

lemma record_read_tracks:
  assumes "ra_enable (ra_config ra)" "\<forall>j. tracks (reads_of j es) (dash_get (file_states ra) j)"
    and "record_read now i off sz ra = (r, ra')"
  shows "\<forall>j. tracks (reads_of j (es @ [(now, i, off, sz)])) (dash_get (file_states ra') j)"
proof -
  let ?so = "dash_get (file_states ra) i"
  obtain b st where u: "rs_update now off sz (case ?so of Some st \<Rightarrow> st | None \<Rightarrow> read_state_new now) = (b, st)"
    by fastforce
  have "\<exists>x. file_states ra' = dash_insert i (st\<lparr>prefetch_offset := x\<rparr>) (file_states ra)"
    using assms(1,3) u
    by (auto simp: record_read_def Let_def split: if_splits intro: exI [of _ "prefetch_offset st"])
  then obtain x where fs: "file_states ra' = dash_insert i (st\<lparr>prefetch_offset := x\<rparr>) (file_states ra)" by blast
  have "tracks (reads_of i es @ [(off, sz)]) (Some (st\<lparr>prefetch_offset := x\<rparr>))"
    using tracks_update [OF assms(2) [rule_format] refl u] .
  then show ?thesis
    using assms(2) by (auto simp: fs reads_of_def)
qed

lemma record_reads_tracks:
  assumes "ra_enable (ra_config ra)" "\<forall>j. tracks (reads_of j es0) (dash_get (file_states ra) j)"
    and "record_reads es ra = (rs, ra')"
  shows "ra_config ra' = ra_config ra \<and> (\<forall>j. tracks (reads_of j (es0 @ es)) (dash_get (file_states ra') j))"
  using assms
proof (induction es arbitrary: ra es0 rs ra')
  case (Cons e es)
  obtain now i off sz where e: "e = (now, i, off, sz)" by (cases e)
  obtain r ra1 where r: "record_read now i off sz ra = (r, ra1)" by fastforce
  obtain rs1 ra2 where rs: "record_reads es ra1 = (rs1, ra2)" by fastforce
  have cfg: "ra_config ra1 = ra_config ra" using record_read_config [of now i off sz ra] r by simp
  have "\<forall>j. tracks (reads_of j (es0 @ [e])) (dash_get (file_states ra1) j)"
    unfolding e by (rule record_read_tracks [OF Cons.prems(1,2) r])
  from Cons.IH [OF _ this rs] Cons.prems(1,3) cfg show ?case by (simp add: e r rs)
qed simp

text \<open>Prefetch only on sequential access: from a fresh manager, when a read makes a prefetch
  request, then the last reads of that file, as many as the threshold, each started where the one
  before ended, and the range asked for starts where the last of them ended.\<close>

theorem prefetch_after_sequential_run:
  assumes "ra_enable cfg" "record_reads es (ra_new cfg) = (rs, ra)"
    and "record_read now i off sz ra = (Some p, ra')"
  shows "ra_seq_threshold cfg \<le> length (reads_of i (es @ [(now, i, off, sz)])) \<and>
     contiguous (last_reads (ra_seq_threshold cfg) (reads_of i (es @ [(now, i, off, sz)]))) \<and>
     p = \<lparr>pr_inode = i, pr_offset = off + sz, pr_size = ra_window_size cfg\<rparr>"
proof -
  let ?l = "reads_of i (es @ [(now, i, off, sz)])"
  have new: "ra_enable (ra_config (ra_new cfg))" "\<forall>j. tracks (reads_of j []) (dash_get (file_states (ra_new cfg)) j)"
    using assms(1) by (simp_all add: ra_new_def reads_of_def tracks_def)
  have t: "ra_config ra = cfg" "\<forall>j. tracks (reads_of j es) (dash_get (file_states ra) j)"
    using record_reads_tracks [OF new assms(2)] by (simp_all add: ra_new_def)
  have en: "ra_enable (ra_config ra)" using t(1) assms(1) by simp
  obtain s where s: "dash_get (file_states ra') i = Some s" "ra_seq_threshold cfg \<le> seq_count s"
      "p = \<lparr>pr_inode = i, pr_offset = off + sz, pr_size = ra_window_size cfg\<rparr>"
    using assms(1,3) t(1)
    by (auto simp: record_read_def rs_is_sequential_def Let_def split: if_splits prod.splits)
  have "tracks ?l (Some s)"
    using record_read_tracks [OF en t(2) assms(3)] s(1) by metis
  then have c: "seq_count s \<le> length ?l" "contiguous (last_reads (seq_count s) ?l)"
    by (simp_all add: tracks_def)
  have mono: "contiguous xs \<Longrightarrow> contiguous (drop n xs)" for n xs
  proof (induction n arbitrary: xs)
    case (Suc n)
    then show ?case by (cases xs rule: contiguous.cases) auto
  qed simp
  have "last_reads (ra_seq_threshold cfg) ?l =
      drop (seq_count s - ra_seq_threshold cfg) (last_reads (seq_count s) ?l)"
    using s(2) c(1) by simp
  then have "contiguous (last_reads (ra_seq_threshold cfg) ?l)"
    using mono [OF c(2), of "seq_count s - ra_seq_threshold cfg"] by (simp only:)
  with s(3) le_trans [OF s(2) c(1)] show ?thesis by blast
qed

lemma prefetch_after_sequential_run_witness:
  "\<exists>ra ra' p. record_reads [(1, 2, 0, 10), (2, 2, 10, 10)] (ra_new readahead_config_default) = ([], ra) \<and>
     record_read 3 2 20 10 ra = (Some p, ra') \<and> pr_offset p = 30"
proof -
  let ?cfg = readahead_config_default
  obtain ra where ra: "record_reads [(1, 2, 0, 10), (2, 2, 10, 10)] (ra_new ?cfg) = ([], ra)"
      "record_read 3 2 20 10 ra = (Some \<lparr>pr_inode = 2, pr_offset = 30, pr_size = 16777216\<rparr>,
         snd (record_read 3 2 20 10 ra))"
    by (simp add: record_read_def rs_update_def read_state_new_def ra_new_def rs_is_sequential_def
        readahead_config_default_def)
  have en: "ra_enable ?cfg" by (simp add: readahead_config_default_def)
  have "pr_offset \<lparr>pr_inode = 2, pr_offset = 30, pr_size = 16777216\<rparr> = (30 :: u64)"
    using prefetch_after_sequential_run [OF en ra] by simp
  with ra show ?thesis by blast
qed

text \<open>The prefetch task: a task that gets a permit and whose range read succeeds makes exactly
  that range of the object available at its offset until it expires, and gives the permit back; a
  task that gets no permit does not contact the store.\<close>

theorem prefetch_task_effect:
  assumes "prefetch_task op now path p (ra, net) = (ra', net')"
  shows "ra_permits ra' = ra_permits ra \<and>
     (ra_permits ra = 0 \<longrightarrow> ra' = ra \<and> net' = net) \<and>
     (\<forall>data. 0 < ra_permits ra \<and> fst (oc_read_range op path (pr_offset p) (pr_size p) net) = Inr data \<longrightarrow>
        fst (get_prefetched later \<lparr>pk_inode = pr_inode p, pk_offset = pr_offset p\<rparr> ra') =
          (if elapsed later now \<le> prefetch_ttl (ra_config ra) then Some data else None))"
proof (cases "ra_permits ra = 0")
  case True
  then have "try_acquire_permit ra = None" by (simp add: try_acquire_permit_def)
  then have "ra' = ra" "net' = net" using assms by (simp_all add: prefetch_task_def)
  with True show ?thesis by simp
next
  case False
  obtain r net1 where r: "oc_read_range op path (pr_offset p) (pr_size p) net = (r, net1)"
    by (rule prod.exhaust)
  show ?thesis
  proof (cases r)
    case (Inl e)
    then show ?thesis
      using assms r False by (auto simp: prefetch_task_def try_acquire_permit_def release_permit_def)
  next
    case (Inr data)
    have "ra' = release_permit (store_prefetched now \<lparr>pk_inode = pr_inode p, pk_offset = pr_offset p\<rparr> data
        (ra\<lparr>ra_permits := ra_permits ra - 1\<rparr>))"
      using assms r Inr False by (simp add: prefetch_task_def try_acquire_permit_def)
    then show ?thesis
      using r Inr False
      by (simp add: release_permit_def store_prefetched_def get_prefetched_def pd_is_expired_def not_less)
  qed
qed

lemma prefetch_task_effect_witness:
  "\<exists>ra' net'. prefetch_task map_operator 5 ''f'' \<lparr>pr_inode = 2, pr_offset = 1, pr_size = 2\<rparr>
       (ra_new readahead_config_default, (metrics_new, \<lparr>ms_objects = [(''f'', [7, 8, 9, 10])], ms_broken = []\<rparr>))
     = (ra', net') \<and>
     fst (get_prefetched 6 \<lparr>pk_inode = 2, pk_offset = 1\<rparr> ra') = Some [8, 9]"
proof -
  let ?p = "\<lparr>pr_inode = 2, pr_offset = 1, pr_size = 2\<rparr>"
  let ?ra = "ra_new readahead_config_default"
  let ?net = "(metrics_new, \<lparr>ms_objects = [(''f'', [7, 8, 9, 10])], ms_broken = []\<rparr>)"
  obtain ra' net' where t: "prefetch_task map_operator 5 ''f'' ?p (?ra, ?net) = (ra', net')"
    by (rule prod.exhaust)
  have r: "fst (oc_read_range map_operator ''f'' 1 2 ?net) = Inr [8, 9]"
    by (simp add: oc_read_range_def map_operator_def)
  have "0 < ra_permits ?ra" "elapsed 6 5 \<le> prefetch_ttl (ra_config ?ra)"
    by (simp_all add: ra_new_def readahead_config_default_def elapsed_def)
  then show ?thesis using prefetch_task_effect [OF t, of 6] r t by auto
qed

end
