(* ===== verification/Multipart.thy ===== *)
theory Multipart
  imports Config ObsClient Decimal
begin

text \<open>
  Multipart uploads (src/src/storage/multipart.rs).

  The uploader never calls its operator: parts are only recorded. The loops that cut parts do
  not end when the part size is zero, so they are partial functions, and a call that runs such
  a loop is \<open>Hang\<close>. \<open>StreamingWriter\<close> buffers everything and writes the object once.
\<close>

section \<open>State and operations\<close>

record multipart_config =
  mp_part_size :: nat
  mp_concurrency :: nat
  mp_max_parts :: nat

definition multipart_config_default :: multipart_config where
  "multipart_config_default = \<lparr>mp_part_size = 8 * 1024 * 1024, mp_concurrency = 5, mp_max_parts = 10000\<rparr>"

definition multipart_config_from :: "performance_config \<Rightarrow> multipart_config" where
  "multipart_config_from cfg =
     \<lparr>mp_part_size = unat (multipart_part_size cfg), mp_concurrency = multipart_concurrency cfg,
      mp_max_parts = 10000\<rparr>"

record part_info =
  part_number :: u32
  part_etag :: string
  part_size :: nat

record upload_state =
  us_path :: string
  us_parts :: "part_info list"
  current_part :: u32
  us_buffer :: bytes
  total_bytes :: u64
  initiated :: bool

definition upload_state_new :: "string \<Rightarrow> upload_state" where
  "upload_state_new path =
     \<lparr>us_path = path, us_parts = [], current_part = 1, us_buffer = [], total_bytes = 0, initiated = False\<rparr>"

definition buffer_ready :: "nat \<Rightarrow> upload_state \<Rightarrow> bool" where
  "buffer_ready n st \<longleftrightarrow> n \<le> length (us_buffer st)"

definition take_buffer :: "nat \<Rightarrow> upload_state \<Rightarrow> bytes option \<times> upload_state" where
  "take_buffer n st =
     (if n \<le> length (us_buffer st)
      then (Some (take n (us_buffer st)), st\<lparr>us_buffer := drop n (us_buffer st)\<rparr>)
      else (None, st))"

definition take_remaining :: "upload_state \<Rightarrow> bytes \<times> upload_state" where
  "take_remaining st = (us_buffer st, st\<lparr>us_buffer := []\<rparr>)"

text \<open>\<open>upload_part\<close>: the bytes are dropped; their number is kept.\<close>

definition upload_part :: "bytes \<Rightarrow> upload_state \<times> metrics \<Rightarrow> upload_state \<times> metrics" where
  "upload_part data = (\<lambda>(st, mt).
     (let n = current_part st
      in (st\<lparr>current_part := current_part st + 1,
            us_parts := us_parts st @
              [\<lparr>part_number = n, part_etag = ''part-'' @ decimal (unat n), part_size = length data\<rparr>]\<rparr>,
          inc_obs_put mt)))"

partial_function (option) upload_loop :: "nat \<Rightarrow> upload_state \<Rightarrow> metrics \<Rightarrow> (upload_state \<times> metrics) option" where
  "upload_loop n st mt =
     (if buffer_ready n st
      then (case take_buffer n st of
              (Some part_data, st1) \<Rightarrow>
                (let r = upload_part part_data (st1, mt) in upload_loop n (fst r) (snd r))
            | (None, st1) \<Rightarrow> upload_loop n st1 mt)
      else Some (st, mt))"

definition mp_write ::
  "multipart_config \<Rightarrow> bytes \<Rightarrow> upload_state \<times> metrics \<Rightarrow> unit result \<times> (upload_state \<times> metrics)" where
  "mp_write cfg data = (\<lambda>(st, mt).
     (let st1 = st\<lparr>us_buffer := us_buffer st @ data, total_bytes := total_bytes st + len64 data\<rparr>
      in (case upload_loop (mp_part_size cfg) st1 mt of
            Some r \<Rightarrow> (Inr (), r)
          | None \<Rightarrow> (Inl Hang, (st1, mt)))))"

definition mp_complete :: "upload_state \<times> metrics \<Rightarrow> unit result \<times> (upload_state \<times> metrics)" where
  "mp_complete = (\<lambda>(st, mt).
     (let (remaining, st1) = take_remaining st
      in (Inr (), if remaining \<noteq> [] then upload_part remaining (st1, mt) else (st1, mt))))"

definition mp_abort :: "upload_state \<Rightarrow> upload_state" where
  "mp_abort st = st\<lparr>us_parts := [], us_buffer := [], current_part := 1, initiated := False\<rparr>"

text \<open>The product is a \<open>usize\<close>, which wraps at 64 bits.\<close>

definition max_file_size :: "multipart_config \<Rightarrow> u64" where
  "max_file_size cfg = of_nat (mp_max_parts cfg) * of_nat (mp_part_size cfg)"

record streaming_writer =
  sw_path :: string
  sw_buffer :: bytes
  sw_part_size :: nat

definition sw_new :: "string \<Rightarrow> nat \<Rightarrow> streaming_writer" where
  "sw_new path n = \<lparr>sw_path = path, sw_buffer = [], sw_part_size = n\<rparr>"

definition sw_write :: "bytes \<Rightarrow> streaming_writer \<Rightarrow> nat result \<times> streaming_writer" where
  "sw_write data w = (Inr (length data), w\<lparr>sw_buffer := sw_buffer w @ data\<rparr>)"

definition sw_finish :: "'s operator \<Rightarrow> streaming_writer \<Rightarrow> 's net \<Rightarrow> unit result \<times> 's net" where
  "sw_finish op w = (\<lambda>(mt, s).
     obs_call (op_write op (sw_path w) (sw_buffer w) None s)
       (add_write_bytes (len64 (sw_buffer w)) (inc_obs_put mt)))"

section \<open>Cutting parts\<close>

definition parts_total :: "upload_state \<Rightarrow> nat" where
  "parts_total st = sum_list (map part_size (us_parts st))"

text \<open>The loop with a part size of zero has no result, with any other it has one.\<close>

lemma upload_loop_zero: "upload_loop 0 st mt = None"
proof -
  have "n \<noteq> 0" if "upload_loop n st mt = Some r" for n r
    using that
  proof (rule upload_loop.raw_induct [of "\<lambda>n st mt r. n \<noteq> 0", rotated])
    fix f n st mt r
    assume IH: "\<And>n st mt r. f n st mt = Some r \<Longrightarrow> n \<noteq> (0::nat)"
      and step: "(if buffer_ready n st
        then (case take_buffer n st of
              (Some part_data, st1) \<Rightarrow>
                (let r = upload_part part_data (st1, mt) in f n (fst r) (snd r))
            | (None, st1) \<Rightarrow> f n st1 mt)
        else Some (st, mt)) = Some r"
    then show "n \<noteq> 0"
      by (auto simp: buffer_ready_def take_buffer_def Let_def split: if_splits)
  qed
  then show ?thesis by (cases "upload_loop 0 st mt") auto
qed

lemma upload_loop_step:
  "n \<le> length (us_buffer st) \<Longrightarrow>
     upload_loop n st mt =
       upload_loop n (fst (upload_part (take n (us_buffer st)) (st\<lparr>us_buffer := drop n (us_buffer st)\<rparr>, mt)))
         (inc_obs_put mt)"
  by (subst upload_loop.simps) (simp add: buffer_ready_def take_buffer_def upload_part_def Let_def)

lemma upload_loop_stop: "length (us_buffer st) < n \<Longrightarrow> upload_loop n st mt = Some (st, mt)"
  by (subst upload_loop.simps) (simp add: buffer_ready_def)

text \<open>The shape of an upload in progress: full parts numbered from one, and their bytes with the
  buffered ones make up the total.\<close>

definition upload_wf :: "nat \<Rightarrow> upload_state \<Rightarrow> bool" where
  "upload_wf n st \<longleftrightarrow>
     map part_number (us_parts st) = map of_nat [1 ..< Suc (length (us_parts st))] \<and>
     current_part st = of_nat (Suc (length (us_parts st))) \<and>
     map part_size (us_parts st) = replicate (length (us_parts st)) n \<and>
     total_bytes st = of_nat (length (us_parts st) * n + length (us_buffer st))"

lemma upload_wf_new: "upload_wf n (upload_state_new path)"
  by (simp add: upload_wf_def upload_state_new_def)

lemma upload_part_wf:
  assumes "upload_wf n st" "n \<le> length (us_buffer st)"
  shows "upload_wf n (fst (upload_part (take n (us_buffer st)) (st\<lparr>us_buffer := drop n (us_buffer st)\<rparr>, mt)))"
  using assms by (simp add: upload_wf_def upload_part_def Let_def replicate_append_same algebra_simps of_nat_diff)

lemma upload_loop_wf:
  assumes "0 < n" "upload_wf n st"
  shows "\<exists>st' mt'. upload_loop n st mt = Some (st', mt') \<and> upload_wf n st' \<and>
     length (us_parts st') = length (us_parts st) + length (us_buffer st) div n \<and>
     us_buffer st' = drop (length (us_buffer st) div n * n) (us_buffer st) \<and>
     us_path st' = us_path st"
  using assms(2)
proof (induction "length (us_buffer st)" arbitrary: st mt rule: less_induct)
  case less
  show ?case
  proof (cases "n \<le> length (us_buffer st)")
    case True
    let ?st = "fst (upload_part (take n (us_buffer st)) (st\<lparr>us_buffer := drop n (us_buffer st)\<rparr>, mt))"
    have b: "us_buffer ?st = drop n (us_buffer st)" "length (us_parts ?st) = Suc (length (us_parts st))"
        "us_path ?st = us_path st"
      by (simp_all add: upload_part_def Let_def)
    have d: "length (us_buffer st) div n = Suc (length (us_buffer ?st) div n)"
      using True assms(1) by (simp add: b le_div_geq)
    have "length (us_buffer ?st) < length (us_buffer st)" using True assms(1) by (simp add: b)
    from less.hyps [OF this upload_part_wf [OF less.prems True], of "inc_obs_put mt"]
    show ?thesis
      unfolding upload_loop_step [OF True] d b by (auto simp: add.commute)
  next
    case False
    with less.prems show ?thesis by (auto simp: upload_loop_stop)
  qed
qed

fun mp_writes :: "multipart_config \<Rightarrow> bytes list \<Rightarrow> upload_state \<times> metrics \<Rightarrow> unit result \<times> (upload_state \<times> metrics)" where
  "mp_writes cfg [] r = (Inr (), r)"
| "mp_writes cfg (d # ds) r =
     (case mp_write cfg d r of
        (Inr _, r') \<Rightarrow> mp_writes cfg ds r'
      | (Inl e, r') \<Rightarrow> (Inl e, r'))"

definition upload_holds :: "nat \<Rightarrow> nat \<Rightarrow> upload_state \<Rightarrow> bool" where
  "upload_holds n t st \<longleftrightarrow> upload_wf n st \<and> length (us_buffer st) < n \<and>
     length (us_parts st) * n + length (us_buffer st) = t"

lemma mp_write_holds:
  assumes "0 < mp_part_size cfg" "upload_holds (mp_part_size cfg) t st"
  shows "\<exists>st' mt'. mp_write cfg d (st, mt) = (Inr (), (st', mt')) \<and>
     upload_holds (mp_part_size cfg) (t + length d) st'"
proof -
  let ?n = "mp_part_size cfg"
  let ?st = "st\<lparr>us_buffer := us_buffer st @ d, total_bytes := total_bytes st + len64 d\<rparr>"
  have wf: "upload_wf ?n ?st"
    using assms(2) by (simp add: upload_holds_def upload_wf_def len64_def add.assoc)
  obtain st' mt' where l: "upload_loop ?n ?st mt = Some (st', mt')" "upload_wf ?n st'"
      "length (us_parts st') = length (us_parts ?st) + length (us_buffer ?st) div ?n"
      "us_buffer st' = drop (length (us_buffer ?st) div ?n * ?n) (us_buffer ?st)"
    using upload_loop_wf [OF assms(1) wf, of mt] by blast
  have "length (us_buffer st') = length (us_buffer ?st) mod ?n"
    unfolding l(4) length_drop by (rule minus_div_mult_eq_mod)
  moreover have "length (us_parts st') * ?n + length (us_buffer ?st) mod ?n = t + length d"
    using assms(2) l(3) div_mult_mod_eq [of "length (us_buffer ?st)" ?n]
    by (simp add: upload_holds_def add_mult_distrib)
  ultimately have "upload_holds ?n (t + length d) st'"
    using l(2) assms(1) by (simp add: upload_holds_def)
  moreover have "mp_write cfg d (st, mt) = (Inr (), (st', mt'))"
    using l(1) by (simp add: mp_write_def Let_def)
  ultimately show ?thesis by blast
qed

lemma mp_writes_holds:
  assumes "0 < mp_part_size cfg" "upload_holds (mp_part_size cfg) t st"
  shows "\<exists>st' mt'. mp_writes cfg ds (st, mt) = (Inr (), (st', mt')) \<and>
     upload_holds (mp_part_size cfg) (t + length (concat ds)) st'"
  using assms(2)
proof (induction ds arbitrary: t st mt)
  case (Cons d ds)
  obtain st1 mt1 where w: "mp_write cfg d (st, mt) = (Inr (), (st1, mt1))"
      "upload_holds (mp_part_size cfg) (t + length d) st1"
    using mp_write_holds [OF assms(1) Cons.prems] by blast
  from Cons.IH [OF w(2), of mt1] w(1) show ?case by (auto simp: add.assoc)
qed auto

text \<open>C24 (multipart bookkeeping): writing any chunks to a fresh upload with a positive part size
  returns for every chunk, and completing it leaves parts numbered from one, none empty, all but
  the last of exactly the part size, whose sizes add up to the bytes written.\<close>

theorem multipart_parts_account:
  assumes "0 < mp_part_size cfg"
  shows "\<exists>st1 mt1 st mt'. mp_writes cfg ds (upload_state_new path, mt) = (Inr (), (st1, mt1)) \<and>
     mp_complete (st1, mt1) = (Inr (), (st, mt')) \<and>
     map part_number (us_parts st) = map of_nat [1 ..< Suc (length (us_parts st))] \<and>
     (\<forall>p \<in> set (butlast (us_parts st)). part_size p = mp_part_size cfg) \<and>
     (\<forall>p \<in> set (us_parts st). 0 < part_size p \<and> part_size p \<le> mp_part_size cfg) \<and>
     parts_total st = length (concat ds) \<and> us_buffer st = []"
proof -
  let ?n = "mp_part_size cfg"
  have "upload_holds ?n 0 (upload_state_new path)"
    using assms upload_wf_new by (simp add: upload_holds_def upload_state_new_def)
  from mp_writes_holds [OF assms this, of ds mt]
  obtain st1 mt1 where w: "mp_writes cfg ds (upload_state_new path, mt) = (Inr (), (st1, mt1))"
      "upload_holds ?n (length (concat ds)) st1" by auto
  obtain st mt' where c: "mp_complete (st1, mt1) = (Inr (), (st, mt'))"
    by (cases "us_buffer st1 = []") (auto simp: mp_complete_def take_remaining_def upload_part_def Let_def)
  have sizes: "map part_size (us_parts st1) = replicate (length (us_parts st1)) ?n"
    and nums: "map part_number (us_parts st1) = map of_nat [1 ..< Suc (length (us_parts st1))]"
    and cur: "current_part st1 = of_nat (Suc (length (us_parts st1)))"
    using w(2) by (auto simp: upload_holds_def upload_wf_def)
  have full: "part_size p = ?n" if "p \<in> set (us_parts st1)" for p
    using sizes that by (metis in_set_replicate imageI set_map)
  have tot: "parts_total st1 + length (us_buffer st1) = length (concat ds)"
    using w(2) sizes by (simp add: upload_holds_def parts_total_def sum_list_replicate)
  have small: "length (us_buffer st1) < ?n" using w(2) by (simp add: upload_holds_def)
  show ?thesis
  proof (cases "us_buffer st1 = []")
    case True
    then have "us_parts st = us_parts st1" "us_buffer st = []"
      using c by (auto simp: mp_complete_def take_remaining_def)
    with w(1) c nums full tot True assms show ?thesis by (auto simp: parts_total_def dest: in_set_butlastD)
  next
    case False
    then have "us_parts st = us_parts st1 @ [\<lparr>part_number = current_part st1,
        part_etag = ''part-'' @ decimal (unat (current_part st1)), part_size = length (us_buffer st1)\<rparr>]"
        "us_buffer st = []"
      using c by (auto simp: mp_complete_def take_remaining_def upload_part_def Let_def)
    with w(1) c nums cur full tot small False assms show ?thesis by (auto simp: parts_total_def)
  qed
qed

lemma multipart_parts_account_witness:
  "\<exists>st1 mt1 st mt'. mp_writes \<lparr>mp_part_size = 2, mp_concurrency = 5, mp_max_parts = 10000\<rparr> [[1, 2, 3], [4, 5]]
       (upload_state_new ''f'', metrics_new) = (Inr (), (st1, mt1)) \<and>
     mp_complete (st1, mt1) = (Inr (), (st, mt')) \<and> parts_total st = 5"
  using multipart_parts_account [of "\<lparr>mp_part_size = 2, mp_concurrency = 5, mp_max_parts = 10000\<rparr>"
      "[[1, 2, 3], [4, 5]]" "''f''" metrics_new] by force

text \<open>C40 (a part size of zero hangs): with a part size of zero, which the configuration accepts, no
  write to a multipart upload returns.\<close>

theorem zero_part_size_hangs:
  assumes "mp_part_size cfg = 0"
  shows "fst (mp_write cfg data (st, mt)) = Inl Hang"
  by (simp add: mp_write_def assms upload_loop_zero Let_def)

lemma zero_part_size_hangs_witness:
  "fst (mp_write \<lparr>mp_part_size = 0, mp_concurrency = 5, mp_max_parts = 10000\<rparr> [1]
     (upload_state_new ''f'', metrics_new)) = Inl Hang"
  by (rule zero_part_size_hangs) simp

end
