(* ===== verification/WriteBuffer.thy ===== *)
theory WriteBuffer
  imports Multipart
begin

text \<open>
  The write buffer (src/src/cache/write_buffer.rs): one buffer per inode that collects writes
  until a flush puts them to the store, or hands them to a multipart upload.

  Every operation returns its result with the next state also when it fails, since a failing
  call keeps the changes it made before. The mutex of a buffer is held during a whole
  operation, so an operation is one transition; the flush task is given as what one period does.
\<close>

section \<open>State\<close>

record write_buffer_config =
  buffer_size :: nat
  flush_interval :: duration
  multipart_threshold :: nat
  wbc_part_size :: nat

definition write_buffer_config_default :: write_buffer_config where
  "write_buffer_config_default =
     \<lparr>buffer_size = 64 * 1024 * 1024, flush_interval = secs 30,
      multipart_threshold = 100 * 1024 * 1024, wbc_part_size = 8 * 1024 * 1024\<rparr>"

definition write_buffer_config_from :: "performance_config \<Rightarrow> write_buffer_config" where
  "write_buffer_config_from cfg =
     \<lparr>buffer_size = unat (write_buffer_size cfg), flush_interval = cfg_flush_interval cfg,
      multipart_threshold = unat (cfg_multipart_threshold cfg),
      wbc_part_size = unat (multipart_part_size cfg)\<rparr>"

record file_write_buffer =
  fw_inode :: u64
  fw_path :: string
  fw_data :: bytes
  dirty :: bool
  last_write :: instant
  fw_size :: u64
  original_size :: u64
  fw_multipart :: "upload_state option"
  sequential_write :: bool
  next_offset :: u64

definition file_write_buffer_new :: "instant \<Rightarrow> u64 \<Rightarrow> string \<Rightarrow> u64 \<Rightarrow> file_write_buffer" where
  "file_write_buffer_new now inode path sz =
     \<lparr>fw_inode = inode, fw_path = path, fw_data = [], dirty = False, last_write = now,
      fw_size = sz, original_size = sz, fw_multipart = None, sequential_write = True, next_offset = 0\<rparr>"

definition needs_flush :: "nat \<Rightarrow> file_write_buffer \<Rightarrow> bool" where
  "needs_flush threshold buf \<longleftrightarrow> threshold \<le> length (fw_data buf)"

definition needs_time_flush :: "instant \<Rightarrow> duration \<Rightarrow> file_write_buffer \<Rightarrow> bool" where
  "needs_time_flush now interval buf \<longleftrightarrow> dirty buf \<and> elapsed now (last_write buf) > interval"

definition current_buffer_size :: "file_write_buffer \<Rightarrow> nat" where
  "current_buffer_size buf = length (fw_data buf)"

record write_buffer =
  wb_buffers :: "(u64, file_write_buffer) dash"
  wb_config :: write_buffer_config

definition wb_new :: "write_buffer_config \<Rightarrow> write_buffer" where
  "wb_new cfg = \<lparr>wb_buffers = [], wb_config = cfg\<rparr>"

text \<open>The configuration \<open>WriteBuffer::new\<close> gives the uploader.\<close>

definition wb_multipart_config :: "write_buffer_config \<Rightarrow> multipart_config" where
  "wb_multipart_config cfg =
     \<lparr>mp_part_size = wbc_part_size cfg, mp_concurrency = 5, mp_max_parts = 10000\<rparr>"

definition get_or_create ::
  "instant \<Rightarrow> u64 \<Rightarrow> string \<Rightarrow> u64 \<Rightarrow> write_buffer \<Rightarrow> file_write_buffer \<times> write_buffer" where
  "get_or_create now inode path sz wb =
     (case dash_get (wb_buffers wb) inode of
        Some buf \<Rightarrow> (buf, wb)
      | None \<Rightarrow>
          (let buf = file_write_buffer_new now inode path sz
           in (buf, wb\<lparr>wb_buffers := dash_insert inode buf (wb_buffers wb)\<rparr>)))"

section \<open>Flushing\<close>

text \<open>The end of \<open>flush_buffer\<close>, reached when the data has been handed over.\<close>

definition mark_flushed :: "file_write_buffer \<times> 's net \<Rightarrow> file_write_buffer \<times> 's net" where
  "mark_flushed = (\<lambda>(buf, (mt, s)).
     (buf\<lparr>dirty := False, original_size := fw_size buf\<rparr>, (inc_write_buffer_flush mt, s)))"

definition flush_buffer ::
  "'s operator \<Rightarrow> multipart_config \<Rightarrow> file_write_buffer \<times> 's net \<Rightarrow> unit result \<times> (file_write_buffer \<times> 's net)" where
  "flush_buffer op mpc = (\<lambda>(buf, net).
     (if \<not> dirty buf \<or> fw_data buf = [] then (Inr (), (buf, net))
      else case fw_multipart buf of
        Some mp \<Rightarrow>
          (case mp_write mpc (fw_data buf) (mp, fst net) of
             (Inl e, (mp1, mt1)) \<Rightarrow> (Inl e, (buf\<lparr>fw_data := [], fw_multipart := Some mp1\<rparr>, (mt1, snd net)))
           | (Inr _, (mp1, mt1)) \<Rightarrow>
               (case mp_complete (mp1, mt1) of
                  (Inl e, (mp2, mt2)) \<Rightarrow> (Inl e, (buf\<lparr>fw_data := [], fw_multipart := Some mp2\<rparr>, (mt2, snd net)))
                | (Inr _, (mp2, mt2)) \<Rightarrow>
                    (Inr (), mark_flushed (buf\<lparr>fw_data := [], fw_multipart := None\<rparr>, (mt2, snd net)))))
      | None \<Rightarrow>
          (case oc_write op (fw_path buf) (fw_data buf) net of
             (Inl e, net1) \<Rightarrow> (Inl e, (buf\<lparr>fw_data := []\<rparr>, net1))
           | (Inr _, net1) \<Rightarrow> (Inr (), mark_flushed (buf\<lparr>fw_data := []\<rparr>, net1)))))"

type_synonym 's wb_state = "write_buffer \<times> 's net"

definition wb_flush :: "'s operator \<Rightarrow> u64 \<Rightarrow> 's wb_state \<Rightarrow> unit result \<times> 's wb_state" where
  "wb_flush op inode = (\<lambda>(wb, net).
     (case dash_get (wb_buffers wb) inode of
        Some buf \<Rightarrow>
          (case flush_buffer op (wb_multipart_config (wb_config wb)) (buf, net) of
             (r, (buf1, net1)) \<Rightarrow> (r, (wb\<lparr>wb_buffers := dash_insert inode buf1 (wb_buffers wb)\<rparr>, net1)))
      | None \<Rightarrow> (Inr (), (wb, net))))"

definition sync_flush :: "'s operator \<Rightarrow> u64 \<Rightarrow> 's wb_state \<Rightarrow> unit result \<times> 's wb_state" where
  "sync_flush op inode st =
     (case wb_flush op inode st of
        (Inr _, (wb, (mt, s))) \<Rightarrow> (Inr (), (wb, (inc_write_buffer_flush mt, s)))
      | (Inl e, st1) \<Rightarrow> (Inl e, st1))"

text \<open>The buffer leaves the map before it is flushed.\<close>

definition wb_release :: "'s operator \<Rightarrow> u64 \<Rightarrow> 's wb_state \<Rightarrow> unit result \<times> 's wb_state" where
  "wb_release op inode = (\<lambda>(wb, net).
     (case dash_get (wb_buffers wb) inode of
        Some buf \<Rightarrow>
          (case flush_buffer op (wb_multipart_config (wb_config wb)) (buf, net) of
             (r, (_, net1)) \<Rightarrow> (r, (wb\<lparr>wb_buffers := dash_remove inode (wb_buffers wb)\<rparr>, net1)))
      | None \<Rightarrow> (Inr (), (wb, net))))"

text \<open>The loops over all buffers: those that satisfy the test are flushed, up to the first error.\<close>

fun flush_entries ::
  "'s operator \<Rightarrow> multipart_config \<Rightarrow> (file_write_buffer \<Rightarrow> bool) \<Rightarrow> (u64, file_write_buffer) dash \<Rightarrow> 's net \<Rightarrow>
     unit result \<times> ((u64, file_write_buffer) dash \<times> 's net)" where
  "flush_entries op mpc P [] net = (Inr (), ([], net))"
| "flush_entries op mpc P ((i, buf) # es) net =
     (if P buf
      then (case flush_buffer op mpc (buf, net) of
              (Inl e, (buf1, net1)) \<Rightarrow> (Inl e, ((i, buf1) # es, net1))
            | (Inr _, (buf1, net1)) \<Rightarrow>
                (case flush_entries op mpc P es net1 of
                   (r, (es1, net2)) \<Rightarrow> (r, ((i, buf1) # es1, net2))))
      else (case flush_entries op mpc P es net of (r, (es1, net1)) \<Rightarrow> (r, ((i, buf) # es1, net1))))"

definition wb_flush_all :: "'s operator \<Rightarrow> 's wb_state \<Rightarrow> unit result \<times> 's wb_state" where
  "wb_flush_all op = (\<lambda>(wb, net).
     (case flush_entries op (wb_multipart_config (wb_config wb)) dirty (wb_buffers wb) net of
        (r, (bs, net1)) \<Rightarrow> (r, (wb\<lparr>wb_buffers := bs\<rparr>, net1))))"

definition flush_expired :: "'s operator \<Rightarrow> instant \<Rightarrow> 's wb_state \<Rightarrow> unit result \<times> 's wb_state" where
  "flush_expired op now = (\<lambda>(wb, net).
     (case flush_entries op (wb_multipart_config (wb_config wb))
             (needs_time_flush now (flush_interval (wb_config wb))) (wb_buffers wb) net of
        (r, (bs, net1)) \<Rightarrow> (r, (wb\<lparr>wb_buffers := bs\<rparr>, net1))))"

text \<open>One period of the background task: an error is logged and dropped.\<close>

definition flush_task_period :: "'s operator \<Rightarrow> instant \<Rightarrow> 's wb_state \<Rightarrow> 's wb_state" where
  "flush_task_period op now st = snd (flush_expired op now st)"

section \<open>Writing\<close>

text \<open>The loop that hands full parts to the uploader.\<close>

lemma mp_write_zero: "mp_part_size mpc = 0 \<Longrightarrow> fst (mp_write mpc d r) = Inl Hang"
  by (simp add: mp_write_def upload_loop_zero Let_def split: prod.splits)

lemma mp_write_zero_eq: "(Inr u, r1) = mp_write mpc d r \<Longrightarrow> mp_part_size mpc \<noteq> 0"
  using mp_write_zero [of mpc d r] by (metis fst_conv sum.distinct(1))

function cut_parts ::
  "write_buffer_config \<Rightarrow> bytes \<Rightarrow> upload_state \<times> metrics \<Rightarrow> unit result \<times> (bytes \<times> (upload_state \<times> metrics))" where
  "cut_parts cfg data r =
     (if wbc_part_size cfg \<le> length data
      then (case mp_write (wb_multipart_config cfg) (take (wbc_part_size cfg) data) r of
              (Inr _, r1) \<Rightarrow> cut_parts cfg (drop (wbc_part_size cfg) data) r1
            | (Inl e, r1) \<Rightarrow> (Inl e, (drop (wbc_part_size cfg) data, r1)))
      else (Inr (), (data, r)))"
  by pat_completeness auto
termination
  by (relation "measure (\<lambda>(cfg, data, r). length data)")
    (auto simp: wb_multipart_config_def intro!: diff_less gr_zeroI dest!: mp_write_zero_eq)

declare cut_parts.simps [simp del]

text \<open>The body of \<open>write\<close> on the locked buffer: the bookkeeping of the offset, then either the direct
  write of a non-sequential access to an existing file, or the append.\<close>

definition write_direct ::
  "'s operator \<Rightarrow> write_buffer_config \<Rightarrow> string \<Rightarrow> u64 \<Rightarrow> bytes \<Rightarrow> file_write_buffer \<times> 's net \<Rightarrow>
     nat result \<times> (file_write_buffer \<times> 's net)" where
  "write_direct op cfg path offset data st =
     (case flush_buffer op (wb_multipart_config cfg) st of
        (Inl e, st1) \<Rightarrow> (Inl e, st1)
      | (Inr _, (buf1, net1)) \<Rightarrow>
          (case oc_write op path data net1 of
             (Inl e, net2) \<Rightarrow> (Inl e, (buf1, net2))
           | (Inr _, net2) \<Rightarrow>
               (Inr (length data),
                (buf1\<lparr>fw_size := max (fw_size buf1) (offset + len64 data)\<rparr>, net2))))"

definition append_data :: "instant \<Rightarrow> u64 \<Rightarrow> bytes \<Rightarrow> file_write_buffer \<Rightarrow> file_write_buffer" where
  "append_data now offset data buf =
     buf\<lparr>fw_data := fw_data buf @ data, dirty := True, last_write := now,
         fw_size := max (fw_size buf) (offset + len64 data)\<rparr>"

definition start_multipart :: "nat \<Rightarrow> string \<Rightarrow> file_write_buffer \<Rightarrow> file_write_buffer" where
  "start_multipart threshold path buf =
     (if threshold \<le> length (fw_data buf) \<and> fw_multipart buf = None
      then buf\<lparr>fw_multipart := Some (upload_state_new path)\<rparr> else buf)"

definition flush_parts ::
  "write_buffer_config \<Rightarrow> file_write_buffer \<times> 's net \<Rightarrow> unit result \<times> (file_write_buffer \<times> 's net)" where
  "flush_parts cfg = (\<lambda>(buf, (mt, s)).
     (case fw_multipart buf of
        None \<Rightarrow> (Inr (), (buf, (mt, s)))
      | Some mp \<Rightarrow>
          (case cut_parts cfg (fw_data buf) (mp, mt) of
             (r, (data1, (mp1, mt1))) \<Rightarrow>
               (r, (buf\<lparr>fw_data := data1, fw_multipart := Some mp1\<rparr>, (mt1, s))))))"

definition write_append ::
  "'s operator \<Rightarrow> write_buffer_config \<Rightarrow> instant \<Rightarrow> string \<Rightarrow> u64 \<Rightarrow> bytes \<Rightarrow> file_write_buffer \<times> 's net \<Rightarrow>
     nat result \<times> (file_write_buffer \<times> 's net)" where
  "write_append op cfg now path offset data = (\<lambda>(buf, net).
     (case flush_parts cfg (start_multipart (multipart_threshold cfg) path (append_data now offset data buf), net) of
        (Inl e, st1) \<Rightarrow> (Inl e, st1)
      | (Inr _, (buf1, net1)) \<Rightarrow>
          if needs_flush (buffer_size cfg) buf1 \<and> fw_multipart buf1 = None
          then (case flush_buffer op (wb_multipart_config cfg) (buf1, net1) of
                  (Inl e, st2) \<Rightarrow> (Inl e, st2)
                | (Inr _, st2) \<Rightarrow> (Inr (length data), st2))
          else (Inr (length data), (buf1, net1))))"

definition note_offset :: "u64 \<Rightarrow> bytes \<Rightarrow> file_write_buffer \<Rightarrow> file_write_buffer" where
  "note_offset offset data buf =
     buf\<lparr>sequential_write := (if offset \<noteq> next_offset buf then False else sequential_write buf),
         next_offset := offset + len64 data\<rparr>"

definition write_locked ::
  "'s operator \<Rightarrow> write_buffer_config \<Rightarrow> instant \<Rightarrow> string \<Rightarrow> u64 \<Rightarrow> bytes \<Rightarrow> file_write_buffer \<times> 's net \<Rightarrow>
     nat result \<times> (file_write_buffer \<times> 's net)" where
  "write_locked op cfg now path offset data = (\<lambda>(buf, net).
     (let buf0 = note_offset offset data buf
      in if \<not> sequential_write buf0 \<and> 0 < original_size buf0
         then write_direct op cfg path offset data (buf0, net)
         else write_append op cfg now path offset data (buf0, net)))"

definition wb_write ::
  "'s operator \<Rightarrow> instant \<Rightarrow> u64 \<Rightarrow> string \<Rightarrow> u64 \<Rightarrow> bytes \<Rightarrow> u64 \<Rightarrow> 's wb_state \<Rightarrow> nat result \<times> 's wb_state" where
  "wb_write op now inode path offset data file_size = (\<lambda>(wb, net).
     (case get_or_create now inode path file_size wb of
        (buf, wb1) \<Rightarrow>
          (case write_locked op (wb_config wb) now path offset data (buf, net) of
             (r, (buf1, net1)) \<Rightarrow> (r, (wb1\<lparr>wb_buffers := dash_insert inode buf1 (wb_buffers wb1)\<rparr>, net1)))))"

definition truncate_locked ::
  "'s operator \<Rightarrow> string \<Rightarrow> u64 \<Rightarrow> file_write_buffer \<times> 's net \<Rightarrow> unit result \<times> (file_write_buffer \<times> 's net)" where
  "truncate_locked op path sz = (\<lambda>(buf, net).
     (let buf1 = buf\<lparr>fw_multipart := None, fw_data := [], fw_size := sz, dirty := True\<rparr>
      in if sz = 0
         then (case oc_write op path [] net of
                 (Inl e, net1) \<Rightarrow> (Inl e, (buf1, net1))
               | (Inr _, net1) \<Rightarrow> (Inr (), (buf1\<lparr>dirty := False\<rparr>, net1)))
         else (Inr (), (buf1, net))))"

definition wb_truncate ::
  "'s operator \<Rightarrow> instant \<Rightarrow> u64 \<Rightarrow> string \<Rightarrow> u64 \<Rightarrow> 's wb_state \<Rightarrow> unit result \<times> 's wb_state" where
  "wb_truncate op now inode path sz = (\<lambda>(wb, net).
     (case get_or_create now inode path sz wb of
        (buf, wb1) \<Rightarrow>
          (case truncate_locked op path sz (buf, net) of
             (r, (buf1, net1)) \<Rightarrow> (r, (wb1\<lparr>wb_buffers := dash_insert inode buf1 (wb_buffers wb1)\<rparr>, net1)))))"

definition dirty_buffers :: "write_buffer \<Rightarrow> u64 list" where
  "dirty_buffers wb = map fst (wb_buffers wb)"

record write_buffer_stats =
  buffer_count :: nat
  total_size :: nat
  dirty_count :: nat

definition wb_stats :: "write_buffer \<Rightarrow> write_buffer_stats" where
  "wb_stats wb =
     \<lparr>buffer_count = length (wb_buffers wb), total_size = dash_sum (\<lambda>b. length (fw_data b)) (wb_buffers wb),
      dirty_count = length (filter (\<lambda>e. dirty (snd e)) (wb_buffers wb))\<rparr>"

end
