(* ===== verification/WriteBufferProps.thy ===== *)
theory WriteBufferProps
  imports WriteBuffer
begin

text \<open>
  Properties of the write buffer: what reaches the store and when, the bound on what is held,
  and the cases in which data that was accepted is not stored.
\<close>

lemmas fw_defs = note_offset_def append_data_def start_multipart_def mark_flushed_def file_write_buffer_new_def

section \<open>The flush of one buffer\<close>

lemma flush_clean: "\<not> dirty buf \<or> fw_data buf = [] \<Longrightarrow> flush_buffer op mpc (buf, net) = (Inr (), (buf, net))"
  by (auto simp: flush_buffer_def)

lemma flush_put_ok:
  assumes "dirty buf" "fw_data buf \<noteq> []" "fw_multipart buf = None"
    and "oc_write op (fw_path buf) (fw_data buf) net = (Inr u, (mt1, s1))"
  shows "flush_buffer op mpc (buf, net) =
    (Inr (), (buf\<lparr>fw_data := [], dirty := False, original_size := fw_size buf\<rparr>, (inc_write_buffer_flush mt1, s1)))"
  using assms by (simp add: flush_buffer_def mark_flushed_def)

lemma flush_put_fails:
  assumes "dirty buf" "fw_data buf \<noteq> []" "fw_multipart buf = None"
    and "oc_write op (fw_path buf) (fw_data buf) net = (Inl e, net1)"
  shows "flush_buffer op mpc (buf, net) = (Inl e, (buf\<lparr>fw_data := []\<rparr>, net1))"
  using assms by (simp add: flush_buffer_def)

text \<open>A multipart flush with a positive part size returns and does not reach the store.\<close>

lemma mp_write_returns:
  assumes "0 < mp_part_size mpc"
  shows "\<exists>r. mp_write mpc d (st, mt) = (Inr (), r)"
proof -
  have l: "\<exists>r. upload_loop (mp_part_size mpc) st mt = Some r" for st mt
  proof (induction "length (us_buffer st)" arbitrary: st mt rule: less_induct)
    case less
    show ?case
    proof (cases "mp_part_size mpc \<le> length (us_buffer st)")
      case True
      then show ?thesis
        unfolding upload_loop_step [OF True]
        by (intro less.hyps) (use assms in \<open>simp add: upload_part_def Let_def\<close>)
    qed (simp add: upload_loop_stop)
  qed
  then show ?thesis by (auto simp: mp_write_def Let_def) (metis option.simps(5))
qed

lemma mp_complete_returns: "\<exists>r. mp_complete st = (Inr (), r)"
  by (auto simp: mp_complete_def take_remaining_def split: prod.splits)

lemma flush_multipart:
  assumes "dirty buf" "fw_data buf \<noteq> []" "fw_multipart buf = Some mp" "0 < mp_part_size mpc"
  shows "\<exists>mt1. flush_buffer op mpc (buf, (mt, s)) =
    (Inr (), (buf\<lparr>fw_data := [], fw_multipart := None, dirty := False, original_size := fw_size buf\<rparr>, (mt1, s)))"
proof -
  obtain mp1 mt1 where w: "mp_write mpc (fw_data buf) (mp, mt) = (Inr (), (mp1, mt1))"
    using mp_write_returns [OF assms(4), of "fw_data buf" mp mt] by auto
  obtain mp2 mt2 where c: "mp_complete (mp1, mt1) = (Inr (), (mp2, mt2))"
    using mp_complete_returns [of "(mp1, mt1)"] by auto
  show ?thesis using assms(1-3) w c by (simp add: flush_buffer_def mark_flushed_def)
qed

text \<open>C31 (multipart data never reaches the store): with a positive part size (a part size of zero hangs,
  C40), the flush of a dirty buffer whose upload has gone multipart reports success, leaves no data in the
  buffer and leaves the store exactly as it was: the bytes it accepted are gone. If the buffer held bytes
  beyond the last full part, the upload is completed and the buffer marked clean; if it held none, the flush
  returns early and the buffer stays as it is, dirty and multipart.\<close>

theorem multipart_flush_stores_nothing:
  assumes "dirty buf" "fw_multipart buf = Some mp" "0 < wbc_part_size cfg"
  shows "\<exists>buf' mt'. flush_buffer op (wb_multipart_config cfg) (buf, (mt, s)) = (Inr (), (buf', (mt', s))) \<and>
     fw_data buf' = [] \<and>
     (if fw_data buf = [] then buf' = buf else fw_multipart buf' = None \<and> \<not> dirty buf')"
proof (cases "fw_data buf = []")
  case True
  then show ?thesis by (simp add: flush_buffer_def)
next
  case False
  then show ?thesis
    using flush_multipart [OF assms(1) False assms(2), of "wb_multipart_config cfg" op mt s] assms(3)
    by (auto simp: wb_multipart_config_def)
qed

definition busy_buffer :: file_write_buffer where
  "busy_buffer = (file_write_buffer_new 0 2 ''f'' 0)
     \<lparr>fw_data := [1, 2, 3], dirty := True, fw_size := 3, next_offset := 3\<rparr>"

definition small_config :: write_buffer_config where
  "small_config = \<lparr>buffer_size = 4, flush_interval = secs 30, multipart_threshold = 8, wbc_part_size = 2\<rparr>"

lemma multipart_flush_stores_nothing_witness:
  "\<exists>buf' mt'. flush_buffer map_operator (wb_multipart_config small_config)
       (busy_buffer\<lparr>fw_multipart := Some (upload_state_new ''f'')\<rparr>, (metrics_new, \<lparr>ms_objects = [], ms_broken = []\<rparr>))
     = (Inr (), (buf', (mt', \<lparr>ms_objects = [], ms_broken = []\<rparr>))) \<and> fw_data buf' = [] \<and> \<not> dirty buf'"
  using multipart_flush_stores_nothing [of "busy_buffer\<lparr>fw_multipart := Some (upload_state_new ''f'')\<rparr>"
      "upload_state_new ''f''" small_config map_operator metrics_new "\<lparr>ms_objects = [], ms_broken = []\<rparr>"]
  by (auto simp: busy_buffer_def small_config_def fw_defs)

text \<open>C32 (a failed flush drops the data): when the put of the flush of a dirty buffer that has not gone
  multipart fails, the error is reported, but the buffered bytes are already gone: the next flush of the
  same buffer reports success without contacting the store.\<close>

theorem failed_flush_drops_data:
  assumes "dirty buf" "fw_data buf \<noteq> []" "fw_multipart buf = None"
    and "oc_write op (fw_path buf) (fw_data buf) net = (Inl e, net1)"
  shows "\<exists>buf1. flush_buffer op mpc (buf, net) = (Inl e, (buf1, net1)) \<and> fw_data buf1 = [] \<and>
     flush_buffer op mpc (buf1, net1) = (Inr (), (buf1, net1))"
  using flush_put_fails [OF assms] flush_clean [of "buf\<lparr>fw_data := []\<rparr>"]
  by (intro exI [of _ "buf\<lparr>fw_data := []\<rparr>"]) simp

lemma failed_flush_drops_data_witness:
  "\<exists>buf1 net1. flush_buffer map_operator (wb_multipart_config small_config)
       (busy_buffer, (metrics_new, \<lparr>ms_objects = [], ms_broken = [''f'']\<rparr>)) = (Inl (Err (Storage OdUnexpected)), (buf1, net1)) \<and>
     flush_buffer map_operator (wb_multipart_config small_config) (buf1, net1) = (Inr (), (buf1, net1))"
proof -
  let ?net = "(metrics_new, \<lparr>ms_objects = [], ms_broken = [''f'']\<rparr>)"
  have b: "dirty busy_buffer" "fw_data busy_buffer \<noteq> []" "fw_multipart busy_buffer = None"
    by (simp_all add: busy_buffer_def fw_defs)
  have "fw_path busy_buffer = ''f''" by (simp add: busy_buffer_def fw_defs)
  then obtain net1 where w: "oc_write map_operator (fw_path busy_buffer) (fw_data busy_buffer) ?net =
      (Inl (Err (Storage OdUnexpected)), net1)"
    by (simp add: oc_write_def map_operator_def)
  from failed_flush_drops_data [OF b w, of "wb_multipart_config small_config"] show ?thesis by blast
qed

section \<open>The invariant of a buffer and the bound on what it holds\<close>

text \<open>A clean buffer holds no data.\<close>

definition fw_ok :: "file_write_buffer \<Rightarrow> bool" where
  "fw_ok buf \<longleftrightarrow> (dirty buf \<or> fw_data buf = [])"

lemma fw_ok_new [simp, wf_intros]: "fw_ok (file_write_buffer_new now i p sz)"
  by (simp add: fw_ok_def fw_defs)

lemma flush_result:
  assumes "flush_buffer op mpc (buf, net) = (r, (buf1, net1))" "fw_ok buf"
  shows "fw_data buf1 = [] \<and> fw_ok buf1"
  using assms
  by (auto simp: flush_buffer_def fw_ok_def mark_flushed_def split: if_splits option.splits prod.splits sum.splits)

lemma cut_parts_result:
  "cut_parts cfg data r = (Inr u, (data1, r1)) \<Longrightarrow> length data1 < wbc_part_size cfg \<and> length data1 \<le> length data"
proof (induction cfg data r rule: cut_parts.induct)
  case (1 cfg data r)
  show ?case
  proof (cases "wbc_part_size cfg \<le> length data")
    case True
    obtain x r2 where m: "mp_write (wb_multipart_config cfg) (take (wbc_part_size cfg) data) r = (x, r2)"
      by (rule prod.exhaust)
    show ?thesis
    proof (cases x)
      case (Inl e)
      with True m "1.prems" show ?thesis by (simp add: cut_parts.simps [of cfg data r])
    next
      case (Inr v)
      with True m "1.prems" have "cut_parts cfg (drop (wbc_part_size cfg) data) r2 = (Inr u, (data1, r1))"
        by (simp add: cut_parts.simps [of cfg data r])
      from "1.IH" [OF True m [symmetric] Inr this] show ?thesis by simp linarith
    qed
  next
    case False
    with "1.prems" show ?thesis by (simp add: cut_parts.simps [of cfg data r])
  qed
qed

text \<open>C22 (what a buffer holds is bounded): after a write that returns, the buffer of the file is empty, or
  it holds strictly less than the configured buffer size when no multipart upload is running and strictly
  less than a part when one is, whatever was written; and the write reports the full length of its data.
  The buffer before the write must hold no data when it is marked clean, which every operation keeps
  (part of the invariant of C3).\<close>

theorem write_keeps_buffer_bounded:
  assumes "write_locked op cfg now path offset data (buf, net) = (Inr n, (buf1, net1))" "fw_ok buf"
  shows "fw_ok buf1 \<and> n = length data \<and>
     (fw_data buf1 = [] \<or>
      length (fw_data buf1) < (if fw_multipart buf1 = None then buffer_size cfg else wbc_part_size cfg))"
proof -
  let ?b = "note_offset offset data buf"
  have ok: "fw_ok ?b" using assms(2) by (simp add: fw_ok_def note_offset_def)
  show ?thesis
  proof (cases "\<not> sequential_write ?b \<and> 0 < original_size ?b")
    case True
    then have "write_direct op cfg path offset data (?b, net) = (Inr n, (buf1, net1))"
      using assms(1) by (simp add: write_locked_def Let_def)
    then show ?thesis
      using flush_result [OF _ ok]
      by (fastforce simp: write_direct_def fw_ok_def split: prod.splits sum.splits)
  next
    case False
    then have w: "write_append op cfg now path offset data (?b, net) = (Inr n, (buf1, net1))"
      using assms(1) by (auto simp: write_locked_def Let_def)
    let ?c = "start_multipart (multipart_threshold cfg) path (append_data now offset data ?b)"
    obtain x d net2 where f: "flush_parts cfg (?c, net) = (x, (d, net2))" by (metis prod.exhaust)
    obtain u where x: "x = Inr u" using w f by (cases x) (auto simp: write_append_def)
    have dd: "dirty d"
      using f by (auto simp: flush_parts_def fw_defs split: option.splits prod.splits if_splits)
    have small: "fw_multipart d \<noteq> None \<longrightarrow> length (fw_data d) < wbc_part_size cfg"
      using f x by (auto simp: flush_parts_def split: option.splits prod.splits dest: cut_parts_result)
    show ?thesis
    proof (cases "needs_flush (buffer_size cfg) d \<and> fw_multipart d = None")
      case True
      then obtain v where "flush_buffer op (wb_multipart_config cfg) (d, net2) = (Inr v, (buf1, net1))" "n = length data"
        using w f x by (auto simp: write_append_def split: prod.splits sum.splits)
      with flush_result [of op "wb_multipart_config cfg" d net2] dd show ?thesis by (auto simp: fw_ok_def)
    next
      case False
      then have "buf1 = d" "n = length data" using w f x by (auto simp: write_append_def)
      with False small dd show ?thesis by (auto simp: fw_ok_def needs_flush_def)
    qed
  qed
qed

lemma write_keeps_buffer_bounded_witness:
  "\<exists>buf1 net1. write_locked map_operator small_config 1 ''f'' 3 [4] (busy_buffer, (metrics_new, \<lparr>ms_objects = [], ms_broken = []\<rparr>))
       = (Inr 1, (buf1, net1)) \<and>
     (fw_data buf1 = [] \<or> length (fw_data buf1) < (if fw_multipart buf1 = None then 4 else 2))"
proof -
  let ?net = "(metrics_new, \<lparr>ms_objects = [], ms_broken = []\<rparr>)"
  obtain buf1 net1 where w: "write_locked map_operator small_config 1 ''f'' 3 [4] (busy_buffer, ?net) = (Inr 1, (buf1, net1))"
    by (simp add: write_locked_def write_append_def flush_parts_def flush_buffer_def oc_write_def map_operator_def
        busy_buffer_def small_config_def needs_flush_def fw_defs Let_def len64_def)
  have "fw_ok busy_buffer" by (simp add: busy_buffer_def fw_ok_def fw_defs)
  from write_keeps_buffer_bounded [OF w this] w show ?thesis by (auto simp: small_config_def)
qed

section \<open>Sequential writes reach the store\<close>

text \<open>A write at the expected offset that stays below both thresholds only appends.\<close>

lemma write_locked_quiet:
  assumes "next_offset buf = off" "sequential_write buf" "fw_multipart buf = None"
    and "length (fw_data buf @ d) < buffer_size cfg" "length (fw_data buf @ d) < multipart_threshold cfg"
  shows "write_locked op cfg now path off d (buf, net) =
    (Inr (length d), (append_data now off d (note_offset off d buf), net))"
  using assms
  by (cases net)
    (simp add: write_locked_def write_append_def flush_parts_def needs_flush_def fw_defs Let_def)

fun seq_writes ::
  "'s operator \<Rightarrow> u64 \<Rightarrow> string \<Rightarrow> u64 \<Rightarrow> (instant \<times> bytes) list \<Rightarrow> 's wb_state \<Rightarrow> unit result \<times> 's wb_state" where
  "seq_writes op i path off [] st = (Inr (), st)"
| "seq_writes op i path off ((now, d) # ds) st =
     (case wb_write op now i path off d off st of
        (Inr _, st1) \<Rightarrow> seq_writes op i path (off + len64 d) ds st1
      | (Inl e, st1) \<Rightarrow> (Inl e, st1))"

definition collects :: "string \<Rightarrow> u64 \<Rightarrow> bytes \<Rightarrow> file_write_buffer \<Rightarrow> bool" where
  "collects path off data buf \<longleftrightarrow>
     fw_path buf = path \<and> fw_data buf = data \<and> dirty buf \<and> fw_multipart buf = None \<and>
     sequential_write buf \<and> next_offset buf = off"

abbreviation fits :: "write_buffer_config \<Rightarrow> bytes \<Rightarrow> bool" where
  "fits cfg data \<equiv> length data < buffer_size cfg \<and> length data < multipart_threshold cfg"

lemma seq_writes_collect:
  assumes "dash_get (wb_buffers wb) i = Some buf" "collects path off data buf"
    and "fits (wb_config wb) (data @ concat (map snd ds))"
  shows "\<exists>buf1. seq_writes op i path off ds (wb, net) =
      (Inr (), (wb\<lparr>wb_buffers := dash_insert i buf1 (wb_buffers wb)\<rparr>, net)) \<and>
    (\<exists>off1. collects path off1 (data @ concat (map snd ds)) buf1)"
  using assms
proof (induction ds arbitrary: wb buf data off)
  case Nil
  then have "dash_insert i buf (wb_buffers wb) = wb_buffers wb"
    by (simp add: update_triv)
  then show ?case using Nil by (intro exI [of _ buf]) auto
next
  case (Cons e ds)
  obtain now d where e: "e = (now, d)" by (cases e)
  let ?b = "append_data now off d (note_offset off d buf)"
  let ?wb = "wb\<lparr>wb_buffers := dash_insert i ?b (wb_buffers wb)\<rparr>"
  have "write_locked op (wb_config wb) now path off d (buf, net) = (Inr (length d), (?b, net))"
    using Cons.prems by (intro write_locked_quiet) (auto simp: collects_def e)
  then have w: "wb_write op now i path off d off (wb, net) = (Inr (length d), (?wb, net))"
    using Cons.prems(1) by (simp add: wb_write_def get_or_create_def)
  have c: "collects path (off + len64 d) (data @ d) ?b"
    using Cons.prems(2) by (simp add: collects_def fw_defs)
  have f: "fits (wb_config ?wb) ((data @ d) @ concat (map snd ds))"
    using Cons.prems(3) by (simp add: e)
  have g: "dash_get (wb_buffers ?wb) i = Some ?b" by simp
  from Cons.IH [OF g c f] show ?case by (simp add: e w)
qed

lemma seq_writes_new:
  assumes "dash_get (wb_buffers wb) i = None" "ds \<noteq> []" "fits (wb_config wb) (concat (map snd ds))"
  shows "\<exists>buf1. seq_writes op i path 0 ds (wb, net) =
      (Inr (), (wb\<lparr>wb_buffers := dash_insert i buf1 (wb_buffers wb)\<rparr>, net)) \<and>
    (\<exists>off1. collects path off1 (concat (map snd ds)) buf1)"
proof -
  obtain now d ds1 where ds: "ds = (now, d) # ds1" using assms(2) by (metis list.exhaust prod.exhaust)
  let ?fresh = "file_write_buffer_new now i path 0"
  let ?b = "append_data now 0 d (note_offset 0 d ?fresh)"
  let ?wb = "wb\<lparr>wb_buffers := dash_insert i ?b (wb_buffers wb)\<rparr>"
  have "write_locked op (wb_config wb) now path 0 d (?fresh, net) = (Inr (length d), (?b, net))"
    using assms(3) by (intro write_locked_quiet) (auto simp: ds fw_defs)
  then have w: "wb_write op now i path 0 d 0 (wb, net) = (Inr (length d), (?wb, net))"
    using assms(1) by (simp add: wb_write_def get_or_create_def Let_def)
  have c: "collects path (0 + len64 d) d ?b" by (simp add: collects_def fw_defs)
  have f: "fits (wb_config ?wb) (d @ concat (map snd ds1))" using assms(3) by (simp add: ds)
  have g: "dash_get (wb_buffers ?wb) i = Some ?b" by simp
  from seq_writes_collect [OF g c f] show ?thesis by (simp add: ds w)
qed

text \<open>C12 (a small new file is stored as written): with a store that behaves as documented, a new file
  written sequentially in any number of chunks whose total stays below the buffer size and the
  multipart threshold touches the store only at the release, and then the object is exactly the
  concatenation of the chunks, every other object is unchanged, and the buffer is gone.\<close>

theorem sequential_write_stored:
  assumes "faithful_store op obj" "dash_get (wb_buffers wb) i = None"
    and "concat (map snd ds) \<noteq> []" "fits (wb_config wb) (concat (map snd ds))"
    and "seq_writes op i path 0 ds (wb, (mt, s)) = (r, (wb1, (mt1, s1)))"
    and "wb_release op i (wb1, (mt1, s1)) = (Inr u, (wb2, (mt2, s2)))"
  shows "r = Inr () \<and> s1 = s \<and> obj s2 = (obj s)(path \<mapsto> concat (map snd ds)) \<and>
     dash_get (wb_buffers wb2) i = None"
proof -
  have "ds \<noteq> []" using assms(3) by auto
  from seq_writes_new [OF assms(2) this assms(4), of op path "(mt, s)"] assms(5)
  obtain buf off where b: "r = Inr ()" "wb1 = wb\<lparr>wb_buffers := dash_insert i buf (wb_buffers wb)\<rparr>"
      "mt1 = mt" "s1 = s" "collects path off (concat (map snd ds)) buf" by auto
  obtain x mt3 s3 where w: "oc_write op path (concat (map snd ds)) (mt, s) = (x, (mt3, s3))"
    by (metis prod.exhaust)
  show ?thesis
  proof (cases x)
    case (Inl e)
    have "flush_buffer op (wb_multipart_config (wb_config wb)) (buf, (mt, s)) = (Inl e, (buf\<lparr>fw_data := []\<rparr>, (mt3, s3)))"
      using b(5) assms(3) w Inl by (intro flush_put_fails) (auto simp: collects_def)
    then have False using assms(6) b by (simp add: wb_release_def)
    then show ?thesis ..
  next
    case (Inr v)
    have "flush_buffer op (wb_multipart_config (wb_config wb)) (buf, (mt, s)) =
        (Inr (), (buf\<lparr>fw_data := [], dirty := False, original_size := fw_size buf\<rparr>, (inc_write_buffer_flush mt3, s3)))"
      using b(5) assms(3) w Inr by (intro flush_put_ok) (auto simp: collects_def)
    then have "s2 = s3" "wb_buffers wb2 = dash_remove i (wb_buffers wb1)"
      using assms(6) b by (auto simp: wb_release_def)
    moreover have "obj s3 = (obj s)(path \<mapsto> concat (map snd ds))"
      using oc_write_ok [OF assms(1)] w Inr by blast
    ultimately show ?thesis using b by simp
  qed
qed

lemma sequential_write_stored_witness:
  "\<exists>st1 st2. seq_writes map_operator 2 ''f'' 0 [(1, [1]), (2, [2, 3])]
       (wb_new small_config, (metrics_new, \<lparr>ms_objects = [], ms_broken = []\<rparr>)) = (Inr (), st1) \<and>
     wb_release map_operator 2 st1 = (Inr (), st2) \<and> ms_obj (snd (snd st2)) ''f'' = Some [1, 2, 3]"
proof -
  let ?st = "(wb_new small_config, (metrics_new, \<lparr>ms_objects = [], ms_broken = []\<rparr>))"
  let ?ds = "[(1, [1]), (2, [2, 3])] :: (instant \<times> bytes) list"
  have new: "dash_get (wb_buffers (wb_new small_config)) 2 = None" by (simp add: wb_new_def)
  have fit: "fits (wb_config (wb_new small_config)) (concat (map snd ?ds))"
    by (simp add: wb_new_def small_config_def)
  obtain wb1 mt1 s1 where w: "seq_writes map_operator 2 ''f'' 0 ?ds ?st = (Inr (), (wb1, (mt1, s1)))"
    using seq_writes_new [OF new _ fit, of map_operator "''f''" "snd ?st"] by auto
  have ne: "concat (map snd ?ds) \<noteq> []" by simp
  obtain r wb2 mt2 s2 where rel: "wb_release map_operator 2 (wb1, (mt1, s1)) = (r, (wb2, (mt2, s2)))"
    by (metis prod.exhaust)
  have "r = Inr ()"
    using w rel
    by (auto simp: wb_write_def write_locked_def write_append_def flush_parts_def flush_buffer_def oc_write_def
        map_operator_def wb_release_def get_or_create_def wb_new_def small_config_def needs_flush_def fw_defs
        Let_def len64_def)
  with rel have rel': "wb_release map_operator 2 (wb1, (mt1, s1)) = (Inr (), (wb2, (mt2, s2)))" by simp
  have "ms_obj s2 = (ms_obj \<lparr>ms_objects = [], ms_broken = []\<rparr>)(''f'' \<mapsto> concat (map snd ?ds))"
    using sequential_write_stored [OF map_operator_faithful new ne fit w rel'] by blast
  with w rel' show ?thesis by auto
qed

section \<open>Writes that lose what was stored\<close>

text \<open>A second flush overwrites the first: the put of a flush replaces the object with what was
  buffered since the last flush. When a file is flushed and then written further at its end, the
  next flush leaves an object that holds only the later data: the earlier bytes are lost.\<close>

theorem later_flush_replaces_object:
  assumes "faithful_store op obj" "collects path off d1 buf" "d1 \<noteq> []" "d2 \<noteq> []" "fits cfg d2"
    and "flush_buffer op (wb_multipart_config cfg) (buf, (mt, s)) = (Inr u, (buf1, (mt1, s1)))"
    and "write_locked op cfg now path off d2 (buf1, (mt1, s1)) = (Inr n, (buf2, (mt2, s2)))"
    and "flush_buffer op (wb_multipart_config cfg) (buf2, (mt2, s2)) = (Inr v, (buf3, (mt3, s3)))"
  shows "obj s1 path = Some d1 \<and> obj s3 path = Some d2"
proof -
  have put: "\<exists>w mt' s'. oc_write op path d (m, t) = (Inr w, (mt', s')) \<and> s'' = s' \<and>
        b' = b\<lparr>fw_data := [], dirty := False, original_size := fw_size b\<rparr>"
    if "collects path o1 d b" "d \<noteq> []"
      "flush_buffer op (wb_multipart_config cfg) (b, (m, t)) = (Inr x, (b', (m', s'')))"
    for o1 d b m t x b' m' s''
  proof -
    obtain y mt' s' where y: "oc_write op path d (m, t) = (y, (mt', s'))" by (metis prod.exhaust)
    show ?thesis
      using that y by (cases y) (auto simp: collects_def flush_buffer_def mark_flushed_def)
  qed
  obtain w mt' s' where 1: "oc_write op path d1 (mt, s) = (Inr w, (mt', s'))" "s1 = s'"
      "buf1 = buf\<lparr>fw_data := [], dirty := False, original_size := fw_size buf\<rparr>"
    using put [OF assms(2,3,6)] by blast
  have "write_locked op cfg now path off d2 (buf1, (mt1, s1)) =
      (Inr (length d2), (append_data now off d2 (note_offset off d2 buf1), (mt1, s1)))"
    using assms(2,5) 1(3) by (intro write_locked_quiet) (auto simp: collects_def)
  then have 2: "buf2 = append_data now off d2 (note_offset off d2 buf1)" using assms(7) by simp
  have c: "collects path (off + len64 d2) d2 buf2"
    using assms(2) by (simp add: 2 1(3) collects_def fw_defs)
  obtain w' mt'' s'' where 3: "oc_write op path d2 (mt2, s2) = (Inr w', (mt'', s''))" "s3 = s''"
    using put [OF c assms(4,8)] by blast
  show ?thesis
    using oc_write_ok [OF assms(1) 1(1)] oc_write_ok [OF assms(1) 3(1)] 1(2) 3(2) by simp
qed

lemma later_flush_replaces_object_witness:
  "\<exists>b1 n1 b2 n2 b3 n3.
     flush_buffer map_operator (wb_multipart_config small_config)
       (busy_buffer, (metrics_new, \<lparr>ms_objects = [], ms_broken = []\<rparr>)) = (Inr (), (b1, n1)) \<and>
     write_locked map_operator small_config 2 ''f'' 3 [4, 5] (b1, n1) = (Inr 2, (b2, n2)) \<and>
     flush_buffer map_operator (wb_multipart_config small_config) (b2, n2) = (Inr (), (b3, n3)) \<and>
     ms_obj (snd n1) ''f'' = Some [1, 2, 3] \<and> ms_obj (snd n3) ''f'' = Some [4, 5]"
proof -
  let ?net = "(metrics_new, \<lparr>ms_objects = [], ms_broken = []\<rparr>)"
  have c: "collects ''f'' 3 [1, 2, 3] busy_buffer" by (simp add: collects_def busy_buffer_def fw_defs)
  have f: "fits small_config [4, 5]" by (simp add: small_config_def)
  note evals = write_locked_def write_append_def flush_parts_def flush_buffer_def oc_write_def
    map_operator_def busy_buffer_def small_config_def needs_flush_def fw_defs len64_def
  obtain b1 mt1 s1 where 1: "flush_buffer map_operator (wb_multipart_config small_config) (busy_buffer, ?net) = (Inr (), (b1, (mt1, s1)))"
    by (simp add: evals)
  have b1: "b1 = busy_buffer\<lparr>fw_data := [], dirty := False, original_size := 3\<rparr>" "ms_broken s1 = []"
    using 1 by (auto simp: evals)
  obtain b2 mt2 s2 where 2: "write_locked map_operator small_config 2 ''f'' 3 [4, 5] (b1, (mt1, s1)) = (Inr 2, (b2, (mt2, s2)))"
    by (simp add: evals b1 Let_def)
  have b2: "fw_data b2 = [4, 5]" "dirty b2" "fw_multipart b2 = None" "s2 = s1" "fw_path b2 = ''f''"
    using 2 by (auto simp: evals b1 Let_def)
  obtain b3 mt3 s3 where 3: "flush_buffer map_operator (wb_multipart_config small_config) (b2, (mt2, s2)) = (Inr (), (b3, (mt3, s3)))"
    using b2 b1(2) by (simp add: flush_buffer_def oc_write_def map_operator_def mark_flushed_def)
  from later_flush_replaces_object [OF map_operator_faithful c _ _ f 1 2 3] 1 2 3 show ?thesis by fastforce
qed

text \<open>A write inside an existing file replaces it: a write that returns at an offset other than
  the expected one, to a file that had data, leaves an object that consists of just the bytes of
  that write, and keeps recording a size that covers the offset.\<close>

theorem random_write_replaces_object:
  assumes "faithful_store op obj" "off \<noteq> next_offset buf" "0 < original_size buf"
    and "write_locked op cfg now path off d (buf, (mt, s)) = (Inr n, (buf1, (mt1, s1)))"
  shows "n = length d \<and> obj s1 path = Some d \<and> off + len64 d \<le> fw_size buf1"
proof -
  let ?b = "note_offset off d buf"
  obtain x b2 mt2 s2 where f: "flush_buffer op (wb_multipart_config cfg) (?b, (mt, s)) = (x, (b2, (mt2, s2)))"
    by (metis prod.exhaust)
  obtain y mt3 s3 where w: "oc_write op path d (mt2, s2) = (y, (mt3, s3))" by (metis prod.exhaust)
  have "write_direct op cfg path off d (?b, (mt, s)) = (Inr n, (buf1, (mt1, s1)))"
    using assms(2-4) by (simp add: write_locked_def note_offset_def Let_def)
  then have "\<exists>u. y = Inr u" "n = length d" "s1 = s3" "buf1 = b2\<lparr>fw_size := max (fw_size b2) (off + len64 d)\<rparr>"
    using f w by (auto simp: write_direct_def split: sum.splits)
  with oc_write_ok [OF assms(1)] w show ?thesis by fastforce
qed

lemma random_write_replaces_object_witness:
  "\<exists>buf1 mt1 s1. write_locked map_operator small_config 1 ''f'' 2 [9]
       (file_write_buffer_new 0 2 ''f'' 5, (metrics_new, \<lparr>ms_objects = [(''f'', [1, 2, 3, 4, 5])], ms_broken = []\<rparr>))
     = (Inr 1, (buf1, (mt1, s1))) \<and> ms_obj s1 ''f'' = Some [9]"
proof -
  let ?net = "(metrics_new, \<lparr>ms_objects = [(''f'', [1, 2, 3, 4, 5])], ms_broken = []\<rparr>)"
  let ?b = "file_write_buffer_new 0 2 ''f'' 5"
  have b: "2 \<noteq> next_offset ?b" "0 < original_size ?b" by (simp_all add: fw_defs)
  obtain buf1 mt1 s1 where w: "write_locked map_operator small_config 1 ''f'' 2 [9] (?b, ?net) = (Inr 1, (buf1, (mt1, s1)))"
    by (simp add: write_locked_def write_direct_def flush_buffer_def oc_write_def map_operator_def fw_defs Let_def)
  from random_write_replaces_object [OF map_operator_faithful b w] w show ?thesis by blast
qed

section \<open>Truncation and the flush of all buffers\<close>

text \<open>Truncation: a truncation that returns drops the buffered bytes and any multipart upload and
  records the new size. At size zero the object becomes empty. At any other size the store is not
  changed at all, and the flush that follows does nothing.\<close>

theorem truncate_effect:
  assumes "faithful_store op obj" "truncate_locked op path sz (buf, (mt, s)) = (Inr u, (buf1, (mt1, s1)))"
  shows "fw_data buf1 = [] \<and> fw_multipart buf1 = None \<and> fw_size buf1 = sz \<and>
     (sz = 0 \<longrightarrow> obj s1 = (obj s)(path \<mapsto> []) \<and> \<not> dirty buf1) \<and>
     (sz \<noteq> 0 \<longrightarrow> s1 = s \<and> flush_buffer op mpc (buf1, (mt1, s1)) = (Inr (), (buf1, (mt1, s1))))"
proof -
  obtain x mt2 s2 where w: "oc_write op path [] (mt, s) = (x, (mt2, s2))" by (metis prod.exhaust)
  show ?thesis
  proof (cases "sz = 0")
    case True
    then have "\<exists>v. x = Inr v" "s1 = s2" "fw_data buf1 = []" "fw_multipart buf1 = None" "fw_size buf1 = sz" "\<not> dirty buf1"
      using assms(2) w by (auto simp: truncate_locked_def Let_def split: sum.splits)
    with True w oc_write_ok [OF assms(1)] show ?thesis by auto
  next
    case False
    then show ?thesis using assms(2) by (auto simp: truncate_locked_def Let_def intro!: flush_clean)
  qed
qed

lemma truncate_effect_witness:
  "\<exists>buf1 mt1 s1. truncate_locked map_operator ''f'' 0
       (busy_buffer, (metrics_new, \<lparr>ms_objects = [(''f'', [1, 2])], ms_broken = []\<rparr>)) = (Inr (), (buf1, (mt1, s1))) \<and>
     ms_obj s1 ''f'' = Some []"
proof -
  let ?net = "(metrics_new, \<lparr>ms_objects = [(''f'', [1, 2])], ms_broken = []\<rparr>)"
  obtain buf1 mt1 s1 where t: "truncate_locked map_operator ''f'' 0 (busy_buffer, ?net) = (Inr (), (buf1, (mt1, s1)))"
    by (simp add: truncate_locked_def oc_write_def map_operator_def Let_def)
  from truncate_effect [OF map_operator_faithful t] t show ?thesis by fastforce
qed

lemma flush_entries_empties:
  "flush_entries op mpc dirty es net = (Inr u, (es1, net1)) \<Longrightarrow> \<forall>e \<in> set es. fw_ok (snd e) \<Longrightarrow>
     map fst es1 = map fst es \<and> (\<forall>e \<in> set es1. fw_data (snd e) = [] \<and> fw_ok (snd e))"
proof (induction op mpc "dirty :: file_write_buffer \<Rightarrow> bool" es net arbitrary: es1 net1 rule: flush_entries.induct)
  case (2 op mpc i buf es net)
  show ?case
  proof (cases "dirty buf")
    case True
    obtain x b n where f: "flush_buffer op mpc (buf, net) = (x, (b, n))" by (metis prod.exhaust)
    obtain y es2 n2 where r: "flush_entries op mpc dirty es n = (y, (es2, n2))" by (metis prod.exhaust)
    obtain v where x: "x = Inr v" using True f "2.prems"(1) by (cases x) auto
    have y: "y = Inr u" "es1 = (i, b) # es2" using True f x r "2.prems"(1) by auto
    have fb: "fw_data b = [] \<and> fw_ok b" using flush_result [OF f] "2.prems"(2) by simp
    have "map fst es2 = map fst es \<and> (\<forall>e \<in> set es2. fw_data (snd e) = [] \<and> fw_ok (snd e))"
      using "2.hyps"(1) [OF True f [symmetric] x refl] r y(1) "2.prems"(2) by auto
    with fb y(2) show ?thesis by simp
  next
    case False
    obtain y es2 n2 where r: "flush_entries op mpc dirty es net = (y, (es2, n2))" by (metis prod.exhaust)
    have y: "y = Inr u" "es1 = (i, buf) # es2" using False r "2.prems"(1) by auto
    have "map fst es2 = map fst es \<and> (\<forall>e \<in> set es2. fw_data (snd e) = [] \<and> fw_ok (snd e))"
      using "2.hyps"(2) [OF False] r y(1) "2.prems"(2) by auto
    with False y(2) "2.prems"(2) show ?thesis by (simp add: fw_ok_def)
  qed
qed simp

text \<open>Flushing everything: when the flush of all buffers returns without error, every buffer is
  still there and none holds unwritten data.\<close>

theorem flush_all_empties:
  assumes "wb_flush_all op (wb, net) = (Inr u, (wb1, net1))" "\<forall>e \<in> set (wb_buffers wb). fw_ok (snd e)"
  shows "dirty_buffers wb1 = dirty_buffers wb \<and> total_size (wb_stats wb1) = 0"
proof -
  obtain es1 where f: "flush_entries op (wb_multipart_config (wb_config wb)) dirty (wb_buffers wb) net = (Inr u, (es1, net1))"
      "wb1 = wb\<lparr>wb_buffers := es1\<rparr>"
    using assms(1) by (auto simp: wb_flush_all_def split: prod.splits)
  have e: "map fst es1 = map fst (wb_buffers wb)" "\<forall>e \<in> set es1. fw_data (snd e) = []"
    using flush_entries_empties [OF f(1) assms(2)] by auto
  then have "dash_sum (\<lambda>b. length (fw_data b)) es1 = 0" by (simp add: dash_sum_def sum_list_eq_0_iff)
  with e f(2) show ?thesis by (simp add: dirty_buffers_def wb_stats_def)
qed

lemma flush_all_empties_witness:
  "\<exists>wb1 net1. wb_flush_all map_operator ((wb_new small_config)\<lparr>wb_buffers := [(2, busy_buffer)]\<rparr>,
       (metrics_new, \<lparr>ms_objects = [], ms_broken = []\<rparr>)) = (Inr (), (wb1, net1)) \<and> total_size (wb_stats wb1) = 0"
proof -
  let ?wb = "(wb_new small_config)\<lparr>wb_buffers := [(2, busy_buffer)]\<rparr>"
  let ?net = "(metrics_new, \<lparr>ms_objects = [], ms_broken = []\<rparr>)"
  obtain wb1 net1 where w: "wb_flush_all map_operator (?wb, ?net) = (Inr (), (wb1, net1))"
    by (simp add: wb_flush_all_def wb_new_def busy_buffer_def flush_buffer_def oc_write_def map_operator_def fw_defs)
  have ok: "\<forall>e \<in> set (wb_buffers ?wb). fw_ok (snd e)" by (simp add: busy_buffer_def fw_ok_def fw_defs)
  from flush_all_empties [OF w ok] w show ?thesis by blast
qed

end
