(* ===== verification/Float64.thy ===== *)
theory Float64
  imports Prelude Complex_Main
begin

text \<open>
  The \<open>f64\<close> arithmetic that the retry delays use: values with 53 significant bits and exponents down to
  -1074, rounding to the nearest value with ties to even, infinities and NaN. The two zeros are one
  value here, since nothing tells them apart in what the code computes from them. The conversions of
  \<open>Duration\<close> to and from seconds follow the standard library.
\<close>

section \<open>Rounding\<close>

text \<open>To the nearest integer, ties to even.\<close>

definition nearest :: "rat \<Rightarrow> int" where
  "nearest x =
     (let f = \<lfloor>x\<rfloor>; r = x - of_int f
      in if r < 1 / 2 then f else if 1 / 2 < r then f + 1 else if even f then f else f + 1)"

lemma nearest_bounds: "\<lfloor>x\<rfloor> \<le> nearest x \<and> nearest x \<le> \<lfloor>x\<rfloor> + 1"
  by (simp add: nearest_def Let_def)

lemma nearest_of_int [simp]: "nearest (of_int n) = n"
  by (simp add: nearest_def Let_def)

lemma nearest_error: "\<bar>of_int (nearest x) - x\<bar> \<le> 1 / 2"
proof -
  have "of_int \<lfloor>x\<rfloor> \<le> x" "x < of_int \<lfloor>x\<rfloor> + 1" by linarith+
  then show ?thesis unfolding nearest_def Let_def by (auto simp: abs_le_iff)
qed

lemma nearest_mono:
  assumes "x \<le> y" shows "nearest x \<le> nearest y"
proof (cases "\<lfloor>x\<rfloor> = \<lfloor>y\<rfloor>")
  case True
  with assms show ?thesis by (auto simp: nearest_def Let_def)
next
  case False
  with assms have "\<lfloor>x\<rfloor> + 1 \<le> \<lfloor>y\<rfloor>" using floor_mono [OF assms] by linarith
  then show ?thesis using nearest_bounds [of x] nearest_bounds [of y] by linarith
qed

lemma nearest_nonneg: "0 \<le> x \<Longrightarrow> 0 \<le> nearest x"
  using nearest_bounds [of x] by (meson order_trans zero_le_floor)

fun bits :: "nat \<Rightarrow> nat" where
  "bits n = (if n = 0 then 0 else Suc (bits (n div 2)))"

declare bits.simps [simp del]

lemma bits_bounds: "0 < n \<Longrightarrow> 2 ^ (bits n - 1) \<le> n \<and> n < 2 ^ bits n"
proof (induction n rule: bits.induct)
  case (1 n)
  show ?case
  proof (cases "n div 2 = 0")
    case True
    with "1.prems" have "n = 1" by auto
    then show ?thesis by (simp add: bits.simps [of "Suc 0"] bits.simps [of 0])
  next
    case False
    then have IH: "2 ^ (bits (n div 2) - 1) \<le> n div 2" "n div 2 < 2 ^ bits (n div 2)" using "1.IH" "1.prems" by auto
    have "bits (n div 2) \<noteq> 0" using False by (simp add: bits.simps [of "n div 2"])
    then obtain k where k: "bits (n div 2) = Suc k" by (cases "bits (n div 2)") auto
    then show ?thesis using IH "1.prems" by (simp add: bits.simps [of n]) linarith
  qed
qed

definition pow2 :: "int \<Rightarrow> rat" where
  "pow2 e = (if 0 \<le> e then 2 ^ nat e else 1 / 2 ^ nat (- e))"

lemma pow2_pos [simp]: "0 < pow2 e"
  by (simp add: pow2_def)

lemma pow2_powr: "pow2 e = 2 powi e"
  by (simp only: pow2_def power_int_def inverse_eq_divide power_one_over)

lemma pow2_add: "pow2 (a + b) = pow2 a * pow2 b"
  using power_int_add [of "2 :: rat" a b] by (simp only: pow2_powr) simp

text \<open>The exponent of a positive number.\<close>

definition exponent :: "rat \<Rightarrow> int" where
  "exponent x = (if 1 \<le> x then int (bits (nat \<lfloor>x\<rfloor>)) - 1 else - int (bits (nat (\<lceil>1 / x\<rceil> - 1))))"

lemma pow2_nat: "pow2 (int n) = 2 ^ n" "pow2 (- int n) = 1 / 2 ^ n"
  by (simp_all add: pow2_def)

lemma exponent_bounds:
  assumes "0 < x" shows "pow2 (exponent x) \<le> x \<and> x < pow2 (exponent x + 1)"
proof (cases "1 \<le> x")
  case True
  let ?n = "nat \<lfloor>x\<rfloor>" and ?b = "bits (nat \<lfloor>x\<rfloor>)"
  have n: "0 < ?n" using True by simp
  have b: "2 ^ (?b - 1) \<le> ?n" "?n < 2 ^ ?b" using bits_bounds [OF n] by auto
  have "?b \<noteq> 0" using n by (simp add: bits.simps [of ?n])
  then have e: "exponent x = int (?b - 1)" "exponent x + 1 = int ?b" using True by (simp_all add: exponent_def of_nat_diff)
  have f: "(of_nat ?n :: rat) \<le> x" "x < of_nat ?n + 1" using True by (simp_all add: of_nat_nat) linarith
  have "(of_nat (2 ^ (?b - 1)) :: rat) \<le> of_nat ?n" using b(1) of_nat_le_iff by blast
  moreover have "(of_nat (?n + 1) :: rat) \<le> of_nat (2 ^ ?b)" using b(2) by (subst of_nat_le_iff) linarith
  ultimately have "2 ^ (?b - 1) \<le> x" "x < 2 ^ ?b" using f by (simp_all only: of_nat_power of_nat_numeral of_nat_add of_nat_1)
  then show ?thesis by (simp only: e(2)) (simp only: e(1) pow2_nat simp_thms)
next
  case False
  let ?m = "nat (\<lceil>1 / x\<rceil> - 1)" and ?k = "bits (nat (\<lceil>1 / x\<rceil> - 1))"
  have "1 < 1 / x" using assms False by simp
  then have c: "1 < \<lceil>1 / x\<rceil>" by (simp add: less_ceiling_iff)
  then have m: "0 < ?m" by simp
  have b: "2 ^ (?k - 1) \<le> ?m" "?m < 2 ^ ?k" using bits_bounds [OF m] by auto
  have k: "?k \<noteq> 0" using m by (simp add: bits.simps [of ?m])
  have e: "exponent x = - int ?k" "exponent x + 1 = - int (?k - 1)" using False k by (simp_all add: exponent_def of_nat_diff)
  have "0 \<le> \<lceil>1 / x\<rceil> - 1" using c by linarith
  then have "(of_nat ?m :: rat) = of_int \<lceil>1 / x\<rceil> - 1" by (simp only: of_nat_nat of_int_diff of_int_1)
  then have f: "1 / x \<le> of_nat ?m + 1" "of_nat ?m < 1 / x" using ceiling_correct [of "1 / x"] by simp_all
  have "(of_nat (?m + 1) :: rat) \<le> of_nat (2 ^ ?k)" using b(2) by (subst of_nat_le_iff) linarith
  then have "1 / x \<le> 2 ^ ?k" using f(1) by (simp only: of_nat_power of_nat_numeral of_nat_add of_nat_1)
  moreover have "(of_nat (2 ^ (?k - 1)) :: rat) \<le> of_nat ?m" using b(1) of_nat_le_iff by blast
  then have "2 ^ (?k - 1) < 1 / x" using f(2) by (simp only: of_nat_power of_nat_numeral)
  ultimately have "pow2 (- int ?k) \<le> x" "x < pow2 (- int (?k - 1))" using assms by (simp_all only: pow2_nat) (simp_all add: field_simps)
  then show ?thesis by (simp only: e(2)) (simp only: e(1) simp_thms)
qed

section \<open>Values and operations\<close>

datatype f64 = Fin rat | Inf bool | NaN

text \<open>\<open>Inf True\<close> is the negative infinity.\<close>

definition ulp_at :: "rat \<Rightarrow> rat" where
  "ulp_at x = pow2 (max (exponent \<bar>x\<bar>) (-1022) - 52)"

definition f64_of :: "rat \<Rightarrow> f64" where
  "f64_of x =
     (if x = 0 then Fin 0
      else let y = of_int (nearest (x / ulp_at x)) * ulp_at x
           in if 2 ^ 1024 \<le> \<bar>y\<bar> then Inf (x < 0) else Fin y)"

fun f64_add :: "f64 \<Rightarrow> f64 \<Rightarrow> f64" where
  "f64_add (Fin a) (Fin b) = f64_of (a + b)"
| "f64_add (Inf s) (Inf t) = (if s = t then Inf s else NaN)"
| "f64_add (Inf s) (Fin b) = Inf s"
| "f64_add (Fin a) (Inf t) = Inf t"
| "f64_add _ _ = NaN"

fun f64_mul :: "f64 \<Rightarrow> f64 \<Rightarrow> f64" where
  "f64_mul (Fin a) (Fin b) = f64_of (a * b)"
| "f64_mul (Inf s) (Inf t) = Inf (s \<noteq> t)"
| "f64_mul (Inf s) (Fin b) = (if b = 0 then NaN else Inf (s \<noteq> (b < 0)))"
| "f64_mul (Fin a) (Inf t) = (if a = 0 then NaN else Inf ((a < 0) \<noteq> t))"
| "f64_mul _ _ = NaN"

text \<open>The minimum ignores a NaN.\<close>

fun f64_min :: "f64 \<Rightarrow> f64 \<Rightarrow> f64" where
  "f64_min NaN y = y"
| "f64_min x NaN = x"
| "f64_min (Fin a) (Fin b) = Fin (min a b)"
| "f64_min (Inf s) y = (if s then Inf s else y)"
| "f64_min x (Inf t) = (if t then Inf t else x)"

text \<open>\<open>Duration::as_secs_f64\<close>, and \<open>Duration::from_secs_f64\<close>, where \<open>None\<close> is its panic: for a negative
  number, for NaN and for what no duration can hold.\<close>

definition as_secs_f64 :: "duration \<Rightarrow> f64" where
  "as_secs_f64 d =
     f64_add (f64_of (of_nat (d div 1000000000))) (f64_of (of_nat (d mod 1000000000) / 1000000000))"

fun from_secs_f64 :: "f64 \<Rightarrow> duration option" where
  "from_secs_f64 (Fin x) = (if x < 0 \<or> 2 ^ 64 \<le> x then None else Some (nat (nearest (x * 1000000000))))"
| "from_secs_f64 _ = None"

lemma ulp_at_pos [simp]: "0 < ulp_at x"
  by (simp add: ulp_at_def)

text \<open>The rounding is off by at most half a unit in the last place.\<close>

lemma f64_of_error:
  assumes "f64_of x = Fin y" shows "\<bar>y - x\<bar> \<le> ulp_at x / 2"
proof (cases "x = 0")
  case False
  let ?u = "ulp_at x"
  have y: "y = of_int (nearest (x / ?u)) * ?u" using assms False by (auto simp: f64_of_def Let_def split: if_splits)
  have "y - x = (of_int (nearest (x / ?u)) - x / ?u) * ?u" by (simp add: y left_diff_distrib less_imp_neq [symmetric])
  then have "\<bar>y - x\<bar> = \<bar>of_int (nearest (x / ?u)) - x / ?u\<bar> * ?u"
    by (simp add: abs_mult abs_of_pos)
  also have "\<dots> \<le> 1 / 2 * ?u" by (intro mult_right_mono nearest_error) (simp add: less_imp_le)
  finally show ?thesis by simp
qed (use assms in \<open>simp add: f64_of_def less_imp_le\<close>)

section \<open>Numbers that are not negative\<close>

fun nonneg :: "f64 \<Rightarrow> bool" where
  "nonneg (Fin x) = (0 \<le> x)"
| "nonneg (Inf s) = (\<not> s)"
| "nonneg NaN = True"

lemma nonneg_of: "0 \<le> x \<Longrightarrow> nonneg (f64_of x)"
  by (simp add: f64_of_def Let_def nearest_nonneg less_imp_le)

lemma nonneg_add: "nonneg x \<Longrightarrow> nonneg y \<Longrightarrow> nonneg (f64_add x y)"
  by (cases x; cases y) (simp_all add: nonneg_of)

lemma nonneg_mul: "nonneg x \<Longrightarrow> nonneg y \<Longrightarrow> nonneg (f64_mul x y)"
  by (cases x; cases y) (simp_all add: nonneg_of)

lemma nonneg_as_secs: "nonneg (as_secs_f64 d)"
  by (simp add: as_secs_f64_def nonneg_add nonneg_of)

text \<open>Below a number that converts, everything that is not negative converts, to no longer a duration.\<close>

lemma from_secs_min:
  assumes "nonneg x" "from_secs_f64 m = Some d"
  shows "\<exists>d'. from_secs_f64 (f64_min x m) = Some d' \<and> d' \<le> d"
proof -
  obtain r where r: "m = Fin r" "\<not> r < 0" "\<not> 2 ^ 64 \<le> r" "d = nat (nearest (r * 1000000000))"
    using assms(2) by (cases m) (auto split: if_splits)
  show ?thesis
  proof (cases x)
    case (Fin a)
    have "nearest (min a r * 1000000000) \<le> nearest (r * 1000000000)" by (rule nearest_mono) simp
    moreover have "\<not> min a r < 0" "\<not> 2 ^ 64 \<le> min a r" using assms(1) Fin r(2,3) by auto
    ultimately show ?thesis using Fin r(1,4) by (auto intro: nat_mono)
  qed (use assms r in auto)
qed

section \<open>Durations survive the conversion\<close>

lemma nearest_unique:
  assumes "\<bar>x - of_int n\<bar> < 1 / 2" shows "nearest x = n"
proof -
  have "\<bar>of_int (nearest x) - of_int n :: rat\<bar> < 1" using nearest_error [of x] assms by linarith
  then have "\<bar>nearest x - n\<bar> < 1" by (simp only: of_int_diff [symmetric] of_int_abs [symmetric] of_int_less_1_iff)
  then show ?thesis by linarith
qed

lemma pow2_le: "a \<le> b \<Longrightarrow> pow2 a \<le> pow2 b"
  by (simp add: pow2_powr power_int_increasing)

lemma exponent_less:
  assumes "0 < x" "x < pow2 e" shows "exponent x < e"
proof (rule ccontr)
  assume "\<not> exponent x < e"
  then have "pow2 e \<le> pow2 (exponent x)" by (intro pow2_le) simp
  then show False using exponent_bounds [of x] assms by simp
qed

lemma ulp_at_le: "\<bar>x\<bar> < pow2 e \<Longrightarrow> -1022 < e \<Longrightarrow> x \<noteq> 0 \<Longrightarrow> ulp_at x \<le> pow2 (e - 53)"
  using exponent_less [of "\<bar>x\<bar>" e] unfolding ulp_at_def by (intro pow2_le) simp

text \<open>A number of moderate size rounds to a finite one, half a unit away at most.\<close>

lemma f64_of_near:
  assumes "\<bar>x\<bar> < pow2 e" "-1022 < e" "e \<le> 53"
  shows "\<exists>y. f64_of x = Fin y \<and> \<bar>y - x\<bar> \<le> pow2 (e - 53) / 2"
proof (cases "x = 0")
  case True
  then show ?thesis by (simp add: f64_of_def less_imp_le)
next
  case False
  let ?y = "of_int (nearest (x / ulp_at x)) * ulp_at x"
  have "?y - x = (of_int (nearest (x / ulp_at x)) - x / ulp_at x) * ulp_at x"
    by (simp add: left_diff_distrib less_imp_neq [symmetric])
  then have "\<bar>?y - x\<bar> = \<bar>of_int (nearest (x / ulp_at x)) - x / ulp_at x\<bar> * ulp_at x"
    by (simp add: abs_mult abs_of_pos)
  also have "\<dots> \<le> 1 / 2 * ulp_at x" by (intro mult_right_mono nearest_error) (simp add: less_imp_le)
  finally have d: "\<bar>?y - x\<bar> \<le> pow2 (e - 53) / 2" using ulp_at_le [OF assms(1,2) False] by linarith
  have "pow2 (e - 53) \<le> 1" "pow2 e \<le> 2 ^ 53"
    using pow2_le [of "e - 53" 0] pow2_le [of e 53] assms(3) by (simp_all add: pow2_def [of 0] pow2_def [of 53])
  moreover have "\<bar>?y\<bar> \<le> \<bar>?y - x\<bar> + \<bar>x\<bar>" using abs_triangle_ineq [of "?y - x" x] by simp
  ultimately have "\<bar>?y\<bar> < 1 + 2 ^ 53" using d assms(1) by linarith
  then have "\<bar>?y\<bar> < 2 ^ 54" by simp
  moreover have "(2 :: rat) ^ 54 \<le> 2 ^ 1024" by (rule power_increasing) simp_all
  ultimately have "\<not> 2 ^ 1024 \<le> \<bar>?y\<bar>" by (meson le_less_trans not_less order_trans less_le_trans)
  then have "f64_of x = Fin ?y" using False unfolding f64_of_def Let_def by (simp only: if_False)
  with d show ?thesis by blast
qed

lemma f64_of_nat:
  assumes "n < 2 ^ 53" shows "f64_of (of_nat n) = Fin (of_nat n)"
proof (cases "n = 0")
  case False
  let ?x = "of_nat n :: rat"
  have "(of_nat n :: rat) < of_nat (2 ^ 53)" using assms by (simp only: of_nat_less_iff)
  then have x: "\<bar>?x\<bar> < pow2 53" by (simp add: pow2_def)
  obtain y where y: "f64_of ?x = Fin y" using f64_of_near [OF x] by auto
  have "exponent \<bar>?x\<bar> < 53" by (rule exponent_less) (use False x in auto)
  then have "max (exponent \<bar>?x\<bar>) (-1022) - 52 \<le> 0" by simp
  then obtain k where k: "max (exponent \<bar>?x\<bar>) (-1022) - 52 = - int k" by (metis nonpos_int_cases)
  then have u: "ulp_at ?x = 1 / 2 ^ k" unfolding ulp_at_def by (simp only: pow2_nat)
  then have "?x / ulp_at ?x = of_int (int n * 2 ^ k)" by simp
  then have "nearest (?x / ulp_at ?x) = int n * 2 ^ k" by (simp only: nearest_of_int)
  then have v: "of_int (nearest (?x / ulp_at ?x)) * ulp_at ?x = ?x" by (simp add: u)
  show ?thesis using y False unfolding f64_of_def Let_def v by (auto split: if_splits)
qed (simp add: f64_of_def)

text \<open>Below 2 to the power 50 nanoseconds, thirteen days, the conversion to seconds and back is exact.\<close>

lemma duration_survives:
  assumes "d < 2 ^ 50" shows "from_secs_f64 (as_secs_f64 d) = Some d"
proof -
  let ?s = "d div 1000000000" and ?n = "d mod 1000000000"
  define S Q :: rat where "S = of_nat ?s" and "Q = of_nat ?n / 1000000000"
  have s: "?s < 1200000" using assms by (simp add: less_mult_imp_div_less)
  then have S: "0 \<le> S" "S < 1200000" unfolding S_def by simp_all
  have fs: "f64_of S = Fin S" unfolding S_def by (rule f64_of_nat) (use s in simp)
  have "?n < 1000000000" by simp
  then have Q: "0 \<le> Q" "Q < 1" unfolding Q_def by (simp_all add: divide_less_eq)
  then obtain y where y: "f64_of Q = Fin y" "\<bar>y - Q\<bar> \<le> pow2 (-53) / 2"
    using f64_of_near [of Q 0] by (auto simp: pow2_def [of 0])
  have p: "pow2 (-53) = 1 / 2 ^ 53" "pow2 21 = 2097152" "pow2 (-32) = 1 / 4294967296" by (simp_all add: pow2_def)
  have ly: "y \<le> Q + 1 / 2 ^ 54" "Q - 1 / 2 ^ 54 \<le> y" using y(2) unfolding p abs_le_iff by simp_all
  have y0: "0 \<le> y" using nonneg_of [OF Q(1)] y(1) by simp
  have "\<bar>S + y\<bar> < pow2 21" unfolding p using S Q ly y0 by simp
  then obtain z where z: "f64_of (S + y) = Fin z" "\<bar>z - (S + y)\<bar> \<le> pow2 (-32) / 2"
    using f64_of_near [of "S + y" 21] by auto
  have lz: "z \<le> S + y + 1 / 8589934592" "S + y - 1 / 8589934592 \<le> z" using z(2) unfolding p abs_le_iff by simp_all
  have z0: "0 \<le> z" using nonneg_of [of "S + y"] S(1) y0 z(1) by simp
  have zl: "z < 2 ^ 64" using lz S Q ly by simp
  have "of_nat d = of_nat ?s * 1000000000 + (of_nat ?n :: rat)"
    by (metis div_mult_mod_eq of_nat_add of_nat_mult of_nat_numeral)
  then have "of_int (int d) = S * 1000000000 + Q * 1000000000" unfolding S_def Q_def by simp
  then have "z * 1000000000 - of_int (int d) < 1 / 2" "- (z * 1000000000 - of_int (int d)) < 1 / 2"
    using lz ly by simp_all
  then have "\<bar>z * 1000000000 - of_int (int d)\<bar> < 1 / 2" unfolding abs_less_iff by linarith
  then have "nearest (z * 1000000000) = int d" by (rule nearest_unique)
  moreover have "as_secs_f64 d = Fin z" unfolding as_secs_f64_def using fs y(1) z(1) unfolding S_def Q_def by simp
  ultimately show ?thesis using z0 zl by (simp add: not_less)
qed

text \<open>Rounding a concrete number, by its exponent and the nearest multiple of the last place.\<close>

lemma f64_of_eval:
  assumes "pow2 e \<le> x" "x < pow2 (e + 1)" "-1022 \<le> e" "e \<le> 1000"
    and "\<bar>x / pow2 (e - 52) - of_int k\<bar> < 1 / 2" "y = of_int k * pow2 (e - 52)" "y < 2 ^ 1024" "0 \<le> k"
  shows "f64_of x = Fin y"
proof -
  have x: "0 < x" using less_le_trans [OF pow2_pos assms(1)] .
  have "exponent x < e + 1" by (rule exponent_less [OF x assms(2)])
  moreover have "e < exponent x + 1"
  proof (rule ccontr)
    assume "\<not> e < exponent x + 1"
    then have "pow2 (exponent x + 1) \<le> pow2 e" by (intro pow2_le) simp
    then show False using exponent_bounds [OF x] assms(1) by simp
  qed
  ultimately have "ulp_at x = pow2 (e - 52)" using x assms(3) by (simp add: ulp_at_def)
  moreover have "nearest (x / pow2 (e - 52)) = k" by (rule nearest_unique [OF assms(5)])
  moreover have "0 \<le> y" using assms(6,8) by (simp add: less_imp_le)
  ultimately show ?thesis using x assms(6,7) unfolding f64_of_def Let_def by simp
qed

end
