(* ===== verification/Retry.thy ===== *)
theory Retry
  imports Errors Float64
begin

text \<open>
  Retrying with exponential backoff (src/src/storage/retry.rs).

  The operation is a function of the state of the world it changes. The loop is a partial
  function: with \<open>max_retries = u32::MAX\<close> the attempt counter wraps and it need not end. Its
  result carries the delays slept. The delay is computed in \<open>f64\<close> seconds (theory Float64), with its
  rounding, infinities and NaN, and a result that no \<open>Duration\<close> can hold panics as
  \<open>Duration::from_secs_f64\<close> does.
\<close>

record retry_config =
  max_retries :: u32
  initial_delay :: duration
  max_delay :: duration
  backoff_multiplier :: f64

definition retry_config_default :: retry_config where
  "retry_config_default =
     \<lparr>max_retries = 3, initial_delay = 100 * 1000000, max_delay = secs 10, backoff_multiplier = Fin 2\<rparr>"

definition next_delay :: "retry_config \<Rightarrow> duration \<Rightarrow> duration option" where
  "next_delay cfg delay =
     from_secs_f64 (f64_min (f64_mul (as_secs_f64 delay) (backoff_multiplier cfg)) (as_secs_f64 (max_delay cfg)))"

type_synonym ('e, 'a, 'w) operation = "'w \<Rightarrow> ('e + 'a) \<times> 'w"

partial_function (option) retry_loop ::
  "retry_config \<Rightarrow> ('e \<Rightarrow> bool) \<Rightarrow> ('e, 'a, 'w) operation \<Rightarrow> u32 \<Rightarrow> duration \<Rightarrow> duration list \<Rightarrow> 'w \<Rightarrow>
     (('e abort + 'a) \<times> duration list \<times> 'w) option" where
  "retry_loop cfg retryable operation attempt delay slept w =
     (case operation w of
        (Inr result, w1) \<Rightarrow> Some (Inr result, slept, w1)
      | (Inl e, w1) \<Rightarrow>
          (if attempt + 1 > max_retries cfg \<or> \<not> retryable e then Some (Inl (Err e), slept, w1)
           else (case next_delay cfg delay of
                   None \<Rightarrow> Some (Inl Panic, slept @ [delay], w1)
                 | Some delay1 \<Rightarrow>
                     retry_loop cfg retryable operation (attempt + 1) delay1 (slept @ [delay]) w1)))"

definition retry_with_backoff ::
  "retry_config \<Rightarrow> ('e \<Rightarrow> bool) \<Rightarrow> ('e, 'a, 'w) operation \<Rightarrow> 'w \<Rightarrow>
     (('e abort + 'a) \<times> duration list \<times> 'w) option" where
  "retry_with_backoff cfg retryable operation w =
     retry_loop cfg retryable operation 0 (initial_delay cfg) [] w"

definition retry_simple ::
  "u32 \<Rightarrow> duration \<Rightarrow> ('e \<Rightarrow> bool) \<Rightarrow> ('e, 'a, 'w) operation \<Rightarrow> 'w \<Rightarrow>
     (('e abort + 'a) \<times> duration list \<times> 'w) option" where
  "retry_simple retries delay retryable operation w =
     retry_with_backoff
       \<lparr>max_retries = retries, initial_delay = delay, max_delay = delay, backoff_multiplier = Fin 1\<rparr>
       retryable operation w"

section \<open>The result of the loop\<close>

text \<open>The world after n calls of the operation.\<close>

fun calls :: "('e, 'a, 'w) operation \<Rightarrow> nat \<Rightarrow> 'w \<Rightarrow> 'w" where
  "calls operation 0 w = w"
| "calls operation (Suc n) w = calls operation n (snd (operation w))"

text \<open>The multiplier is not negative, and the maximal delay is \<open>m\<close> once it has been converted to \<open>f64\<close>
  seconds and back.\<close>

definition delays_ok :: "retry_config \<Rightarrow> duration \<Rightarrow> bool" where
  "delays_ok cfg m \<longleftrightarrow> nonneg (backoff_multiplier cfg) \<and> from_secs_f64 (as_secs_f64 (max_delay cfg)) = Some m"

lemma next_delay_le: "delays_ok cfg m \<Longrightarrow> \<exists>d. next_delay cfg delay = Some d \<and> d \<le> m"
  unfolding next_delay_def delays_ok_def by (intro from_secs_min nonneg_mul nonneg_as_secs) auto

lemma delays_ok_default: "delays_ok retry_config_default (secs 10)"
  by (simp add: delays_ok_def retry_config_default_def duration_survives)

text \<open>The conversion can make a sleep longer than the maximal delay: with both delays at 8640000841166324
  nanoseconds the second sleep takes one nanosecond more.\<close>

lemma sleep_beyond_max_delay:
  assumes "max_delay cfg = 8640000841166324" "backoff_multiplier cfg = Fin 1"
  shows "next_delay cfg 8640000841166324 = Some 8640000841166325"
proof -
  have s: "f64_of 8640000 = Fin 8640000" using f64_of_nat [of 8640000] by simp
  have n: "f64_of (841166324 / 1000000000) = Fin (7576552686646020 / 2 ^ 53)"
    by (rule f64_of_eval [of "-1" _ 7576552686646020]) (simp_all add: pow2_def)
  have a: "f64_of (8640000 + 7576552686646020 / 2 ^ 53) = Fin (4638565131277732 / 2 ^ 29)"
    by (rule f64_of_eval [of 23 _ 4638565131277732]) (simp_all add: pow2_def)
  have m: "f64_of (4638565131277732 / 2 ^ 29) = Fin (4638565131277732 / 2 ^ 29)"
    by (rule f64_of_eval [of 23 _ 4638565131277732]) (simp_all add: pow2_def)
  have r: "nearest (4638565131277732 / 2 ^ 29 * 1000000000) = 8640000841166325"
    by (rule nearest_unique) simp
  have "as_secs_f64 8640000841166324 = Fin (4638565131277732 / 2 ^ 29)"
    using s n a by (simp add: as_secs_f64_def)
  then show ?thesis using m r by (simp add: next_delay_def assms)
qed

lemma retry_loop_result:
  assumes "delays_ok cfg m" "unat attempt \<le> unat (max_retries cfg)" "unat (max_retries cfg) + 1 < 2 ^ 32"
    and "\<forall>d \<in> set slept. d \<le> max (initial_delay cfg) m"
    and "delay \<le> max (initial_delay cfg) m"
  shows "\<exists>n r sl. retry_loop cfg retryable operation attempt delay slept w =
       Some (case r of Inl e \<Rightarrow> Inl (Err e) | Inr a \<Rightarrow> Inr a, sl, calls operation (Suc n) w) \<and>
     unat attempt + n \<le> unat (max_retries cfg) \<and>
     (\<forall>k < n. \<exists>e. fst (operation (calls operation k w)) = Inl e \<and> retryable e) \<and>
     fst (operation (calls operation n w)) = r \<and>
     (\<forall>e. r = Inl e \<longrightarrow> \<not> retryable e \<or> unat attempt + n = unat (max_retries cfg)) \<and>
     length sl = length slept + n \<and> (\<forall>d \<in> set sl. d \<le> max (initial_delay cfg) m)"
  using assms(2,4,5)
proof (induction "unat (max_retries cfg) - unat attempt" arbitrary: attempt delay slept w rule: less_induct)
  case less
  obtain r w1 where o: "operation w = (r, w1)" by fastforce
  have nxt: "unat (attempt + 1) = unat attempt + 1"
    using assms(3) less.prems(1) by (simp add: unat_word_ariths)
  show ?case
  proof (cases "\<exists>e. r = Inl e \<and> retryable e \<and> unat attempt < unat (max_retries cfg)")
    case False
    then have "retry_loop cfg retryable operation attempt delay slept w =
        Some (case r of Inl e \<Rightarrow> Inl (Err e) | Inr a \<Rightarrow> Inr a, slept, w1)"
      using o nxt less.prems(1)
      by (subst retry_loop.simps) (auto simp: word_less_nat_alt split: sum.splits)
    then show ?thesis
      using o False less.prems by (intro exI [of _ 0] exI [of _ r] exI [of _ slept]) auto
  next
    case True
    then obtain e where e: "r = Inl e" "retryable e" "unat attempt < unat (max_retries cfg)" by blast
    obtain d where d: "next_delay cfg delay = Some d" "d \<le> m"
      using next_delay_le [OF assms(1)] by blast
    have step: "retry_loop cfg retryable operation attempt delay slept w =
        retry_loop cfg retryable operation (attempt + 1) d (slept @ [delay]) w1"
      using o e d nxt by (subst retry_loop.simps) (simp add: word_less_nat_alt)
    have "\<exists>n r sl. retry_loop cfg retryable operation (attempt + 1) d (slept @ [delay]) w1 =
         Some (case r of Inl e \<Rightarrow> Inl (Err e) | Inr a \<Rightarrow> Inr a, sl, calls operation (Suc n) w1) \<and>
       unat (attempt + 1) + n \<le> unat (max_retries cfg) \<and>
       (\<forall>k < n. \<exists>e. fst (operation (calls operation k w1)) = Inl e \<and> retryable e) \<and>
       fst (operation (calls operation n w1)) = r \<and>
       (\<forall>e. r = Inl e \<longrightarrow> \<not> retryable e \<or> unat (attempt + 1) + n = unat (max_retries cfg)) \<and>
       length sl = length (slept @ [delay]) + n \<and> (\<forall>d \<in> set sl. d \<le> max (initial_delay cfg) m)"
      by (rule less.hyps) (use e(3) nxt d(2) less.prems in auto)
    then obtain n r' sl where n: "retry_loop cfg retryable operation (attempt + 1) d (slept @ [delay]) w1 =
         Some (case r' of Inl e \<Rightarrow> Inl (Err e) | Inr a \<Rightarrow> Inr a, sl, calls operation (Suc n) w1)"
       "unat (attempt + 1) + n \<le> unat (max_retries cfg)"
       "\<forall>k < n. \<exists>e. fst (operation (calls operation k w1)) = Inl e \<and> retryable e"
       "fst (operation (calls operation n w1)) = r'"
       "\<forall>e. r' = Inl e \<longrightarrow> \<not> retryable e \<or> unat (attempt + 1) + n = unat (max_retries cfg)"
       "length sl = length (slept @ [delay]) + n" "\<forall>d \<in> set sl. d \<le> max (initial_delay cfg) m"
      by blast
    have w1: "calls operation (Suc k) w = calls operation k w1" for k using o by simp
    have first: "\<exists>e. fst (operation (calls operation k w)) = Inl e \<and> retryable e" if "k < Suc n" for k
      using that n(3) o e w1 by (cases k) auto
    show ?thesis
      using n first
      by (intro exI [of _ "Suc n"] exI [of _ r'] exI [of _ sl]) (simp add: step nxt w1 del: calls.simps)
  qed
qed

text \<open>C25 (bounded retries): with fewer than u32::MAX retries allowed, a multiplier that is not negative
  and a maximal delay whose f64 seconds convert back to a duration m (Duration::MAX does not, and panics),
  the retry always returns. It calls the operation at most one time more than the number of retries, every
  call but the last failed with a retryable error, the result is that of the last call, an error is returned
  only when it is not retryable or the retries are used up, there is one sleep between two calls, and no
  sleep is longer than the larger of the initial delay and m. For a maximal delay of less than 2 to the
  power 50 nanoseconds m is the maximal delay itself; beyond that rounding can make it longer.\<close>

theorem retry_bounded:
  assumes "delays_ok cfg m" "unat (max_retries cfg) + 1 < 2 ^ 32"
  shows "(\<exists>n r sl. retry_with_backoff cfg retryable operation w =
       Some (case r of Inl e \<Rightarrow> Inl (Err e) | Inr a \<Rightarrow> Inr a, sl, calls operation (Suc n) w) \<and>
     n \<le> unat (max_retries cfg) \<and>
     (\<forall>k < n. \<exists>e. fst (operation (calls operation k w)) = Inl e \<and> retryable e) \<and>
     fst (operation (calls operation n w)) = r \<and>
     (\<forall>e. r = Inl e \<longrightarrow> \<not> retryable e \<or> n = unat (max_retries cfg)) \<and>
     length sl = n \<and> (\<forall>d \<in> set sl. d \<le> max (initial_delay cfg) m)) \<and>
     (max_delay cfg < 2 ^ 50 \<longrightarrow> m = max_delay cfg)"
  using retry_loop_result [OF assms(1) _ assms(2), of 0 "[]" "initial_delay cfg" retryable operation w]
    duration_survives [of "max_delay cfg"] assms(1)
  unfolding retry_with_backoff_def by (simp add: delays_ok_def)

lemma retry_bounded_witness:
  "\<exists>r sl w n. retry_with_backoff retry_config_default is_retryable
       (\<lambda>k. (if k < 2 then Inl (Storage OdRateLimited) else Inr k, k + 1)) (0::nat) = Some (r, sl, w) \<and>
     n \<le> 3 \<and> length sl = n \<and> (\<forall>d \<in> set sl. d \<le> secs 10)"
proof -
  have u: "unat (max_retries retry_config_default) + 1 < 2 ^ 32" "unat (max_retries retry_config_default) = 3"
    "max (initial_delay retry_config_default) (secs 10) = secs 10"
    by (simp_all add: retry_config_default_def)
  show ?thesis
    using retry_bounded [OF delays_ok_default u(1), of is_retryable
        "\<lambda>k. (if k < 2 then Inl (Storage OdRateLimited) else Inr k, k + 1)" 0]
    unfolding u(2,3) by blast
qed

end
