(* ===== verification/Permission.thy ===== *)
theory Permission
  imports Config Decimal
begin

text \<open>Permission checks and the metadata that stores permissions (src/src/fs/permission.rs).\<close>

definition default_uid :: "permission_config \<Rightarrow> u32" where
  "default_uid cfg = fp_uid (pc_fixed cfg)"

definition default_gid :: "permission_config \<Rightarrow> u32" where
  "default_gid cfg = fp_gid (pc_fixed cfg)"

definition default_file_mode :: "permission_config \<Rightarrow> u32" where
  "default_file_mode cfg = fp_file_mode (pc_fixed cfg)"

definition default_dir_mode :: "permission_config \<Rightarrow> u32" where
  "default_dir_mode cfg = fp_dir_mode (pc_fixed cfg)"

definition is_preserved_mode :: "permission_config \<Rightarrow> bool" where
  "is_preserved_mode cfg \<longleftrightarrow> pc_mode cfg = Preserved"

definition check_read :: "u32 \<Rightarrow> u32 \<Rightarrow> u32 \<Rightarrow> u32 \<Rightarrow> u16 \<Rightarrow> bool" where
  "check_read uid gid file_uid file_gid mode =
     (if uid = 0 then True
      else if uid = file_uid \<and> mode AND 256 \<noteq> 0 then True
      else if gid = file_gid \<and> mode AND 32 \<noteq> 0 then True
      else mode AND 4 \<noteq> 0)"

definition check_write :: "u32 \<Rightarrow> u32 \<Rightarrow> u32 \<Rightarrow> u32 \<Rightarrow> u16 \<Rightarrow> bool" where
  "check_write uid gid file_uid file_gid mode =
     (if uid = 0 then True
      else if uid = file_uid \<and> mode AND 128 \<noteq> 0 then True
      else if gid = file_gid \<and> mode AND 16 \<noteq> 0 then True
      else mode AND 2 \<noteq> 0)"

definition check_execute :: "u32 \<Rightarrow> u32 \<Rightarrow> u32 \<Rightarrow> u32 \<Rightarrow> u16 \<Rightarrow> bool" where
  "check_execute uid gid file_uid file_gid mode =
     (if uid = 0 then mode AND 73 \<noteq> 0
      else if uid = file_uid \<and> mode AND 64 \<noteq> 0 then True
      else if gid = file_gid \<and> mode AND 8 \<noteq> 0 then True
      else mode AND 1 \<noteq> 0)"

definition build_metadata :: "permission_config \<Rightarrow> u32 \<Rightarrow> u32 \<Rightarrow> u32 \<Rightarrow> (string, string) dash" where
  "build_metadata cfg uid gid mode =
     (if is_preserved_mode cfg
      then dash_insert ''x-obs-meta-mode'' (decimal (unat mode))
             (dash_insert ''x-obs-meta-gid'' (decimal (unat gid))
               (dash_insert ''x-obs-meta-uid'' (decimal (unat uid)) []))
      else [])"

text \<open>\<open>str::parse::<u32>\<close>, the decimal reading of at most 32 bits.\<close>

definition parse_u32 :: "string \<Rightarrow> u32 option" where
  "parse_u32 s = map_option of_nat (from_str_radix 32 10 s)"

definition parse_metadata :: "permission_config \<Rightarrow> (string, string) dash \<Rightarrow> (u32 \<times> u32 \<times> u32) option" where
  "parse_metadata cfg meta =
     (if \<not> is_preserved_mode cfg then None
      else Option.bind (Option.bind (dash_get meta ''x-obs-meta-uid'') parse_u32) (\<lambda>uid.
           Option.bind (Option.bind (dash_get meta ''x-obs-meta-gid'') parse_u32) (\<lambda>gid.
           Option.bind (Option.bind (dash_get meta ''x-obs-meta-mode'') parse_u32) (\<lambda>mode.
             Some (uid, gid, mode)))))"

lemma parse_u32_decimal [simp]: "parse_u32 (decimal (unat n)) = Some n"
proof -
  have "unat n < 2 ^ 32" using unsigned_less [of n, where 'a = nat] by simp
  then show ?thesis by (simp add: parse_u32_def parse_decimal)
qed

text \<open>C28 (stored permissions): in the preserved mode, metadata whose three permission headers are those built
  from an owner, a group and a mode, whatever other headers it has, is parsed to these three values, for
  all 32-bit values. In the fixed mode no header is built and whatever metadata is found parses to
  nothing, so permissions stored by another mount have no effect.\<close>

theorem metadata_roundtrip:
  assumes "is_preserved_mode cfg \<longrightarrow> (\<forall>k \<in> {''x-obs-meta-uid'', ''x-obs-meta-gid'', ''x-obs-meta-mode''}.
     dash_get meta k = dash_get (build_metadata cfg uid gid mode) k)"
  shows "parse_metadata cfg meta = (if is_preserved_mode cfg then Some (uid, gid, mode) else None) \<and>
     (\<not> is_preserved_mode cfg \<longrightarrow> build_metadata cfg uid gid mode = [])"
  using assms by (simp add: parse_metadata_def build_metadata_def)

definition with_mode :: "permission_mode \<Rightarrow> permission_config" where
  "with_mode m = (permission_config_default 0 0)\<lparr>pc_mode := m\<rparr>"

lemma metadata_roundtrip_witness:
  "parse_metadata (with_mode Preserved)
       (dash_insert ''etag'' ''x'' (build_metadata (with_mode Preserved) 1000 100 420)) = Some (1000, 100, 420) \<and>
   parse_metadata (with_mode Fixed) (build_metadata (with_mode Preserved) 1000 100 420) = None"
proof -
  have p: "is_preserved_mode (with_mode Preserved)" "\<not> is_preserved_mode (with_mode Fixed)"
    by (simp_all add: with_mode_def is_preserved_mode_def)
  have "parse_metadata (with_mode Preserved)
      (dash_insert ''etag'' ''x'' (build_metadata (with_mode Preserved) 1000 100 420)) =
      (if is_preserved_mode (with_mode Preserved) then Some (1000, 100, 420) else None)"
    using metadata_roundtrip [of "with_mode Preserved" "dash_insert ''etag'' ''x'' (build_metadata (with_mode Preserved) 1000 100 420)" 1000 100 420]
    by auto
  moreover have "parse_metadata (with_mode Fixed) (build_metadata (with_mode Preserved) 1000 100 420) = None"
    using metadata_roundtrip [of "with_mode Fixed" "build_metadata (with_mode Preserved) 1000 100 420" 1000 100 420] p(2)
    by simp
  ultimately show ?thesis using p(1) by simp
qed

lemma and_bit:
  "(mode :: u16) AND 256 \<noteq> 0 \<longleftrightarrow> bit mode 8" "mode AND 128 \<noteq> 0 \<longleftrightarrow> bit mode 7" "mode AND 64 \<noteq> 0 \<longleftrightarrow> bit mode 6"
  "mode AND 32 \<noteq> 0 \<longleftrightarrow> bit mode 5" "mode AND 16 \<noteq> 0 \<longleftrightarrow> bit mode 4" "mode AND 8 \<noteq> 0 \<longleftrightarrow> bit mode 3"
  "mode AND 4 \<noteq> 0 \<longleftrightarrow> bit mode 2" "mode AND 2 \<noteq> 0 \<longleftrightarrow> bit mode 1" "mode AND 1 \<noteq> 0 \<longleftrightarrow> bit mode 0"
  using bit_iff_and_push_bit_not_eq_0 [of mode 8] bit_iff_and_push_bit_not_eq_0 [of mode 7]
    bit_iff_and_push_bit_not_eq_0 [of mode 6] bit_iff_and_push_bit_not_eq_0 [of mode 5]
    bit_iff_and_push_bit_not_eq_0 [of mode 4] bit_iff_and_push_bit_not_eq_0 [of mode 3]
    bit_iff_and_push_bit_not_eq_0 [of mode 2] bit_iff_and_push_bit_not_eq_0 [of mode 1]
    bit_iff_and_push_bit_not_eq_0 [of mode 0]
  by (simp_all add: push_bit_eq_mult)

lemma and_execute_bits: "(mode :: u16) AND 73 \<noteq> 0 \<longleftrightarrow> bit mode 6 \<or> bit mode 3 \<or> bit mode 0"
proof -
  have "(73 :: u16) = 64 OR (8 OR 1)" by simp
  then have "mode AND 73 = (mode AND 64) OR ((mode AND 8) OR (mode AND 1))"
    by (simp only: bit.conj_disj_distrib)
  then show ?thesis by (simp only: or_eq_0_iff and_bit [symmetric]) blast
qed

text \<open>What the checks grant: a user other than root is granted an access exactly when the bit of
  some class it belongs to is set: the classes are tried one after the other, so an owner whose
  owner bit is clear still gets what the group or everybody is granted, unlike the POSIX rule.
  Root always reads and writes, and executes when any execute bit is set.\<close>

theorem checks_union_of_classes:
  "(check_read uid gid fu fg mode \<longleftrightarrow>
      uid = 0 \<or> (uid = fu \<and> bit mode 8) \<or> (gid = fg \<and> bit mode 5) \<or> bit mode 2) \<and>
   (check_write uid gid fu fg mode \<longleftrightarrow>
      uid = 0 \<or> (uid = fu \<and> bit mode 7) \<or> (gid = fg \<and> bit mode 4) \<or> bit mode 1) \<and>
   (check_execute uid gid fu fg mode \<longleftrightarrow>
      (if uid = 0 then bit mode 6 \<or> bit mode 3 \<or> bit mode 0
       else (uid = fu \<and> bit mode 6) \<or> (gid = fg \<and> bit mode 3) \<or> bit mode 0))"
  by (simp add: check_read_def check_write_def check_execute_def and_bit and_execute_bits)

end
