(* ===== verification/FileTime.thy ===== *)
theory FileTime
  imports Platform
begin

text \<open>
  Windows file times (src/src/fs/platform.rs): the conversion of a FILETIME to a \<open>SystemTime\<close> of the
  \<open>windows\<close> arm and back, as the WinFSP front end does it.
\<close>

lemma epoch_diff: "unat EPOCH_DIFF = 116444736000000000"
  by (simp add: EPOCH_DIFF_def)

lemma sint_nonneg_small:
  assumes "unat (x :: u64) < 2 ^ 63" shows "0 \<le> sint x"
proof -
  have "uint x < 2 ^ 63" using assms by (metis of_nat_less_iff of_nat_numeral of_nat_power uint_nat)
  moreover have "0 \<le> uint x" by simp
  ultimately have "signed_take_bit 63 (uint x) = uint x" by (intro signed_take_bit_int_eq_self) linarith+
  then show ?thesis by (simp add: sint_uint)
qed

lemma unat_small: "n < 2 ^ LENGTH('a) \<Longrightarrow> unat (of_nat n :: 'a::len word) = n"
  by (simp add: unsigned_of_nat take_bit_nat_eq_self)

text \<open>The seconds and nanoseconds of a FILETIME after the epoch are its hundreds of nanoseconds since
  then, exactly.\<close>

lemma from_filetime_parts:
  assumes "EPOCH_DIFF \<le> ft"
  shows "unat (ts_sec (from_filetime ft)) = (unat ft - 116444736000000000) div 10000000"
    "unat (ts_nsec (from_filetime ft)) = (unat ft - 116444736000000000) mod 10000000 * 100"
proof -
  let ?u = "ft - EPOCH_DIFF"
  have u: "unat ?u = unat ft - 116444736000000000"
    using assms by (simp add: unat_sub epoch_diff)
  show "unat (ts_sec (from_filetime ft)) = (unat ft - 116444736000000000) div 10000000"
    using assms by (simp add: from_filetime_def Let_def unat_div u [symmetric] not_less [symmetric])
  have m: "unat (?u mod 10000000) = (unat ft - 116444736000000000) mod 10000000" by (simp add: unat_mod u)
  have "unat (?u mod 10000000 * 100) = unat (?u mod 10000000) * 100"
    using m by (subst unat_mult_lem [THEN iffD1]) auto
  then show "unat (ts_nsec (from_filetime ft)) = (unat ft - 116444736000000000) mod 10000000 * 100"
    using assms m by (simp add: from_filetime_def Let_def not_less [symmetric] unsigned_ucast_eq take_bit_nat_eq_self)
qed

lemma system_time_of_filetime:
  assumes "EPOCH_DIFF \<le> ft"
  shows "system_time_of_timestamp_win (from_filetime ft) =
     (if unat ft < 2 ^ 63 then Some (int ((unat ft - 116444736000000000) * 100)) else None)"
proof -
  let ?n = "unat ft - 116444736000000000"
  note p = from_filetime_parts [OF assms]
  have ft: "116444736000000000 \<le> unat ft" using assms by (simp add: word_le_nat_alt epoch_diff)
  have total: "?n div 10000000 * 1000000000 + ?n mod 10000000 * 100 = ?n * 100"
    using div_mult_mod_eq [of ?n 10000000] by linarith
  have "?n * 100 < 2 ^ 64 * 1000000000" using unat_u64_bound [of ft] by simp
  then have d: "duration_new (ts_sec (from_filetime ft)) (ts_nsec (from_filetime ft)) = Some (?n * 100)"
    using total by (simp add: duration_new_def p Let_def)
  have "?n div 10000000 < 2 ^ 63" using unat_u64_bound [of ft] by simp
  then have "0 \<le> sint (ts_sec (from_filetime ft))" using p(1) by (intro sint_nonneg_small) simp
  with d ft show ?thesis by (simp add: system_time_of_timestamp_win_def epoch_plus_win_def)
qed

text \<open>Before the epoch every FILETIME is the epoch itself.\<close>

lemma system_time_of_early_filetime:
  "ft < EPOCH_DIFF \<Longrightarrow> system_time_of_timestamp_win (from_filetime ft) = Some 0"
  by (simp add: from_filetime_def system_time_of_timestamp_win_def duration_new_def epoch_plus_win_def)

lemma filetime_converts:
  assumes "ft < 2 ^ 63" shows "system_time_of_timestamp_win (from_filetime ft) \<noteq> None"
proof (cases "ft < EPOCH_DIFF")
  case False
  have "unat ft < 2 ^ 63" using assms by (simp add: word_less_nat_alt)
  with False show ?thesis by (simp add: system_time_of_filetime not_less)
qed (simp add: system_time_of_early_filetime)

definition filetime_of :: "system_time \<Rightarrow> u64" where
  "filetime_of t = to_filetime (timestamp_of_system_time t)"

lemma filetime_of_hundreds:
  assumes "116444736000000000 + n < 2 ^ 64"
  shows "filetime_of (int (n * 100)) = of_nat (116444736000000000 + n)"
proof -
  have s: "int (n * 100) div 1000000000 = int (n div 10000000)"
    by (simp add: zdiv_int [symmetric]) 
  have h: "n * 100 mod 1000000000 = n mod 10000000 * 100" using mod_mult_mult2 [of n 100 10000000] by simp
  have "int (n * 100) mod int 1000000000 = int (n mod 10000000 * 100)" by (simp only: zmod_int [symmetric] h)
  then have m: "int (n * 100) mod 1000000000 = int (n mod 10000000 * 100)" by (simp only: of_nat_numeral)
  have "n mod 10000000 * 100 < 2 ^ 32" by (rule le_less_trans [of _ "9999999 * 100"]) simp_all
  then have "unat (of_nat (n mod 10000000 * 100) :: u32) = n mod 10000000 * 100" by (intro unat_small) simp
  then have u: "ucast (of_nat (n mod 10000000 * 100) :: u32) = (of_nat (n mod 10000000 * 100) :: u64)"
    by (metis of_nat_unat)
  have d: "(of_nat (n mod 10000000 * 100) :: u64) div 100 = of_nat (n mod 10000000)"
  proof (rule word_unat_eq_iff [THEN iffD2])
    have "unat (of_nat (n mod 10000000 * 100) :: u64) = n mod 10000000 * 100"
      by (intro unat_small) (rule le_less_trans [of _ "9999999 * 100"], simp_all)
    moreover have "unat (of_nat (n mod 10000000) :: u64) = n mod 10000000"
      by (intro unat_small) (rule le_less_trans [of _ "9999999"], simp_all)
    ultimately show "unat ((of_nat (n mod 10000000 * 100) :: u64) div 100) = unat (of_nat (n mod 10000000) :: u64)"
      by (simp add: unat_div)
  qed
  have "filetime_of (int (n * 100)) = of_nat (n div 10000000) * 10000000 + of_nat (n mod 10000000) + EPOCH_DIFF"
    unfolding filetime_of_def to_filetime_def timestamp_of_system_time_def
    using s m u d by (simp add: Let_def)
  also have "\<dots> = of_nat (n div 10000000 * 10000000 + n mod 10000000 + 116444736000000000)"
    by (simp only: EPOCH_DIFF_def of_nat_add of_nat_mult of_nat_numeral)
  also have "n div 10000000 * 10000000 + n mod 10000000 + 116444736000000000 = 116444736000000000 + n" by simp
  finally show ?thesis .
qed

end
