(* ===== verification/Dir.thy ===== *)
theory Dir
  imports Inode
begin

text \<open>Directory entries, listings and the path tests on them (src/src/fs/dir.rs).\<close>

record dir_entry =
  dent_inode :: u64
  dent_name :: string
  dent_kind :: file_kind
  dent_offset :: int

definition dir_entry_new :: "u64 \<Rightarrow> string \<Rightarrow> file_kind \<Rightarrow> int \<Rightarrow> dir_entry" where
  "dir_entry_new inode name kind offset =
     \<lparr>dent_inode = inode, dent_name = name, dent_kind = kind, dent_offset = offset\<rparr>"

definition dot :: "u64 \<Rightarrow> dir_entry" where
  "dot inode = dir_entry_new inode ''.'' Directory 1"

definition dotdot :: "u64 \<Rightarrow> dir_entry" where
  "dotdot parent_inode = dir_entry_new parent_inode ''..'' Directory 2"

record dir_entry_plus =
  dep_entry :: dir_entry
  dep_attr :: "file_attr option"
  dep_attr_ttl :: duration
  dep_entry_ttl :: duration

definition dir_entry_plus_new :: "dir_entry \<Rightarrow> file_attr option \<Rightarrow> dir_entry_plus" where
  "dir_entry_plus_new entry attr =
     \<lparr>dep_entry = entry, dep_attr = attr, dep_attr_ttl = secs 1, dep_entry_ttl = secs 1\<rparr>"

definition dep_with_ttl :: "duration \<Rightarrow> duration \<Rightarrow> dir_entry_plus \<Rightarrow> dir_entry_plus" where
  "dep_with_ttl at et p = p\<lparr>dep_attr_ttl := at, dep_entry_ttl := et\<rparr>"

record dir_listing =
  dl_entries :: "dir_entry list"
  dl_complete :: bool
  dl_continuation_token :: "string option"

definition dir_listing_new :: "dir_entry list \<Rightarrow> dir_listing" where
  "dir_listing_new es = \<lparr>dl_entries = es, dl_complete = True, dl_continuation_token = None\<rparr>"

definition dir_listing_with_pagination :: "dir_entry list \<Rightarrow> bool \<Rightarrow> string option \<Rightarrow> dir_listing" where
  "dir_listing_with_pagination es complete token =
     \<lparr>dl_entries = es, dl_complete = complete, dl_continuation_token = token\<rparr>"

definition from_offset :: "dir_listing \<Rightarrow> int \<Rightarrow> dir_entry list" where
  "from_offset l offset = filter (\<lambda>e. dent_offset e > offset) (dl_entries l)"

definition extract_dir_name :: "string \<Rightarrow> string \<Rightarrow> string option" where
  "extract_dir_name path prefix =
     (case strip_prefix path prefix of
        None \<Rightarrow> None
      | Some r \<Rightarrow>
          (let name = hd (split_on slash (trim_start_matches slash r))
           in if name = [] then None else Some name))"

definition is_direct_child :: "string \<Rightarrow> string \<Rightarrow> bool" where
  "is_direct_child path prefix =
     (case strip_prefix path prefix of
        None \<Rightarrow> False
      | Some r \<Rightarrow>
          (let relative = trim_start_matches slash r;
               slash_count = count_list (trim_end_matches slash relative) slash
           in slash_count = 0 \<and> relative \<noteq> []))"

lemma strip_prefix_append [simp]: "strip_prefix (p @ r) p = Some r"
  by (induction p) auto

lemma strip_prefix_Some: "strip_prefix s p = Some r \<longleftrightarrow> s = p @ r"
  by (induction s p rule: strip_prefix.induct) auto

lemma trim_start_prepend: "trim_start_matches c (replicate n c @ s) = trim_start_matches c s"
  by (induction n) (simp_all add: trim_start_matches_def)

lemma split_on_hd: "c \<notin> set n \<Longrightarrow> hd (split_on c (n @ c # r)) = n"
  by (simp add: split_on_append split_on_no_sep)

lemma trim_end_append: "trim_end_matches c (s @ replicate n c) = trim_end_matches c s"
proof -
  have "dropWhile (\<lambda>x. x = c) (replicate n c @ rev s) = dropWhile (\<lambda>x. x = c) (rev s)" by (induction n) simp_all
  then show ?thesis by (simp add: trim_end_matches_def)
qed

text \<open>Direct children: a path is a direct child of a prefix exactly when it is the prefix, any
  number of slashes, a name without slashes and again any number of slashes, and then the name is
  what \<open>extract_dir_name\<close> returns.\<close>

theorem direct_child_iff:
  "is_direct_child path prefix \<longleftrightarrow>
     (\<exists>m name k. path = prefix @ replicate m slash @ name @ replicate k slash \<and> name \<noteq> [] \<and> slash \<notin> set name \<and>
        extract_dir_name path prefix = Some name)"
proof
  assume a: "is_direct_child path prefix"
  then obtain r where r: "strip_prefix path prefix = Some r" by (auto simp: is_direct_child_def split: option.splits)
  let ?rel = "trim_start_matches slash r"
  let ?name = "trim_end_matches slash ?rel"
  have rel: "?rel \<noteq> []" and cnt: "count_list ?name slash = 0"
    using a r by (simp_all add: is_direct_child_def Let_def)
  have ns: "slash \<notin> set ?name" using cnt by (simp add: count_list_0_iff)
  obtain k where k: "?rel = ?name @ replicate k slash" using trim_end_decomp by blast
  have ne: "?name \<noteq> []"
  proof
    assume "?name = []"
    with k rel have "starts_with slash ?rel" by (cases k) (auto simp: starts_with_def)
    then show False by simp
  qed
  have "\<exists>m. r = replicate m slash @ ?rel"
    by (induction r) (auto simp: trim_start_matches_def intro: exI [of _ "Suc _"] exI [of _ 0])
  then obtain m where m: "r = replicate m slash @ ?rel" by blast
  have "hd (split_on slash (?name @ replicate k slash)) = ?name"
    using ns by (cases k) (simp_all add: split_on_hd split_on_no_sep)
  then have "hd (split_on slash ?rel) = ?name" using k by metis
  then have "extract_dir_name path prefix = Some ?name" using r ne by (simp add: extract_dir_name_def)
  moreover have "path = prefix @ replicate m slash @ ?name @ replicate k slash"
    using r m k by (metis strip_prefix_Some)
  ultimately show "\<exists>m name k. path = prefix @ replicate m slash @ name @ replicate k slash \<and> name \<noteq> [] \<and>
      slash \<notin> set name \<and> extract_dir_name path prefix = Some name"
    using ne ns by blast
next
  assume "\<exists>m name k. path = prefix @ replicate m slash @ name @ replicate k slash \<and> name \<noteq> [] \<and>
      slash \<notin> set name \<and> extract_dir_name path prefix = Some name"
  then obtain m name k where p: "path = prefix @ replicate m slash @ name @ replicate k slash" "name \<noteq> []" "slash \<notin> set name"
    by blast
  then have "hd name \<noteq> slash" "last name \<noteq> slash" by (metis hd_in_set, metis last_in_set)
  with p(2) have n: "\<not> starts_with slash (name @ replicate k slash)" "\<not> ends_with slash name"
    by (auto simp: starts_with_def ends_with_def)
  have "trim_start_matches slash (replicate m slash @ name @ replicate k slash) = name @ replicate k slash"
    using n(1) by (simp add: trim_start_prepend trim_start_no_start)
  moreover have "trim_end_matches slash (name @ replicate k slash) = name"
    using n(2) by (simp add: trim_end_append trim_end_no_end)
  ultimately show "is_direct_child path prefix"
    using p by (simp add: is_direct_child_def Let_def count_list_0_iff)
qed

end
