(* ===== verification/Core.thy ===== *)
theory Core
  imports MetaCache DataCacheProps Readahead WriteBufferProps Handle Dir
begin

text \<open>
  The core of the file system (src/src/fs/core.rs): the operations that both front ends call,
  over all the tables, caches and buffers.

  \<open>'s world\<close> is \<open>ObsFsCore\<close> together with the counters its parts share, the state of the store and
  the prefetch tasks that were spawned and have not run; \<open>run_prefetch\<close> is the step that runs one,
  at any later moment. An operation returns its result with the next world. Its error is an error
  number; a panic (a zero block size) and a call that does not return are values of \<open>abort\<close>. All
  readings of the two clocks within one operation are the argument \<open>c\<close>. File names are taken to
  be valid UTF-8. Logging is not modelled.
\<close>

section \<open>State\<close>

record 's world =
  inode_mgr :: inode_manager
  meta_cache :: metadata_cache
  block_cache :: data_cache
  ra_mgr :: readahead
  write_buf :: write_buffer
  handle_mgr :: handle_manager
  w_config :: config
  w_metrics :: metrics
  w_store :: 's
  w_prefetches :: "(string \<times> prefetch_request) list"
  core_attr_ttl :: duration
  core_entry_ttl :: duration

type_synonym 'a fs_result = "int abort + 'a"

definition core_new :: "clock \<Rightarrow> disk \<Rightarrow> config \<Rightarrow> metrics \<Rightarrow> 's \<Rightarrow> 's world" where
  "core_new c d cfg mt s =
     \<lparr>inode_mgr = im_new c (cfg_permission cfg),
      meta_cache = mc_new (cfg_metadata (cfg_cache cfg)),
      block_cache = dc_new d (cfg_cache cfg),
      ra_mgr = ra_new (readahead_config_from (cfg_performance cfg)),
      write_buf = wb_new (write_buffer_config_from (cfg_performance cfg)),
      handle_mgr = hm_new, w_config = cfg, w_metrics = mt, w_store = s, w_prefetches = [],
      core_attr_ttl = attr_ttl (cfg_metadata (cfg_cache cfg)),
      core_entry_ttl = dir_ttl (cfg_metadata (cfg_cache cfg))\<rparr>"

text \<open>Running an operation of a part on its share of the world.\<close>

definition in_net :: "('s net \<Rightarrow> 'r \<times> 's net) \<Rightarrow> 's world \<Rightarrow> 'r \<times> 's world" where
  "in_net f w =
     (case f (w_metrics w, w_store w) of (r, (mt, s)) \<Rightarrow> (r, w\<lparr>w_metrics := mt, w_store := s\<rparr>))"

definition in_meta :: "(metadata_cache \<times> metrics \<Rightarrow> 'r \<times> (metadata_cache \<times> metrics)) \<Rightarrow> 's world \<Rightarrow> 'r \<times> 's world" where
  "in_meta f w =
     (case f (meta_cache w, w_metrics w) of (r, (mc, mt)) \<Rightarrow> (r, w\<lparr>meta_cache := mc, w_metrics := mt\<rparr>))"

definition in_wb :: "('s wb_state \<Rightarrow> 'r \<times> 's wb_state) \<Rightarrow> 's world \<Rightarrow> 'r \<times> 's world" where
  "in_wb f w =
     (case f (write_buf w, (w_metrics w, w_store w)) of
        (r, (wb, (mt, s))) \<Rightarrow> (r, w\<lparr>write_buf := wb, w_metrics := mt, w_store := s\<rparr>))"

text \<open>\<open>map_err\<close> to an error number, and the \<open>?\<close> operator.\<close>

definition or_errno :: "int \<Rightarrow> 'a result \<times> 'w \<Rightarrow> 'a fs_result \<times> 'w" where
  "or_errno n r = (case r of (Inl e, w) \<Rightarrow> (Inl (map_err (\<lambda>_. n) e), w) | (Inr a, w) \<Rightarrow> (Inr a, w))"

definition and_then :: "'a fs_result \<times> 'w \<Rightarrow> ('a \<Rightarrow> 'w \<Rightarrow> 'b fs_result \<times> 'w) \<Rightarrow> 'b fs_result \<times> 'w" where
  "and_then r k = (case r of (Inl e, w) \<Rightarrow> (Inl e, w) | (Inr a, w) \<Rightarrow> k a w)"

definition get_path :: "u64 \<Rightarrow> 's world \<Rightarrow> string fs_result \<times> 's world" where
  "get_path inode w =
     (case im_get_path (inode_mgr w) inode of
        Some p \<Rightarrow> (Inr p, w)
      | None \<Rightarrow> (Inl (Err ENOENT), w))"

definition obs_path :: "config \<Rightarrow> string \<Rightarrow> string" where
  "obs_path cfg path =
     (case obs_prefix (cfg_obs cfg) of
        Some prefix \<Rightarrow>
          if path = [] then prefix else trim_end_matches slash prefix @ ''/'' @ path
      | None \<Rightarrow> path)"

definition as_dir :: "string \<Rightarrow> string" where
  "as_dir path = trim_end_matches slash path @ ''/''"

section \<open>Lookup, directories and attributes\<close>

definition lookup_cached :: "clock \<Rightarrow> string \<Rightarrow> 's world \<Rightarrow> (u64 \<times> file_attr) option \<times> 's world" where
  "lookup_cached c child_path w =
     (case get_inode (inode_mgr w) child_path of
        None \<Rightarrow> (None, w)
      | Some inode \<Rightarrow>
          (case in_meta (get_attr (now_mono c) inode) w of
             (Some attr, w1) \<Rightarrow> (Some (inode, attr), w1)
           | (None, w1) \<Rightarrow> (None, w1)))"

text \<open>What a lookup, a creation and a listing do with an object they found.\<close>

definition remember ::
  "clock \<Rightarrow> string \<Rightarrow> bool \<Rightarrow> u64 \<Rightarrow> (u64 \<Rightarrow> file_attr) \<Rightarrow> 's world \<Rightarrow> (u64 \<times> file_attr) \<times> 's world" where
  "remember c path is_dir sz attr_of w =
     (case get_or_create_inode c path is_dir sz (inode_mgr w) of
        (inode, im) \<Rightarrow>
          ((inode, attr_of inode),
           w\<lparr>inode_mgr := im, meta_cache := put_attr (now_mono c) inode (attr_of inode) (meta_cache w)\<rparr>))"

definition lookup_remote ::
  "'s operator \<Rightarrow> clock \<Rightarrow> string \<Rightarrow> 's world \<Rightarrow> (u64 \<times> file_attr) fs_result \<times> 's world" where
  "lookup_remote op c child_path w =
     (let perm = cfg_permission (w_config w);
          path = obs_path (w_config w) child_path;
          of_meta = (\<lambda>meta inode. from_object_meta (now_wall c) perm inode meta)
      in case in_net (oc_stat op path) w of
           (Inr meta, w1) \<Rightarrow>
             (case remember c child_path (om_is_dir meta) (om_size meta) (of_meta meta) w1 of (r, w2) \<Rightarrow> (Inr r, w2))
         | (Inl _, w1) \<Rightarrow>
             (case in_net (oc_stat op (as_dir path)) w1 of
                (Inr meta, w2) \<Rightarrow>
                  (case remember c child_path True 0 (of_meta meta) w2 of (r, w3) \<Rightarrow> (Inr r, w3))
              | (Inl _, w2) \<Rightarrow>
                  (case in_net (oc_list op (as_dir path)) w2 of
                     (Inr (e # es), w3) \<Rightarrow>
                       (case remember c child_path True 0
                               (\<lambda>inode. new_directory_attr (now_wall c) perm inode None) w3 of
                          (r, w4) \<Rightarrow> (Inr r, w4))
                   | (_, w3) \<Rightarrow>
                       (Inl (Err ENOENT),
                        w3\<lparr>meta_cache := put_negative (now_mono c) child_path (meta_cache w3)\<rparr>))))"

definition do_lookup ::
  "'s operator \<Rightarrow> clock \<Rightarrow> u64 \<Rightarrow> string \<Rightarrow> 's world \<Rightarrow> (u64 \<times> file_attr) fs_result \<times> 's world" where
  "do_lookup op c parent name w =
     and_then (get_path parent w) (\<lambda>parent_path w.
       (let child_path = join_path parent_path name
        in case is_negative (now_mono c) child_path (meta_cache w) of
             (True, mc) \<Rightarrow> (Inl (Err ENOENT), w\<lparr>meta_cache := mc\<rparr>)
           | (False, mc) \<Rightarrow>
               (case lookup_cached c child_path (w\<lparr>meta_cache := mc\<rparr>) of
                  (Some r, w1) \<Rightarrow> (Inr r, w1)
                | (None, w1) \<Rightarrow> lookup_remote op c child_path w1)))"

definition dot_entries :: "u64 \<Rightarrow> string \<Rightarrow> int \<Rightarrow> inode_manager \<Rightarrow> dir_entry list" where
  "dot_entries inode path offset im =
     (if offset < 1 then [dot inode] else []) @
     (if offset < 2
      then [dotdot (if inode = ROOT_INODE then ROOT_INODE
                    else (case Option.bind (parent_path path) (get_inode im) of
                            Some i \<Rightarrow> i
                          | None \<Rightarrow> ROOT_INODE))]
      else [])"

definition skip_name :: "string \<Rightarrow> bool" where
  "skip_name name \<longleftrightarrow> name = [] \<or> name = ''.'' \<or> name = ''..''"

text \<open>The loop over the listed objects, with the offset of the next entry.\<close>

fun readdir_loop ::
  "clock \<Rightarrow> string \<Rightarrow> int \<Rightarrow> int \<Rightarrow> object_meta list \<Rightarrow> 's world \<Rightarrow> dir_entry list \<times> u64 list \<times> 's world" where
  "readdir_loop c path offset entry_offset [] w = ([], [], w)"
| "readdir_loop c path offset entry_offset (meta # metas) w =
     (if entry_offset \<le> offset then readdir_loop c path offset (entry_offset + 1) metas w
      else if skip_name (om_name meta) then readdir_loop c path offset entry_offset metas w
      else (case remember c (join_path path (om_name meta)) (om_is_dir meta) (om_size meta)
                   (\<lambda>inode. from_object_meta (now_wall c) (cfg_permission (w_config w)) inode meta) w of
              ((inode, _), w1) \<Rightarrow>
                (case readdir_loop c path offset (entry_offset + 1) metas w1 of
                   (es, inodes, w2) \<Rightarrow>
                     (dir_entry_new inode (om_name meta)
                        (if om_is_dir meta then Directory else RegularFile) entry_offset # es,
                      inode # inodes, w2))))"

definition do_readdir ::
  "'s operator \<Rightarrow> clock \<Rightarrow> u64 \<Rightarrow> int \<Rightarrow> 's world \<Rightarrow> dir_entry list fs_result \<times> 's world" where
  "do_readdir op c inode offset w =
     and_then (get_path inode w) (\<lambda>path w.
       (let path0 = obs_path (w_config w) path;
            list_prefix = (if path0 = [] then [] else as_dir path0)
        in and_then (or_errno EIO (in_net (oc_list_dir op list_prefix) w)) (\<lambda>metas w1.
             (case readdir_loop c path offset 3 metas w1 of
                (es, inodes, w2) \<Rightarrow>
                  (Inr (dot_entries inode path offset (inode_mgr w) @ es),
                   w2\<lparr>inode_mgr := set_children c inode inodes (inode_mgr w2)\<rparr>)))))"

definition stat_errno :: "obs_fuse_error abort \<Rightarrow> int abort" where
  "stat_errno = map_err (\<lambda>e. if e = Storage OdNotFound then ENOENT else EIO)"

definition do_getattr :: "'s operator \<Rightarrow> clock \<Rightarrow> u64 \<Rightarrow> 's world \<Rightarrow> file_attr fs_result \<times> 's world" where
  "do_getattr op c inode w =
     (case in_meta (get_attr (now_mono c) inode) (w\<lparr>w_metrics := inc_getattr_ops (w_metrics w)\<rparr>) of
        (Some attr, w1) \<Rightarrow> (Inr attr, w1)
      | (None, w1) \<Rightarrow>
          and_then (get_path inode w1) (\<lambda>path w1.
            (case in_net (oc_stat op (obs_path (w_config w1) path)) w1 of
               (Inl e, w2) \<Rightarrow> (Inl (stat_errno e), w2)
             | (Inr meta, w2) \<Rightarrow>
                 (let attr = from_object_meta (now_wall c) (cfg_permission (w_config w2)) inode meta
                  in (Inr attr, w2\<lparr>meta_cache := put_attr (now_mono c) inode attr (meta_cache w2)\<rparr>)))))"

section \<open>Reading and writing\<close>

definition slice :: "nat \<Rightarrow> nat \<Rightarrow> bytes \<Rightarrow> bytes" where
  "slice a b data = take (b - a) (drop a data)"

definition read_remote ::
  "'s operator \<Rightarrow> clock \<Rightarrow> u64 \<Rightarrow> string \<Rightarrow> u64 \<Rightarrow> u32 \<Rightarrow> 's world \<Rightarrow> bytes fs_result \<times> 's world" where
  "read_remote op c inode path offset sz w =
     and_then (or_errno EIO (in_net (oc_read_range op path offset (ucast sz)) w)) (\<lambda>data w1.
       (case dc_put (now_mono c) inode offset data (block_cache w1) of
          None \<Rightarrow> (Inl Panic, w1)
        | Some dc \<Rightarrow>
            (case record_read (now_mono c) inode offset (ucast sz) (ra_mgr w1) of
               (request, ra) \<Rightarrow>
                 (Inr data,
                  w1\<lparr>block_cache := dc, ra_mgr := ra,
                     w_prefetches := w_prefetches w1 @ (case request of Some p \<Rightarrow> [(path, p)] | None \<Rightarrow> []),
                     w_metrics := add_read_bytes (len64 data) (w_metrics w1)\<rparr>))))"

definition do_read ::
  "'s operator \<Rightarrow> clock \<Rightarrow> u64 \<Rightarrow> u64 \<Rightarrow> u64 \<Rightarrow> u32 \<Rightarrow> 's world \<Rightarrow> bytes fs_result \<times> 's world" where
  "do_read op c inode fh offset sz w =
     and_then (get_path inode (w\<lparr>w_metrics := inc_read_ops (w_metrics w)\<rparr>)) (\<lambda>path w.
       (let path0 = obs_path (w_config w) path;
            w0 = w\<lparr>handle_mgr := hm_update fh (update_position (now_mono c) offset (ucast sz)) (handle_mgr w)\<rparr>
        in case get_prefetched (now_mono c) \<lparr>pk_inode = inode, pk_offset = offset\<rparr> (ra_mgr w0) of
             (Some data, ra) \<Rightarrow> (Inr (slice 0 (min (unat sz) (length data)) data), w0\<lparr>ra_mgr := ra\<rparr>)
           | (None, ra) \<Rightarrow>
               (let w1 = w0\<lparr>ra_mgr := ra\<rparr>
                in case dc_get (now_mono c) inode offset (block_cache w1, w_metrics w1) of
                     None \<Rightarrow> (Inl Panic, w1)
                   | Some (cached, (dc, mt)) \<Rightarrow>
                       (let w2 = w1\<lparr>block_cache := dc, w_metrics := mt\<rparr>
                        in case cached of
                             None \<Rightarrow> read_remote op c inode path0 offset sz w2
                           | Some data \<Rightarrow>
                               (let start = unat (offset mod dc_block_size dc)
                                in if start < length data
                                   then (Inr (slice start (min (start + unat sz) (length data)) data), w2)
                                   else read_remote op c inode path0 offset sz w2)))))"

text \<open>A prefetch task that was spawned runs.\<close>

definition run_prefetch :: "'s operator \<Rightarrow> clock \<Rightarrow> nat \<Rightarrow> 's world \<Rightarrow> 's world" where
  "run_prefetch op c n w =
     (if n < length (w_prefetches w)
      then (case w_prefetches w ! n of
              (path, p) \<Rightarrow>
                (case prefetch_task op (now_mono c) path p (ra_mgr w, (w_metrics w, w_store w)) of
                   (ra, (mt, s)) \<Rightarrow>
                     w\<lparr>ra_mgr := ra, w_metrics := mt, w_store := s,
                       w_prefetches := take n (w_prefetches w) @ drop (Suc n) (w_prefetches w)\<rparr>))
      else w)"

definition do_write ::
  "'s operator \<Rightarrow> clock \<Rightarrow> u64 \<Rightarrow> u64 \<Rightarrow> u64 \<Rightarrow> bytes \<Rightarrow> 's world \<Rightarrow> nat fs_result \<times> 's world" where
  "do_write op c inode fh offset data w =
     and_then (get_path inode (w\<lparr>w_metrics := inc_write_ops (w_metrics w)\<rparr>)) (\<lambda>path w.
       (case in_meta (get_attr (now_mono c) inode) w of
          (cached, w1) \<Rightarrow>
            (let file_size = (case cached of Some a \<Rightarrow> fa_size a | None \<Rightarrow> 0)
             in and_then (or_errno EIO (in_wb
                    (wb_write op (now_mono c) inode (obs_path (w_config w1) path) offset data file_size) w1))
                  (\<lambda>written w2.
                    (let new_size = offset + of_nat written;
                         w3 = w2\<lparr>handle_mgr := hm_update fh
                                   (\<lambda>h. mark_dirty (update_position (now_mono c) offset (of_nat written) h))
                                   (handle_mgr w2),
                                 meta_cache := mc_update_attr (now_mono c) inode
                                   (\<lambda>a. a\<lparr>fa_size := max (fa_size a) new_size, fa_mtime := now_wall c\<rparr>)
                                   (meta_cache w2),
                                 inode_mgr := im_update_size c inode new_size (inode_mgr w2)\<rparr>
                     in case dc_invalidate_range inode offset written (block_cache w3) of
                          None \<Rightarrow> (Inl Panic, w3)
                        | Some dc \<Rightarrow>
                            (Inr written,
                             w3\<lparr>block_cache := dc,
                                w_metrics := add_write_bytes (of_nat written) (w_metrics w3)\<rparr>))))))"

section \<open>Creating, removing and renaming\<close>

definition child_paths :: "u64 \<Rightarrow> string \<Rightarrow> 's world \<Rightarrow> (string \<times> string) fs_result \<times> 's world" where
  "child_paths parent name w =
     and_then (get_path parent w) (\<lambda>parent_path w.
       (Inr (join_path parent_path name, obs_path (w_config w) (join_path parent_path name)), w))"

definition do_create ::
  "'s operator \<Rightarrow> clock \<Rightarrow> u64 \<Rightarrow> string \<Rightarrow> u32 \<Rightarrow> u32 \<Rightarrow> 's world \<Rightarrow> (u64 \<times> file_attr \<times> u64) fs_result \<times> 's world" where
  "do_create op c parent name mode flags w =
     and_then (child_paths parent name w) (\<lambda>(child_path, path) w.
     and_then (or_errno EIO (in_net (oc_write op path []) w)) (\<lambda>_ w1.
       (case remember c child_path False 0
               (\<lambda>inode. new_file_attr (now_wall c) (cfg_permission (w_config w1)) inode (Some mode)) w1 of
          ((inode, attr), w2) \<Rightarrow>
            (case hm_open (now_mono c) inode flags False (handle_mgr w2) of
               (fh, hm) \<Rightarrow>
                 (Inr (inode, attr, fh),
                  w2\<lparr>meta_cache := invalidate_dir parent (remove_negative child_path (meta_cache w2)),
                     handle_mgr := hm\<rparr>)))))"

definition do_mkdir ::
  "'s operator \<Rightarrow> clock \<Rightarrow> u64 \<Rightarrow> string \<Rightarrow> u32 \<Rightarrow> 's world \<Rightarrow> (u64 \<times> file_attr) fs_result \<times> 's world" where
  "do_mkdir op c parent name mode w =
     and_then (child_paths parent name w) (\<lambda>(child_path, path) w.
     and_then (or_errno EIO (in_net (oc_create_dir op path) w)) (\<lambda>_ w1.
       (case remember c child_path True 0
               (\<lambda>inode. new_directory_attr (now_wall c) (cfg_permission (w_config w1)) inode (Some mode)) w1 of
          (r, w2) \<Rightarrow>
            (Inr r, w2\<lparr>meta_cache := invalidate_dir parent (remove_negative child_path (meta_cache w2))\<rparr>))))"

definition forget_file :: "string \<Rightarrow> 's world \<Rightarrow> 's world" where
  "forget_file child_path w =
     (case get_inode (inode_mgr w) child_path of
        None \<Rightarrow> w
      | Some inode \<Rightarrow>
          w\<lparr>meta_cache := mc_invalidate inode (meta_cache w),
            block_cache := dc_invalidate inode (block_cache w),
            ra_mgr := ra_invalidate inode (ra_mgr w),
            inode_mgr := im_remove inode (inode_mgr w)\<rparr>)"

definition do_unlink :: "'s operator \<Rightarrow> u64 \<Rightarrow> string \<Rightarrow> 's world \<Rightarrow> unit fs_result \<times> 's world" where
  "do_unlink op parent name w =
     and_then (child_paths parent name w) (\<lambda>(child_path, path) w.
     and_then (or_errno EIO (in_net (oc_delete op path) w)) (\<lambda>_ w1.
       (let w2 = forget_file child_path w1
        in (Inr (), w2\<lparr>meta_cache := invalidate_dir parent (meta_cache w2)\<rparr>))))"

definition ends_with_str :: "string \<Rightarrow> string \<Rightarrow> bool" where
  "ends_with_str suffix s \<longleftrightarrow> strip_prefix (rev s) (rev suffix) \<noteq> None"

definition do_rmdir :: "'s operator \<Rightarrow> u64 \<Rightarrow> string \<Rightarrow> 's world \<Rightarrow> unit fs_result \<times> 's world" where
  "do_rmdir op parent name w =
     and_then (child_paths parent name w) (\<lambda>(child_path, path) w.
     and_then (or_errno EIO (in_net (oc_list op (as_dir path)) w)) (\<lambda>entries w1.
       (if filter (\<lambda>e. om_path e \<noteq> as_dir path \<and> \<not> ends_with_str ''/.'' (om_path e)) entries \<noteq> []
        then (Inl (Err ENOTEMPTY), w1)
        else
          (let w2 = snd (in_net (oc_delete op (as_dir path)) w1);
               w3 = (case get_inode (inode_mgr w2) child_path of
                       None \<Rightarrow> w2
                     | Some inode \<Rightarrow> w2\<lparr>meta_cache := mc_invalidate inode (meta_cache w2),
                                       inode_mgr := im_remove inode (inode_mgr w2)\<rparr>)
           in (Inr (), w3\<lparr>meta_cache := invalidate_dir parent (meta_cache w3)\<rparr>)))))"

definition do_rename ::
  "'s operator \<Rightarrow> clock \<Rightarrow> u64 \<Rightarrow> string \<Rightarrow> u64 \<Rightarrow> string \<Rightarrow> 's world \<Rightarrow> unit fs_result \<times> 's world" where
  "do_rename op c parent name new_parent new_name w =
     and_then (child_paths parent name w) (\<lambda>(old_path, old_obs) w.
     and_then (child_paths new_parent new_name w) (\<lambda>(new_path, new_obs) w.
     and_then (or_errno EIO (in_net (oc_copy op old_obs new_obs) w)) (\<lambda>_ w1.
     and_then (or_errno EIO (in_net (oc_delete op old_obs) w1)) (\<lambda>_ w2.
       (let im = im_rename c old_path new_path (inode_mgr w2);
            mc1 = (case get_inode im new_path of
                     Some inode \<Rightarrow> mc_invalidate inode (meta_cache w2)
                   | None \<Rightarrow> meta_cache w2);
            mc2 = invalidate_dir parent mc1;
            mc3 = (if parent \<noteq> new_parent then invalidate_dir new_parent mc2 else mc2)
        in (Inr (), w2\<lparr>inode_mgr := im, meta_cache := mc3\<rparr>))))))"

section \<open>Handles, flushing and truncation\<close>

definition do_open :: "clock \<Rightarrow> u64 \<Rightarrow> u32 \<Rightarrow> 's world \<Rightarrow> u64 \<times> 's world" where
  "do_open c inode flags w =
     (case hm_open (now_mono c) inode flags False (handle_mgr w) of (fh, hm) \<Rightarrow> (fh, w\<lparr>handle_mgr := hm\<rparr>))"

definition do_opendir :: "clock \<Rightarrow> u64 \<Rightarrow> u32 \<Rightarrow> 's world \<Rightarrow> u64 \<times> 's world" where
  "do_opendir c inode flags w =
     (case hm_open (now_mono c) inode flags True (handle_mgr w) of (fh, hm) \<Rightarrow> (fh, w\<lparr>handle_mgr := hm\<rparr>))"

definition do_close :: "u64 \<Rightarrow> 's world \<Rightarrow> 's world" where
  "do_close fh w = w\<lparr>handle_mgr := snd (hm_close fh (handle_mgr w))\<rparr>"

definition do_release :: "'s operator \<Rightarrow> u64 \<Rightarrow> u64 \<Rightarrow> 's world \<Rightarrow> unit fs_result \<times> 's world" where
  "do_release op inode fh w =
     and_then (or_errno EIO (in_wb (wb_release op inode) w)) (\<lambda>_ w1.
       (Inr (), w1\<lparr>handle_mgr := snd (hm_close fh (handle_mgr w1)),
                   meta_cache := invalidate_attr inode (meta_cache w1)\<rparr>))"

definition do_fsync :: "'s operator \<Rightarrow> u64 \<Rightarrow> 's world \<Rightarrow> unit fs_result \<times> 's world" where
  "do_fsync op inode w = or_errno EIO (in_wb (sync_flush op inode) w)"

definition do_flush :: "'s operator \<Rightarrow> u64 \<Rightarrow> 's world \<Rightarrow> unit fs_result \<times> 's world" where
  "do_flush op inode w = or_errno EIO (in_wb (wb_flush op inode) w)"

definition do_truncate :: "'s operator \<Rightarrow> clock \<Rightarrow> u64 \<Rightarrow> u64 \<Rightarrow> 's world \<Rightarrow> unit fs_result \<times> 's world" where
  "do_truncate op c inode sz w =
     and_then (get_path inode w) (\<lambda>path w.
     and_then (or_errno EIO (in_wb (wb_truncate op (now_mono c) inode (obs_path (w_config w) path) sz) w)) (\<lambda>_ w1.
       (Inr (), w1\<lparr>block_cache := dc_invalidate inode (block_cache w1),
                   ra_mgr := ra_invalidate inode (ra_mgr w1)\<rparr>)))"

definition core_flush_all :: "'s operator \<Rightarrow> 's world \<Rightarrow> unit fs_result \<times> 's world" where
  "core_flush_all op w = or_errno EIO (in_wb (wb_flush_all op) w)"

definition do_access :: "u64 \<Rightarrow> 's world \<Rightarrow> unit fs_result" where
  "do_access inode w = (if get_entry (inode_mgr w) inode \<noteq> None then Inr () else Inl (Err ENOENT))"

end
