(* ===== verification/CoreProps.thy ===== *)
theory CoreProps
  imports Core
begin

text \<open>
  Properties of the core operations: what is written is read back, what the caches and the write
  buffer hide, lookups after creation and removal, directory paging and failing releases.
\<close>

section \<open>Running the parts\<close>

lemma and_then_simps [simp]:
  "and_then (Inr a, w) k = k a w"
  "and_then (Inl e, w) k = (Inl e, w)"
  by (simp_all add: and_then_def)

lemma or_errno_simps [simp]:
  "or_errno n (Inr a, w) = (Inr a, w)"
  "or_errno n (Inl e, w) = (Inl (map_err (\<lambda>_. n) e), w)"
  by (simp_all add: or_errno_def)

lemma and_then_Inr:
  "and_then r k = (Inr b, w') \<longleftrightarrow> (\<exists>a w. r = (Inr a, w) \<and> k a w = (Inr b, w'))"
  by (cases r; cases "fst r") auto

lemma or_errno_Inr [simp]: "or_errno n r = (Inr a, w) \<longleftrightarrow> r = (Inr a, w)"
  by (cases r; cases "fst r") auto

lemma get_path_Inr [simp]:
  "get_path i w = (Inr p, w') \<longleftrightarrow> im_get_path (inode_mgr w) i = Some p \<and> w' = w"
  by (auto simp: get_path_def split: option.splits)

lemma child_paths_Inr:
  "child_paths parent name w = (Inr (cp, path), w') \<longleftrightarrow>
     (\<exists>pp. im_get_path (inode_mgr w) parent = Some pp \<and> cp = join_path pp name) \<and>
     path = obs_path (w_config w) cp \<and> w' = w"
  by (auto simp: child_paths_def and_then_Inr)

lemma in_net_Inr:
  "in_net f w = (r, w') \<longleftrightarrow>
     (\<exists>mt s. f (w_metrics w, w_store w) = (r, (mt, s)) \<and> w' = w\<lparr>w_metrics := mt, w_store := s\<rparr>)"
  by (auto simp: in_net_def split: prod.splits)

lemma in_wb_Inr:
  "in_wb f w = (r, w') \<longleftrightarrow>
     (\<exists>wb mt s. f (write_buf w, (w_metrics w, w_store w)) = (r, (wb, (mt, s))) \<and>
        w' = w\<lparr>write_buf := wb, w_metrics := mt, w_store := s\<rparr>)"
  by (auto simp: in_wb_def split: prod.splits)

lemma in_meta_effect:
  "\<exists>r mc mt. in_meta (get_attr t i) w = (r, w\<lparr>meta_cache := mc, w_metrics := mt\<rparr>)"
  by (auto simp: in_meta_def split: prod.splits)

section \<open>Nothing cached for an inode\<close>

definition no_cached_data :: "u64 \<Rightarrow> 's world \<Rightarrow> bool" where
  "no_cached_data i w \<longleftrightarrow>
     (\<forall>k. bk_inode k = i \<longrightarrow> dash_get (memory_cache (block_cache w)) k = None \<and>
        (\<forall>dk. dc_disk_cache (block_cache w) = Some dk \<longrightarrow> dash_get (dk_entries dk) k = None)) \<and>
     (\<forall>k. pk_inode k = i \<longrightarrow> dash_get (prefetch_buffer (ra_mgr w)) k = None)"

lemma no_cached_prefetch:
  "no_cached_data i w \<Longrightarrow> get_prefetched t \<lparr>pk_inode = i, pk_offset = off\<rparr> (ra_mgr w) = (None, ra_mgr w)"
  by (simp add: no_cached_data_def get_prefetched_def)

lemma no_cached_block:
  assumes "no_cached_data i w" "dc_block_size (block_cache w) \<noteq> 0"
  shows "\<exists>mt'. dc_get t i off (block_cache w, mt) = Some (None, (block_cache w, mt'))"
proof (cases "dc_disk_cache (block_cache w)")
  case None
  with assms show ?thesis by (simp add: no_cached_data_def dc_get_def block_key_new_def)
next
  case (Some dk)
  with assms have "dc_get t i off (block_cache w, mt) =
      Some (None, ((block_cache w)\<lparr>dc_disk_cache := Some dk\<rparr>, inc_read_cache_miss mt))"
    by (simp add: no_cached_data_def dc_get_def block_key_new_def dk_get_def)
  then show ?thesis using Some by (metis data_cache.surjective data_cache.update_convs(2))
qed

lemma range_invalidation_only_removes:
  assumes "dc_invalidate_range i off n dc = Some dc'"
  shows "dc_block_size dc' = dc_block_size dc \<and> dc_disk_cache dc' = dc_disk_cache dc \<and>
    (\<forall>k. dash_get (memory_cache dc) k = None \<longrightarrow> dash_get (memory_cache dc') k = None)"
proof -
  let ?bs = "dc_block_size dc"
  let ?ns = "map of_nat [unat (off div ?bs) ..< unat ((off + of_nat n + ?bs - 1) div ?bs)]"
  obtain m r where m: "remove_blocks i ?bs ?ns (memory_cache dc, 0) = (m, r)" by (rule prod.exhaust)
  have "?bs \<noteq> 0" using assms by (auto simp: dc_invalidate_range_def Let_def split: if_splits)
  then have dc': "dc' = dc\<lparr>memory_cache := m, memory_usage := saturating_sub (memory_usage dc) r\<rparr>"
    using assms m by (simp add: dc_invalidate_range_def Let_def)
  have "set m \<subseteq> set (memory_cache dc)"
    using remove_blocks_filter [of i ?bs ?ns "memory_cache dc" 0] m by auto
  then show ?thesis by (auto simp: dc' map_of_eq_None_iff)
qed

section \<open>Reads from the store\<close>

text \<open>A read of an inode without cached data goes to the store.\<close>

lemma do_read_remote:
  assumes "no_cached_data i w" "dc_block_size (block_cache w) \<noteq> 0" "im_get_path (inode_mgr w) i = Some p"
  shows "\<exists>w'. do_read op c i fh off sz w = read_remote op c i (obs_path (w_config w) p) off sz w' \<and>
     w_store w' = w_store w \<and> block_cache w' = block_cache w \<and> ra_mgr w' = ra_mgr w \<and>
     inode_mgr w' = inode_mgr w \<and> w_config w' = w_config w"
proof -
  obtain mt' where g: "dc_get (now_mono c) i off (block_cache w, inc_read_ops (w_metrics w)) =
      Some (None, (block_cache w, mt'))"
    using no_cached_block [OF assms(1,2)] by blast
  have p: "get_prefetched (now_mono c) \<lparr>pk_inode = i, pk_offset = off\<rparr> (ra_mgr w) = (None, ra_mgr w)"
    by (rule no_cached_prefetch [OF assms(1)])
  have "do_read op c i fh off sz w =
      read_remote op c i (obs_path (w_config w) p) off sz
        (w\<lparr>handle_mgr := hm_update fh (update_position (now_mono c) off (ucast sz)) (handle_mgr w),
           w_metrics := mt'\<rparr>)"
    using assms(3) p g by (simp add: do_read_def get_path_def Let_def)
  then show ?thesis by auto
qed

lemma read_remote_data:
  assumes "faithful_store op obj" "read_remote op c i path off sz w = (Inr data, w')"
  shows "\<exists>x. obj (w_store w) path = Some x \<and>
     data = take (unat (off + ucast sz) - unat off) (drop (unat off) x) \<and> obj (w_store w') = obj (w_store w)"
proof -
  obtain r1 w1 where e: "in_net (oc_read_range op path off (ucast sz)) w = (r1, w1)" by (rule prod.exhaust)
  obtain data0 where d: "r1 = Inr data0" using assms(2) e by (cases r1) (simp_all add: read_remote_def)
  have same: "data0 = data" "w_store w' = w_store w1"
    using assms(2) by (auto simp: read_remote_def e d split: option.splits prod.splits)
  obtain mt s where r: "oc_read_range op path off (ucast sz) (w_metrics w, w_store w) = (Inr data, (mt, s))"
      "w_store w' = s"
    using e d same by (auto simp: in_net_Inr)
  obtain y s1 where y: "op_read_range op path off (off + ucast sz) (w_store w) = (y, s1)" by (rule prod.exhaust)
  then obtain d where "y = Inr d" using r(1) by (cases y) (auto simp: oc_read_range_def)
  then show ?thesis using assms(1) r y by (fastforce simp: oc_read_range_def faithful_store_def)
qed

section \<open>Writing a file from its start\<close>

definition ready :: "u64 \<Rightarrow> string \<Rightarrow> u64 \<Rightarrow> bytes \<Rightarrow> write_buffer \<Rightarrow> bool" where
  "ready i path off data wb \<longleftrightarrow>
     (case dash_get (wb_buffers wb) i of
        None \<Rightarrow> data = [] \<and> off = 0
      | Some b \<Rightarrow> collects path off data b)"

lemma wb_write_quiet:
  assumes "ready i path off data wb" "fits (wb_config wb) (data @ d)"
  shows "\<exists>b. wb_write op now i path off d fsz (wb, net) =
      (Inr (length d), (wb\<lparr>wb_buffers := dash_insert i b (wb_buffers wb)\<rparr>, net)) \<and>
    collects path (off + len64 d) (data @ d) b"
proof -
  define b where "b = (case dash_get (wb_buffers wb) i of None \<Rightarrow> file_write_buffer_new now i path fsz | Some b \<Rightarrow> b)"
  have b: "next_offset b = off" "sequential_write b" "fw_multipart b = None" "fw_data b = data" "fw_path b = path"
    using assms(1) by (auto simp: b_def ready_def collects_def fw_defs split: option.splits)
  let ?b = "append_data now off d (note_offset off d b)"
  have w: "write_locked op (wb_config wb) now path off d (b, net) = (Inr (length d), (?b, net))"
    using assms(2) b by (intro write_locked_quiet) auto
  have "wb_write op now i path off d fsz (wb, net) =
      (Inr (length d), (wb\<lparr>wb_buffers := dash_insert i ?b (wb_buffers wb)\<rparr>, net))"
    using w by (cases "dash_get (wb_buffers wb) i")
      (simp_all add: wb_write_def get_or_create_def b_def Let_def)
  moreover have "collects path (off + len64 d) (data @ d) ?b"
    using b by (simp add: collects_def fw_defs)
  ultimately show ?thesis by blast
qed

lemma update_size_path [simp]: "im_get_path (im_update_size c i sz m) j = im_get_path m j"
  by (auto simp: im_update_size_def im_update_attr_def modify_entry_def im_get_path_def option.map_comp comp_def)

lemma do_write_quiet:
  assumes "im_get_path (inode_mgr w) i = Some p" "dc_block_size (block_cache w) \<noteq> 0"
    and "ready i (obs_path (w_config w) p) off data (write_buf w)" "fits (wb_config (write_buf w)) (data @ d)"
  shows "\<exists>w'. do_write op c i fh off d w = (Inr (length d), w') \<and> w_store w' = w_store w \<and>
     im_get_path (inode_mgr w') i = Some p \<and> w_config w' = w_config w \<and> ra_mgr w' = ra_mgr w \<and>
     dc_invalidate_range i off (length d) (block_cache w) = Some (block_cache w') \<and>
     wb_config (write_buf w') = wb_config (write_buf w) \<and>
     ready i (obs_path (w_config w) p) (off + len64 d) (data @ d) (write_buf w') \<and>
     dash_get (wb_buffers (write_buf w')) i \<noteq> None"
proof -
  let ?path = "obs_path (w_config w) p"
  obtain cached mc mt where m: "in_meta (get_attr (now_mono c) i) (w\<lparr>w_metrics := inc_write_ops (w_metrics w)\<rparr>) =
      (cached, w\<lparr>meta_cache := mc, w_metrics := mt\<rparr>)"
    using in_meta_effect [of "now_mono c" i "w\<lparr>w_metrics := inc_write_ops (w_metrics w)\<rparr>"] by auto
  obtain b where b: "wb_write op (now_mono c) i ?path off d (case cached of None \<Rightarrow> 0 | Some a \<Rightarrow> fa_size a)
      (write_buf w, (mt, w_store w)) =
      (Inr (length d), ((write_buf w)\<lparr>wb_buffers := dash_insert i b (wb_buffers (write_buf w))\<rparr>, (mt, w_store w)))"
      "collects ?path (off + len64 d) (data @ d) b"
    using wb_write_quiet [OF assms(3,4)] by blast
  obtain dc where dc: "dc_invalidate_range i off (length d) (block_cache w) = Some dc"
    using assms(2)
    by (cases "dc_invalidate_range i off (length d) (block_cache w)")
      (auto simp: dc_invalidate_range_def Let_def split: prod.splits)
  show ?thesis
    using assms(1) m b dc
    by (simp add: do_write_def get_path_def in_wb_def or_errno_def ready_def Let_def)
qed

lemma no_cached_data_invalidate_range:
  assumes "no_cached_data i w" "dc_invalidate_range j off n (block_cache w) = Some (block_cache w')"
    and "ra_mgr w' = ra_mgr w"
  shows "no_cached_data i w' \<and> dc_block_size (block_cache w') = dc_block_size (block_cache w)"
  using assms(1,3) range_invalidation_only_removes [OF assms(2)] by (auto simp: no_cached_data_def)

fun do_writes ::
  "'s operator \<Rightarrow> u64 \<Rightarrow> u64 \<Rightarrow> u64 \<Rightarrow> (clock \<times> bytes) list \<Rightarrow> 's world \<Rightarrow> unit fs_result \<times> 's world" where
  "do_writes op i fh off [] w = (Inr (), w)"
| "do_writes op i fh off ((c, d) # ds) w =
     and_then (do_write op c i fh off d w) (\<lambda>_ w1. do_writes op i fh (off + len64 d) ds w1)"

lemma do_writes_quiet:
  assumes "im_get_path (inode_mgr w) i = Some p" "dc_block_size (block_cache w) \<noteq> 0" "no_cached_data i w"
    and "ready i (obs_path (w_config w) p) off data (write_buf w)"
    and "fits (wb_config (write_buf w)) (data @ concat (map snd ds))" "data @ concat (map snd ds) \<noteq> []"
  shows "\<exists>w' off' b. do_writes op i fh off ds w = (Inr (), w') \<and> w_store w' = w_store w \<and>
     im_get_path (inode_mgr w') i = Some p \<and> w_config w' = w_config w \<and>
     dc_block_size (block_cache w') = dc_block_size (block_cache w) \<and> no_cached_data i w' \<and>
     dash_get (wb_buffers (write_buf w')) i = Some b \<and>
     collects (obs_path (w_config w) p) off' (data @ concat (map snd ds)) b"
  using assms
proof (induction ds arbitrary: w off data)
  case Nil
  then show ?case by (auto simp: ready_def split: option.splits)
next
  case (Cons e ds)
  obtain c d where e: "e = (c, d)" by (cases e)
  have f: "fits (wb_config (write_buf w)) (data @ d)" using Cons.prems(5) by (simp add: e)
  obtain w1 where w1: "do_write op c i fh off d w = (Inr (length d), w1)" "w_store w1 = w_store w"
      "im_get_path (inode_mgr w1) i = Some p" "w_config w1 = w_config w" "ra_mgr w1 = ra_mgr w"
      "dc_invalidate_range i off (length d) (block_cache w) = Some (block_cache w1)"
      "wb_config (write_buf w1) = wb_config (write_buf w)"
      "ready i (obs_path (w_config w) p) (off + len64 d) (data @ d) (write_buf w1)"
    using do_write_quiet [OF Cons.prems(1,2,4) f, of op c fh] by blast
  have n: "no_cached_data i w1" "dc_block_size (block_cache w1) = dc_block_size (block_cache w)"
    using no_cached_data_invalidate_range [OF Cons.prems(3) w1(6,5)] by auto
  obtain w2 off' b where "do_writes op i fh (off + len64 d) ds w1 = (Inr (), w2)" "w_store w2 = w_store w1"
      "im_get_path (inode_mgr w2) i = Some p" "w_config w2 = w_config w1"
      "dc_block_size (block_cache w2) = dc_block_size (block_cache w1)" "no_cached_data i w2"
      "dash_get (wb_buffers (write_buf w2)) i = Some b"
      "collects (obs_path (w_config w1) p) off' ((data @ d) @ concat (map snd ds)) b"
    using Cons.IH [OF w1(3) _ n(1), of "off + len64 d" "data @ d"] Cons.prems w1 n(2) by (auto simp: e)
  then show ?case using w1 n(2) by (intro exI [of _ w2] exI [of _ off'] exI [of _ b]) (simp add: e)
qed

section \<open>Creation and release\<close>

lemma create_path:
  assumes "im_wf m" "get_or_create_inode c path d sz m = (i, m1)"
  shows "im_get_path m1 i = Some (normalize_path path) \<and> get_inode m1 path = Some i"
proof (cases "dash_get (path_to_inode m) (normalize_path path)")
  case None
  then show ?thesis
    using assms(2)
    by (auto simp: get_or_create_inode_def Let_def im_create_def im_get_path_def get_inode_def new_entry_def)
next
  case (Some j)
  then show ?thesis
    using assms im_wf_inverse [OF assms(1), of "normalize_path path" j]
    by (simp add: get_or_create_inode_def Let_def get_inode_def)
qed

lemma do_create_effect:
  assumes "do_create op c parent name mode flags w = (Inr (i, a, fh), w1)" "im_wf (inode_mgr w)"
    and "im_get_path (inode_mgr w) parent = Some pp"
  shows "im_get_path (inode_mgr w1) i = Some (normalize_path (join_path pp name)) \<and>
     get_inode (inode_mgr w1) (join_path pp name) = Some i \<and>
     block_cache w1 = block_cache w \<and> ra_mgr w1 = ra_mgr w \<and> write_buf w1 = write_buf w \<and> w_config w1 = w_config w \<and>
     oc_write op (obs_path (w_config w) (join_path pp name)) [] (w_metrics w, w_store w) = (Inr (), (w_metrics w1, w_store w1)) \<and>
     a = new_file_attr (now_wall c) (cfg_permission (w_config w)) i (Some mode) \<and>
     (\<exists>im. get_or_create_inode c (join_path pp name) False 0 (inode_mgr w) = (i, im) \<and> inode_mgr w1 = im) \<and>
     meta_cache w1 = invalidate_dir parent (remove_negative (join_path pp name) (put_attr (now_mono c) i a (meta_cache w))) \<and>
     hm_open (now_mono c) i flags False (handle_mgr w) = (fh, handle_mgr w1)"
proof -
  let ?cp = "join_path pp name"
  obtain r w0 where n: "in_net (oc_write op (obs_path (w_config w) ?cp) []) w = (r, w0)" by (rule prod.exhaust)
  have cp: "child_paths parent name w = (Inr (?cp, obs_path (w_config w) ?cp), w)"
    using assms(3) by (simp add: child_paths_Inr)
  obtain u where r: "r = Inr u" using assms(1) n cp by (cases r) (simp_all add: do_create_def)
  obtain j im where g: "get_or_create_inode c ?cp False 0 (inode_mgr w0) = (j, im)" by (rule prod.exhaust)
  obtain h hm where o: "hm_open (now_mono c) j flags False (handle_mgr w0) = (h, hm)" by (rule prod.exhaust)
  obtain mt s where w0: "oc_write op (obs_path (w_config w) ?cp) [] (w_metrics w, w_store w) = (Inr (), (mt, s))"
      "w0 = w\<lparr>w_metrics := mt, w_store := s\<rparr>"
    using n r by (auto simp: in_net_Inr)
  have "j = i \<and> h = fh \<and> w1 = w0\<lparr>inode_mgr := im,
      meta_cache := invalidate_dir parent (remove_negative ?cp (put_attr (now_mono c) i a (meta_cache w0))), handle_mgr := hm\<rparr> \<and>
      a = new_file_attr (now_wall c) (cfg_permission (w_config w)) i (Some mode)"
    using assms(1) n r cp g o w0(2) by (auto simp: do_create_def remember_def)
  then show ?thesis using w0 g o create_path [OF assms(2), of c ?cp False 0 i im] by auto
qed

lemma do_release_put:
  assumes "faithful_store op obj" "do_release op i fh w = (Inr u, w1)"
    and "dash_get (wb_buffers (write_buf w)) i = Some b" "collects path off data b" "data \<noteq> []"
  shows "obj (w_store w1) = (obj (w_store w))(path \<mapsto> data) \<and> inode_mgr w1 = inode_mgr w \<and>
     block_cache w1 = block_cache w \<and> ra_mgr w1 = ra_mgr w \<and> w_config w1 = w_config w \<and>
     dash_get (wb_buffers (write_buf w1)) i = None"
proof -
  obtain x w0 where wb: "in_wb (wb_release op i) w = (x, w0)" by (rule prod.exhaust)
  obtain v where x: "x = Inr v" using assms(2) wb by (cases x) (simp_all add: do_release_def)
  have w1: "w1 = w0\<lparr>handle_mgr := snd (hm_close fh (handle_mgr w0)), meta_cache := invalidate_attr i (meta_cache w0)\<rparr>"
    using assms(2) wb x by (simp add: do_release_def)
  obtain bf mt s where rel: "wb_release op i (write_buf w, (w_metrics w, w_store w)) = (Inr v, (bf, (mt, s)))"
      "w0 = w\<lparr>write_buf := bf, w_metrics := mt, w_store := s\<rparr>"
    using wb x by (auto simp: in_wb_Inr)
  obtain y mt2 s2 where put: "oc_write op path data (w_metrics w, w_store w) = (y, (mt2, s2))"
    by (metis prod.exhaust)
  have buf: "dirty b" "fw_data b = data" "fw_multipart b = None" "fw_path b = path"
    using assms(4) by (auto simp: collects_def)
  obtain z where y: "y = Inr z"
    using rel(1) assms(3,5) buf put by (cases y) (simp_all add: wb_release_def flush_put_fails)
  have "s = s2" "dash_get (wb_buffers bf) i = None"
    using rel(1) assms(3,5) buf put y by (auto simp: wb_release_def flush_put_ok)
  then show ?thesis using oc_write_ok [OF assms(1)] put y w1 rel(2) by simp
qed

text \<open>C4 (a file is read back as written): with a store that behaves as documented and a consistent
  inode table, create a file whose inode has no buffer and no cached data, write it from its start
  in any number of chunks that together are not empty and stay below the buffer size and the multipart
  threshold, release it, and read any range whose end stays below 2 to the power 64, where the creation, the
  release and the read succeed. Then every write returned, the object of the file is exactly the
  concatenation of the chunks, and the read returns exactly that range of it.\<close>

theorem file_roundtrip:
  assumes "faithful_store op obj" "im_wf (inode_mgr w)" "im_get_path (inode_mgr w) parent = Some pp"
    and "do_create op c parent name mode flags w = (Inr (i, a, fh), w1)"
    and "dash_get (wb_buffers (write_buf w)) i = None" "no_cached_data i w" "dc_block_size (block_cache w) \<noteq> 0"
    and "concat (map snd ds) \<noteq> []" "fits (wb_config (write_buf w)) (concat (map snd ds))"
    and "do_writes op i fh 0 ds w1 = (r, w2)" "do_release op i fh w2 = (Inr u, w3)"
    and "do_read op c' i fh' off sz w3 = (Inr data, w4)" "unat off + unat sz < 2 ^ 64"
  shows "r = Inr () \<and>
     obj (w_store w4) (obs_path (w_config w) (normalize_path (join_path pp name))) = Some (concat (map snd ds)) \<and>
     data = take (unat sz) (drop (unat off) (concat (map snd ds)))"
proof -
  let ?p = "normalize_path (join_path pp name)"
  let ?path = "obs_path (w_config w) ?p"
  have e: "im_get_path (inode_mgr w1) i = Some ?p" "block_cache w1 = block_cache w" "ra_mgr w1 = ra_mgr w"
      "write_buf w1 = write_buf w" "w_config w1 = w_config w"
    using do_create_effect [OF assms(4,2,3)] by auto
  have n1: "no_cached_data i w1" using assms(6) e by (simp add: no_cached_data_def)
  have rd: "ready i (obs_path (w_config w1) ?p) 0 [] (write_buf w1)" using assms(5) e by (simp add: ready_def)
  obtain off' b where w2: "r = Inr ()" "im_get_path (inode_mgr w2) i = Some ?p" "w_config w2 = w_config w1"
      "dc_block_size (block_cache w2) = dc_block_size (block_cache w1)" "no_cached_data i w2"
      "dash_get (wb_buffers (write_buf w2)) i = Some b" "collects ?path off' (concat (map snd ds)) b"
    using do_writes_quiet [OF e(1) _ n1 rd, of ds op fh] assms(7-10) e by auto
  have w3: "obj (w_store w3) = (obj (w_store w2))(?path \<mapsto> concat (map snd ds))" "inode_mgr w3 = inode_mgr w2"
      "block_cache w3 = block_cache w2" "ra_mgr w3 = ra_mgr w2" "w_config w3 = w_config w2"
    using do_release_put [OF assms(1,11) w2(6,7) assms(8)] by auto
  have n3: "no_cached_data i w3" using w2(5) w3 by (simp add: no_cached_data_def)
  have "dc_block_size (block_cache w3) \<noteq> 0" "im_get_path (inode_mgr w3) i = Some ?p"
    using assms(7) e w2 w3 by auto
  from do_read_remote [OF n3 this, of op c' fh' off sz]
  obtain w' where w': "do_read op c' i fh' off sz w3 = read_remote op c' i (obs_path (w_config w3) ?p) off sz w'"
      "w_store w' = w_store w3" by blast
  have cfg: "obs_path (w_config w3) ?p = ?path" using e w2 w3 by simp
  have "read_remote op c' i ?path off sz w' = (Inr data, w4)" using assms(12) w'(1) cfg by simp
  from read_remote_data [OF assms(1) this]
  have "obj (w_store w4) ?path = Some (concat (map snd ds))"
      "data = take (unat (off + ucast sz) - unat off) (drop (unat off) (concat (map snd ds)))"
    using w'(2) w3(1) by auto
  moreover have "unat (off + ucast sz) = unat off + unat sz"
    using unat_plus_no_wrap [of off "ucast sz"] assms(13) by simp
  ultimately show ?thesis using w2(1) by simp
qed

section \<open>A small world for concrete runs\<close>

definition demo_clock :: "int \<Rightarrow> clock" where
  "demo_clock t = \<lparr>now_mono = t, now_wall = t\<rparr>"

definition demo_disk :: disk where
  "demo_disk = \<lparr>d_files = [], d_read_fails = (\<lambda>p. False), d_write_fault = (\<lambda>p. NoFault)\<rparr>"

text \<open>Blocks of 4 bytes, buffers of 16, multipart uploads from 32 and parts of 8.\<close>

definition demo_config :: config where
  "demo_config = (config_default 1000 1000)
     \<lparr>cfg_cache := cache_config_default\<lparr>cfg_memory_limit := 64, cfg_block_size := 4\<rparr>,
      cfg_performance := performance_config_default
        \<lparr>read_ahead_window := 16, write_buffer_size := 16, cfg_multipart_threshold := 32, multipart_part_size := 8\<rparr>\<rparr>"

definition demo_world :: "(string \<times> bytes) list \<Rightarrow> map_store world" where
  "demo_world objs =
     core_new (demo_clock 0) demo_disk demo_config metrics_new \<lparr>ms_objects = objs, ms_broken = []\<rparr>"

lemmas demo_defs = demo_world_def demo_config_def demo_clock_def core_new_def mc_new_def dc_new_def
  ra_new_def readahead_config_from_def wb_new_def write_buffer_config_from_def hm_new_def
  config_default_def cache_config_default_def performance_config_default_def obs_config_default_def
  permission_config_default_def fixed_permission_default_def metadata_cache_config_default_def

lemma demo_world_facts [simp]:
  "inode_mgr (demo_world objs) = im_new (demo_clock 0) (permission_config_default 1000 1000)"
  "write_buf (demo_world objs) = wb_new \<lparr>buffer_size = 16, flush_interval = secs 30, multipart_threshold = 32, wbc_part_size = 8\<rparr>"
  "dc_block_size (block_cache (demo_world objs)) = 4" "memory_cache (block_cache (demo_world objs)) = []"
  "dc_disk_cache (block_cache (demo_world objs)) = None" "prefetch_buffer (ra_mgr (demo_world objs)) = []"
  "w_store (demo_world objs) = \<lparr>ms_objects = objs, ms_broken = []\<rparr>" "obs_path (w_config (demo_world objs)) p = p"
  "handle_mgr (demo_world objs) = hm_new" "w_metrics (demo_world objs) = metrics_new"
  by (simp_all add: demo_defs obs_path_def)

lemma demo_wf: "im_wf (inode_mgr (demo_world objs))"
  by (simp add: im_wf_new)

lemma demo_root: "im_get_path (inode_mgr (demo_world objs)) 1 = Some []"
  by (simp add: im_new_def im_init_root_def im_get_path_def ROOT_INODE_def Let_def)

lemma demo_nothing_cached: "no_cached_data i (demo_world objs)"
  by (simp add: no_cached_data_def)

lemma map_write [simp]:
  "ms_broken s = [] \<Longrightarrow> oc_write map_operator p d (mt, s) =
     (Inr (), (add_write_bytes (len64 d) (inc_obs_put mt), s\<lparr>ms_objects := dash_insert p d (ms_objects s)\<rparr>))"
  by (simp add: oc_write_def map_operator_def)

lemma normalize_f [simp]: "normalize_path ''f'' = ''f''"
  by (simp add: normalize_path_def trim_matches_def trim_start_matches_def trim_end_matches_def)

lemma demo_lookup_metrics:
  "\<exists>i a w1. do_lookup map_operator c 1 ''f'' ((demo_world [(''f'', d)])\<lparr>w_metrics := mt\<rparr>) = (Inr (i, a), w1) \<and>
     w_store w1 = w_store (demo_world [(''f'', d)]) \<and> w_config w1 = w_config (demo_world [(''f'', d)])"
proof -
  let ?w = "demo_world [(''f'', d)]"
  have m: "meta_cache ?w = mc_new metadata_cache_config_default" by (simp add: demo_defs)
  have g: "get_inode (im_new (demo_clock 0) (permission_config_default 1000 1000)) ''f'' = None"
    by (simp add: get_inode_def im_new_def im_init_root_def Let_def)
  show ?thesis
    using demo_root [of "[(''f'', d)]"]
    by (simp add: do_lookup_def get_path_def join_path_def is_negative_def m mc_new_def lookup_cached_def g
        lookup_remote_def in_net_def oc_stat_def map_operator_def obs_call_def remember_def Let_def split: prod.split)
qed

lemma demo_lookup:
  "\<exists>i a w1. do_lookup map_operator c 1 ''f'' (demo_world [(''f'', d)]) = (Inr (i, a), w1) \<and>
     w_store w1 = w_store (demo_world [(''f'', d)]) \<and> w_config w1 = w_config (demo_world [(''f'', d)])"
proof -
  have e: "(demo_world [(''f'', d)])\<lparr>w_metrics := metrics_new\<rparr> = demo_world [(''f'', d)]" by (simp add: demo_defs)
  show ?thesis using demo_lookup_metrics [of c metrics_new d] unfolding e .
qed

lemma demo_child: "child_paths 1 ''f'' (demo_world objs) = (Inr (''f'', ''f''), demo_world objs)"
  using demo_root [of objs] by (simp add: child_paths_Inr join_path_def)

lemma demo_mint: "\<exists>im. get_or_create_inode c ''f'' d sz (inode_mgr (demo_world objs)) = (2, im)"
  by (simp add: get_or_create_inode_def im_create_def im_new_def im_init_root_def ROOT_INODE_def Let_def)

lemma demo_create:
  "\<exists>a w1. do_create map_operator c 1 ''f'' mode flags (demo_world objs) = (Inr (2, a, 1), w1) \<and>
     w_store w1 = \<lparr>ms_objects = dash_insert ''f'' [] objs, ms_broken = []\<rparr>"
proof -
  obtain im where "get_or_create_inode c ''f'' False 0 (inode_mgr (demo_world objs)) = (2, im)"
    using demo_mint by blast
  then show ?thesis
    by (simp add: do_create_def demo_child in_net_def remember_def hm_open_def hm_new_def Let_def)
qed

lemma do_release_succeeds:
  assumes "dash_get (wb_buffers (write_buf w)) i = Some b" "collects path off data b" "data \<noteq> []"
    and "oc_write op path data (w_metrics w, w_store w) = (Inr u, net)"
  shows "\<exists>w1. do_release op i fh w = (Inr (), w1)"
proof -
  obtain mt s where net: "net = (mt, s)" by (cases net)
  have "flush_buffer op (wb_multipart_config (wb_config (write_buf w))) (b, (w_metrics w, w_store w)) =
      (Inr (), (b\<lparr>fw_data := [], dirty := False, original_size := fw_size b\<rparr>, (inc_write_buffer_flush mt, s)))"
    using assms net by (intro flush_put_ok) (auto simp: collects_def)
  then show ?thesis using assms(1) by (simp add: do_release_def in_wb_def wb_release_def)
qed

lemma read_remote_succeeds:
  assumes "op_read_range op path off (off + ucast sz) (w_store w) = (Inr d, s)" "dc_block_size (block_cache w) \<noteq> 0"
  shows "\<exists>w1. read_remote op c i path off sz w = (Inr d, w1)"
proof -
  obtain mt where "in_net (oc_read_range op path off (ucast sz)) w = (Inr d, w\<lparr>w_metrics := mt, w_store := s\<rparr>)"
    using assms(1) by (simp add: in_net_def oc_read_range_def)
  then show ?thesis
    using assms(2) by (auto simp: read_remote_def dc_put_def block_key_new_def split: prod.splits)
qed

lemma file_roundtrip_witness:
  "\<exists>a w1 w2 w3 w4. do_create map_operator (demo_clock 1) 1 ''f'' 420 2 (demo_world []) = (Inr (2, a, 1), w1) \<and>
     do_writes map_operator 2 1 0 [(demo_clock 2, [1, 2]), (demo_clock 3, [3, 4])] w1 = (Inr (), w2) \<and>
     do_release map_operator 2 1 w2 = (Inr (), w3) \<and>
     do_read map_operator (demo_clock 4) 2 7 1 2 w3 = (Inr [2, 3], w4)"
proof -
  let ?ds = "[(demo_clock 2, [1, 2]), (demo_clock 3, [3, 4])] :: (clock \<times> bytes) list"
  obtain a w1 where c: "do_create map_operator (demo_clock 1) 1 ''f'' 420 2 (demo_world []) = (Inr (2, a, 1), w1)"
      "w_store w1 = \<lparr>ms_objects = [(''f'', [])], ms_broken = []\<rparr>"
    using demo_create [of "demo_clock 1" 420 2 "[]"] by auto
  have np: "normalize_path (join_path [] ''f'') = ''f''"
    by (simp add: join_path_def normalize_path_def trim_matches_def trim_start_matches_def trim_end_matches_def)
  have e: "im_get_path (inode_mgr w1) 2 = Some ''f''" "block_cache w1 = block_cache (demo_world [])"
      "ra_mgr w1 = ra_mgr (demo_world [])" "write_buf w1 = write_buf (demo_world [])" "w_config w1 = w_config (demo_world [])"
    using do_create_effect [OF c(1) demo_wf demo_root] np by auto
  have n1: "no_cached_data 2 w1" using demo_nothing_cached [of 2 "[]"] e by (simp add: no_cached_data_def)
  have fits: "fits (wb_config (write_buf (demo_world []))) (concat (map snd ?ds))" "concat (map snd ?ds) \<noteq> []"
      "dash_get (wb_buffers (write_buf (demo_world []))) 2 = None" "dc_block_size (block_cache (demo_world [])) \<noteq> 0"
    by (simp_all add: wb_new_def)
  obtain w2 off b where w: "do_writes map_operator 2 1 0 ?ds w1 = (Inr (), w2)" "w_store w2 = w_store w1"
      "im_get_path (inode_mgr w2) 2 = Some ''f''" "w_config w2 = w_config w1"
      "dc_block_size (block_cache w2) = dc_block_size (block_cache w1)" "no_cached_data 2 w2"
      "dash_get (wb_buffers (write_buf w2)) 2 = Some b" "collects ''f'' off [1, 2, 3, 4] b"
    using do_writes_quiet [OF e(1) _ n1, of 0 "[]" ?ds map_operator 1] fits e by (auto simp: ready_def)
  obtain w3 where r: "do_release map_operator 2 1 w2 = (Inr (), w3)"
    using do_release_succeeds [OF w(7,8)] w(2) c(2) by (metis list.distinct(1) map_store.select_convs(2) map_write)
  have w3: "ms_obj (w_store w3) = (ms_obj (w_store w2))(''f'' \<mapsto> [1, 2, 3, 4])" "inode_mgr w3 = inode_mgr w2"
      "block_cache w3 = block_cache w2" "ra_mgr w3 = ra_mgr w2" "w_config w3 = w_config w2"
    using do_release_put [OF map_operator_faithful r w(7,8)] by auto
  have n3: "no_cached_data 2 w3" using w(6) w3 by (simp add: no_cached_data_def)
  have b3: "dc_block_size (block_cache w3) \<noteq> 0" "im_get_path (inode_mgr w3) 2 = Some ''f''"
    using e(2) w w3 by auto
  obtain w' where w': "do_read map_operator (demo_clock 4) 2 7 1 2 w3 =
      read_remote map_operator (demo_clock 4) 2 (obs_path (w_config w3) ''f'') 1 2 w'"
      "w_store w' = w_store w3" "block_cache w' = block_cache w3"
    using do_read_remote [OF n3 b3, of map_operator "demo_clock 4" 7 1 2] by blast
  have "op_read_range map_operator ''f'' 1 (1 + ucast (2 :: u32)) (w_store w') =
      (Inr (take (unat (1 + ucast (2 :: u32) :: u64) - 1) (drop 1 [1, 2, 3, 4])), w_store w')"
    using w'(2) w3(1) by (simp add: map_operator_def)
  then obtain d w4 where rd: "do_read map_operator (demo_clock 4) 2 7 1 2 w3 = (Inr d, w4)"
    using read_remote_succeeds w' b3(1) e(5) w(4) w3(5) by (metis demo_world_facts(8))
  have "d = take (unat (2 :: u32)) (drop (unat (1 :: u64)) (concat (map snd ?ds)))"
    using file_roundtrip [OF map_operator_faithful demo_wf demo_root c(1) fits(3) demo_nothing_cached fits(4,2,1) w(1) r rd]
    by simp
  then show ?thesis using c(1) w(1) r rd by auto
qed

end
