(* ===== verification/Consistency.thy ===== *)
theory Consistency
  imports CoreProps
begin

text \<open>
  How consistent the core is: what reads return after writes, lookups after creation, renaming
  and removal, what unlinking and failing releases leave behind, and directory paging.
\<close>

section \<open>Frames of the operations\<close>

lemma do_write_frame:
  assumes "do_write op c i fh off d w = (Inr n, w1)"
  shows "ra_mgr w1 = ra_mgr w \<and> w_config w1 = w_config w \<and>
     (\<forall>j. im_get_path (inode_mgr w1) j = im_get_path (inode_mgr w) j) \<and> im_get_path (inode_mgr w) i \<noteq> None"
proof -
  let ?w0 = "w\<lparr>w_metrics := inc_write_ops (w_metrics w)\<rparr>"
  obtain p where p: "im_get_path (inode_mgr w) i = Some p"
    using assms by (cases "im_get_path (inode_mgr w) i") (simp_all add: do_write_def get_path_def)
  obtain cached mc mt where m: "in_meta (get_attr (now_mono c) i) ?w0 = (cached, ?w0\<lparr>meta_cache := mc, w_metrics := mt\<rparr>)"
    using in_meta_effect [of "now_mono c" i ?w0] by blast
  obtain r wb mt2 s where b: "wb_write op (now_mono c) i (obs_path (w_config w) p) off d
      (case cached of Some a \<Rightarrow> fa_size a | None \<Rightarrow> 0) (write_buf w, (mt, w_store w)) = (r, (wb, (mt2, s)))"
    by (metis prod.exhaust)
  obtain k where r: "r = Inr k"
    using assms p m b by (cases r) (simp_all add: do_write_def get_path_def in_wb_def)
  obtain dc where "dc_invalidate_range i off k (block_cache w) = Some dc"
    using assms p m b r by (cases "dc_invalidate_range i off k (block_cache w)")
      (simp_all add: do_write_def get_path_def in_wb_def Let_def)
  then show ?thesis
    using assms p m b r by (auto simp: do_write_def get_path_def in_wb_def Let_def)
qed

lemma read_remote_effect:
  assumes "read_remote op c i path off sz w = (Inr d, w1)"
  shows "dc_put (now_mono c) i off d (block_cache w) = Some (block_cache w1) \<and>
     prefetch_buffer (ra_mgr w1) = prefetch_buffer (ra_mgr w) \<and> inode_mgr w1 = inode_mgr w \<and> w_config w1 = w_config w"
proof -
  obtain r w0 where e: "in_net (oc_read_range op path off (ucast sz)) w = (r, w0)" by (rule prod.exhaust)
  obtain d0 where r: "r = Inr d0" using assms e by (cases r) (simp_all add: read_remote_def)
  obtain req ra where rr: "record_read (now_mono c) i off (ucast sz) (ra_mgr w) = (req, ra)" by (rule prod.exhaust)
  have w0: "block_cache w0 = block_cache w" "ra_mgr w0 = ra_mgr w" "inode_mgr w0 = inode_mgr w" "w_config w0 = w_config w"
    using e by (auto simp: in_net_Inr)
  have pb: "prefetch_buffer ra = prefetch_buffer (ra_mgr w)"
    using rr by (auto simp: record_read_def Let_def split: if_splits prod.splits)
  obtain dc where dc: "dc_put (now_mono c) i off d0 (block_cache w) = Some dc"
    using assms e r w0 by (cases "dc_put (now_mono c) i off d0 (block_cache w)") (simp_all add: read_remote_def)
  then show ?thesis using assms e r rr w0 pb by (auto simp: read_remote_def)
qed

section \<open>Reads after writes\<close>

text \<open>C38 (a read after a write is stale): a write does not reach the prefetch buffer, a range that was prefetched is still served,
  with its old bytes, to every read at its offset after a successful write to the file, for as long
  as it has not expired.\<close>

theorem stale_prefetch_after_write:
  assumes "do_write op c i fh off' d w = (Inr n, w1)"
    and "fst (get_prefetched (now_mono c') \<lparr>pk_inode = i, pk_offset = off\<rparr> (ra_mgr w)) = Some data"
  shows "\<exists>w2. do_read op c' i fh' off sz w1 = (Inr (take (unat sz) data), w2) \<and> w_store w2 = w_store w1"
proof -
  have f: "ra_mgr w1 = ra_mgr w" "im_get_path (inode_mgr w1) i \<noteq> None"
    using do_write_frame [OF assms(1)] by auto
  obtain ra where g: "get_prefetched (now_mono c') \<lparr>pk_inode = i, pk_offset = off\<rparr> (ra_mgr w1) = (Some data, ra)"
    using assms(2) f(1) by (metis prod.collapse)
  have "slice 0 (min (unat sz) (length data)) data = take (unat sz) data"
    by (simp add: slice_def min_def)
  then show ?thesis
    using f(2) g by (auto simp: do_read_def get_path_def Let_def)
qed

definition prefetched_world :: "map_store world" where
  "prefetched_world = (demo_world [(''f'', [1, 2, 3, 4])])
     \<lparr>inode_mgr := snd (get_or_create_inode (demo_clock 0) ''f'' False 4 (inode_mgr (demo_world []))),
      ra_mgr := store_prefetched 0 \<lparr>pk_inode = 2, pk_offset = 0\<rparr> [1, 2, 3, 4] (ra_mgr (demo_world []))\<rparr>"

lemma prefetched_world_facts:
  "im_get_path (inode_mgr prefetched_world) 2 = Some ''f''"
  "fst (get_prefetched 0 \<lparr>pk_inode = 2, pk_offset = 0\<rparr> (ra_mgr prefetched_world)) = Some [1, 2, 3, 4]"
  "\<exists>w1. do_write map_operator (demo_clock 0) 2 1 0 [9, 9, 9, 9] prefetched_world = (Inr 4, w1)"
proof -
  show p: "im_get_path (inode_mgr prefetched_world) 2 = Some ''f''"
    by (simp add: prefetched_world_def get_or_create_inode_def im_create_def im_new_def im_init_root_def
        ROOT_INODE_def Let_def im_get_path_def new_entry_def)
  show "fst (get_prefetched 0 \<lparr>pk_inode = 2, pk_offset = 0\<rparr> (ra_mgr prefetched_world)) = Some [1, 2, 3, 4]"
    by (simp add: prefetched_world_def get_prefetched_def store_prefetched_def pd_is_expired_def elapsed_def)
  show "\<exists>w1. do_write map_operator (demo_clock 0) 2 1 0 [9, 9, 9, 9] prefetched_world = (Inr 4, w1)"
    using do_write_quiet [OF p, of 0 "[]" "[9, 9, 9, 9]" map_operator "demo_clock 0" 1]
    by (auto simp: prefetched_world_def ready_def wb_new_def)
qed

lemma stale_prefetch_after_write_witness:
  "\<exists>w1 w2. do_write map_operator (demo_clock 0) 2 1 0 [9, 9, 9, 9] prefetched_world = (Inr 4, w1) \<and>
     do_read map_operator (demo_clock 0) 2 1 0 2 w1 = (Inr [1, 2], w2)"
proof -
  obtain w1 where w: "do_write map_operator (demo_clock 0) 2 1 0 [9, 9, 9, 9] prefetched_world = (Inr 4, w1)"
    using prefetched_world_facts(3) by blast
  from stale_prefetch_after_write [OF w, of "demo_clock 0" 0 "[1, 2, 3, 4]" 1 2] w
  show ?thesis using prefetched_world_facts(2) by (auto simp: demo_clock_def)
qed

text \<open>A block is read from its start: the bytes a read fetched at any offset are cached as
  if they were the beginning of their block. A second read in the same block, within the length of
  what was fetched, returns bytes of the first fetch counted from its own offset in the block: they
  are the right bytes when the first read started at a block boundary, and bytes from a wrong place
  of the file otherwise.\<close>

theorem cached_block_read_from_start:
  assumes "faithful_store op obj" "no_cached_data i w" "im_get_path (inode_mgr w) i = Some p"
    and "dc_block_size (block_cache w) = bs" "bs \<noteq> 0"
    and "do_read op c i fh off sz w = (Inr d, w1)" "unat off + unat sz < 2 ^ 64"
    and "unat off' div unat bs = unat off div unat bs" "unat off' mod unat bs < length d"
  shows "\<exists>x w2. obj (w_store w) (obs_path (w_config w) p) = Some x \<and> d = take (unat sz) (drop (unat off) x) \<and>
     do_read op c' i fh' off' sz' w1 = (Inr (take (unat sz') (drop (unat off' mod unat bs) d)), w2)"
proof -
  let ?path = "obs_path (w_config w) p"
  obtain w0 where w0: "do_read op c i fh off sz w = read_remote op c i ?path off sz w0"
      "w_store w0 = w_store w" "block_cache w0 = block_cache w" "ra_mgr w0 = ra_mgr w"
      "inode_mgr w0 = inode_mgr w" "w_config w0 = w_config w"
    using do_read_remote [OF assms(2) _ assms(3), of op c fh off sz] assms(4,5) by blast
  have r: "read_remote op c i ?path off sz w0 = (Inr d, w1)" using assms(6) w0(1) by simp
  have "unat (off + ucast sz) = unat off + unat sz"
    using unat_plus_no_wrap [of off "ucast sz"] assms(7) by simp
  then obtain x where x: "obj (w_store w) ?path = Some x" "d = take (unat sz) (drop (unat off) x)"
    using read_remote_data [OF assms(1) r] w0(2) by auto
  have e: "dc_put (now_mono c) i off d (block_cache w) = Some (block_cache w1)"
      "prefetch_buffer (ra_mgr w1) = prefetch_buffer (ra_mgr w)" "im_get_path (inode_mgr w1) i = Some p"
    using read_remote_effect [OF r] w0 assms(3) by auto
  have "\<forall>o1. block_key_new i o1 bs = block_key_new i off bs \<longleftrightarrow> unat o1 div unat bs = unat off div unat bs"
    using block_key_facts [OF assms(5), of i off] by (metis (no_types))
  then have k: "block_key_new i off' (dc_block_size (block_cache w)) = block_key_new i off (dc_block_size (block_cache w))"
    using assms(4,8) by simp
  have np: "get_prefetched (now_mono c') \<lparr>pk_inode = i, pk_offset = off'\<rparr> (ra_mgr w1) = (None, ra_mgr w1)"
    using assms(2) e(2) by (simp add: no_cached_data_def get_prefetched_def)
  obtain dc mt where g: "dc_get (now_mono c') i off' (block_cache w1, inc_read_ops (w_metrics w1)) = Some (Some d, (dc, mt))"
    using dc_get_after_put [OF e(1) k, of "now_mono c'" "inc_read_ops (w_metrics w1)"] by (metis prod.collapse)
  have bs: "dc_block_size dc = bs"
  proof -
    obtain kk where "block_key_new i off' (dc_block_size (block_cache w1)) = Some kk"
      using g by (cases "block_key_new i off' (dc_block_size (block_cache w1))") (simp_all add: dc_get_def)
    moreover have "dc_block_size (block_cache w1) = bs"
      using dc_put_block_size [OF e(1)] assms(4) by simp
    ultimately show ?thesis
      using g by (auto simp: dc_get_def split: option.splits prod.splits)
  qed
  have "\<exists>w2. do_read op c' i fh' off' sz' w1 =
      (Inr (slice (unat (off' mod bs)) (min (unat (off' mod bs) + unat sz') (length d)) d), w2)"
    using assms(9) np g bs e(3) by (simp add: do_read_def get_path_def Let_def unat_mod)
  moreover have "slice (unat (off' mod bs)) (min (unat (off' mod bs) + unat sz') (length d)) d =
      take (unat sz') (drop (unat off' mod unat bs) d)"
    by (simp add: slice_def unat_mod min_def)
  ultimately show ?thesis using x by auto
qed

definition cold_world :: "map_store world" where
  "cold_world = (demo_world [(''f'', [1, 2, 3, 4, 5])])
     \<lparr>inode_mgr := snd (get_or_create_inode (demo_clock 0) ''f'' False 5 (inode_mgr (demo_world [])))\<rparr>"

lemma cached_block_read_from_start_witness:
  "\<exists>w1 w2. do_read map_operator (demo_clock 0) 2 1 1 2 cold_world = (Inr [2, 3], w1) \<and>
     do_read map_operator (demo_clock 0) 2 1 0 1 w1 = (Inr [2], w2)"
proof -
  have p: "im_get_path (inode_mgr cold_world) 2 = Some ''f''"
    by (simp add: cold_world_def get_or_create_inode_def im_create_def im_new_def im_init_root_def
        ROOT_INODE_def Let_def im_get_path_def new_entry_def)
  have n: "no_cached_data 2 cold_world" and b: "dc_block_size (block_cache cold_world) = 4"
      and s: "obs_path (w_config cold_world) ''f'' = ''f''" "ms_obj (w_store cold_world) ''f'' = Some [1, 2, 3, 4, 5]"
    using demo_nothing_cached [of 2 "[(''f'', [1, 2, 3, 4, 5])]"] by (simp_all add: cold_world_def no_cached_data_def)
  obtain w0 where w0: "do_read map_operator (demo_clock 0) 2 1 1 2 cold_world = read_remote map_operator (demo_clock 0) 2 ''f'' 1 2 w0"
      "w_store w0 = w_store cold_world" "block_cache w0 = block_cache cold_world"
    using do_read_remote [OF n _ p, of map_operator "demo_clock 0" 1 1 2] b s(1) by auto
  have h: "op_read_range map_operator ''f'' 1 (1 + ucast (2 :: u32)) (w_store w0) = (Inr [2, 3], w_store w0)"
    using w0(2) s(2) by (simp add: map_operator_def)
  have "dc_block_size (block_cache w0) \<noteq> 0" using w0(3) b by simp
  then obtain w1 where "read_remote map_operator (demo_clock 0) 2 ''f'' 1 2 w0 = (Inr [2, 3], w1)"
    using read_remote_succeeds [OF h] by blast
  then have r: "do_read map_operator (demo_clock 0) 2 1 1 2 cold_world = (Inr [2, 3], w1)" using w0(1) by simp
  from cached_block_read_from_start [OF map_operator_faithful n p b _ r, of 0 "demo_clock 0" 1 1] r
  show ?thesis by auto
qed

section \<open>Reads and the write buffer\<close>

definition with_buffer :: "write_buffer \<Rightarrow> 'r \<times> 's world \<Rightarrow> 'r \<times> 's world" where
  "with_buffer wb r = (fst r, (snd r)\<lparr>write_buf := wb\<rparr>)"

lemma with_buffer_parts:
  "in_net f (w\<lparr>write_buf := wb\<rparr>) = with_buffer wb (in_net f w)"
  "get_path i (w\<lparr>write_buf := wb\<rparr>) = with_buffer wb (get_path i w)"
  "with_buffer wb (x, w) = (x, w\<lparr>write_buf := wb\<rparr>)"
  "or_errno n (with_buffer wb r) = with_buffer wb (or_errno n r)"
  by (auto simp: in_net_def with_buffer_def get_path_def or_errno_def split: prod.split option.split sum.split)

lemma with_buffer_and_then:
  "(\<And>a w1. k a (w1\<lparr>write_buf := wb\<rparr>) = with_buffer wb (k a w1)) \<Longrightarrow>
     and_then (with_buffer wb r) k = with_buffer wb (and_then r k)"
  by (cases r; cases "fst r") (auto simp: with_buffer_def)

lemma read_remote_buffer:
  "read_remote op c i path off sz (w\<lparr>write_buf := wb\<rparr>) = with_buffer wb (read_remote op c i path off sz w)"
  unfolding read_remote_def with_buffer_parts
  by (rule with_buffer_and_then) (auto simp: with_buffer_def split: option.split prod.split)

text \<open>C37 (a read does not see buffered writes): a read returns the same result and has the same effect
  whatever the write buffer holds: bytes that were written and are not yet flushed are never part of
  what is read, and a read changes nothing in the write buffer.\<close>

theorem read_ignores_buffered_writes:
  "do_read op c i fh off sz (w\<lparr>write_buf := wb\<rparr>) =
     (fst (do_read op c i fh off sz w), (snd (do_read op c i fh off sz w))\<lparr>write_buf := wb\<rparr>)"
proof -
  have m: "(w1\<lparr>write_buf := wb\<rparr>)\<lparr>w_metrics := mt\<rparr> = (w1\<lparr>w_metrics := mt\<rparr>)\<lparr>write_buf := wb\<rparr>" for w1 :: "'a world" and mt
    by simp
  have u: "w1\<lparr>write_buf := wb, handle_mgr := h, ra_mgr := r, block_cache := b, w_metrics := mt\<rparr> =
      w1\<lparr>handle_mgr := h, ra_mgr := r, block_cache := b, w_metrics := mt\<rparr>\<lparr>write_buf := wb\<rparr>"
    for w1 :: "'a world" and h r b mt by simp
  have "do_read op c i fh off sz (w\<lparr>write_buf := wb\<rparr>) = with_buffer wb (do_read op c i fh off sz w)"
    unfolding do_read_def world.select_convs(8) m with_buffer_parts
    by (subst with_buffer_and_then)
      (auto simp: Let_def with_buffer_parts(3) read_remote_buffer u split: option.split prod.split)
  then show ?thesis by (simp add: with_buffer_def)
qed

end
