(* ===== verification/Fuse.thy ===== *)
theory Fuse
  imports Consistency
begin

text \<open>
  The FUSE front end (src/src/fs/fuse_impl.rs): one handler per request of the \<open>Filesystem\<close> trait
  of the fuse3 crate, and the dispatch of a request to its handler.

  \<open>set_attr\<close> and the replies have the fields of the crate's types that the handlers read or fill.
  A request's unique number, its credentials and the fields the handlers ignore are left out, as is
  the stream that \<open>readdir\<close> wraps around its list.
\<close>

section \<open>Requests and replies\<close>

record set_attr =
  set_mode :: "u32 option"
  set_uid :: "u32 option"
  set_gid :: "u32 option"
  set_size :: "u64 option"
  set_atime :: "timestamp option"
  set_mtime :: "timestamp option"

record reply_entry =
  re_ttl :: duration
  re_attr :: fuse_attr
  re_generation :: u64

record reply_attr =
  rp_ttl :: duration
  rp_attr :: fuse_attr

record reply_open =
  ro_fh :: u64
  ro_flags :: u32

record reply_created =
  rc_ttl :: duration
  rc_attr :: fuse_attr
  rc_generation :: u64
  rc_fh :: u64
  rc_flags :: u32

record fuse_directory_entry =
  fd_inode :: u64
  fd_kind :: fuse_file_type
  fd_name :: string
  fd_offset :: int

record reply_stat_fs =
  sf_blocks :: u64
  sf_bfree :: u64
  sf_bavail :: u64
  sf_files :: u64
  sf_ffree :: u64
  sf_bsize :: u32
  sf_namelen :: u32
  sf_frsize :: u32

definition fs_err_to_errno :: "int \<Rightarrow> int" where
  "fs_err_to_errno err = err"

definition map_fs_err :: "'a fs_result \<times> 'w \<Rightarrow> 'a fs_result \<times> 'w" where
  "map_fs_err r = (case r of (Inl e, w) \<Rightarrow> (Inl (map_err fs_err_to_errno e), w) | (Inr a, w) \<Rightarrow> (Inr a, w))"

text \<open>A panic is \<open>None\<close>.\<close>

definition timestamp_to_systemtime :: "timestamp \<Rightarrow> system_time option" where
  "timestamp_to_systemtime ts =
     (case duration_new (ts_sec ts) (ts_nsec ts) of
        None \<Rightarrow> None
      | Some duration \<Rightarrow> if 0 \<le> sint (ts_sec ts) then epoch_plus duration else Some 0)"

section \<open>Mounting and unmounting\<close>

definition fuse_new :: "clock \<Rightarrow> disk \<Rightarrow> config \<Rightarrow> metrics \<Rightarrow> 's \<Rightarrow> 's world" where
  "fuse_new = core_new"

definition fuse_init :: "'s world \<Rightarrow> u32 fs_result" where
  "fuse_init w =
     (let max_write32 = ucast (max_write (cfg_fuse (w_config w))) :: u32
      in if max_write32 = 0 then Inl Panic else Inr max_write32)"

text \<open>An error of the final flush is only logged.\<close>

definition fuse_destroy :: "'s operator \<Rightarrow> 's world \<Rightarrow> unit fs_result \<times> 's world" where
  "fuse_destroy op w =
     (case core_flush_all op w of
        (Inl (Err _), w1) \<Rightarrow> (Inr (), w1)
      | r \<Rightarrow> r)"

section \<open>Lookup and attributes\<close>

definition fuse_lookup ::
  "'s operator \<Rightarrow> clock \<Rightarrow> u64 \<Rightarrow> string \<Rightarrow> 's world \<Rightarrow> reply_entry fs_result \<times> 's world" where
  "fuse_lookup op c parent name w =
     and_then (map_fs_err (do_lookup op c parent name (w\<lparr>w_metrics := inc_lookup_ops (w_metrics w)\<rparr>)))
       (\<lambda>(_, attr) w1.
         (Inr \<lparr>re_ttl = core_entry_ttl w1, re_attr = to_fuse3 attr, re_generation = 0\<rparr>, w1))"

definition fuse_getattr ::
  "'s operator \<Rightarrow> clock \<Rightarrow> u64 \<Rightarrow> 's world \<Rightarrow> reply_attr fs_result \<times> 's world" where
  "fuse_getattr op c inode w =
     and_then (map_fs_err (do_getattr op c inode w)) (\<lambda>attr w1.
       (Inr \<lparr>rp_ttl = core_attr_ttl w1, rp_attr = to_fuse3 attr\<rparr>, w1))"

text \<open>The fields that both branches of \<open>setattr\<close> apply, and the two times, which only the branch
  with cached attributes applies.\<close>

definition set_attr_basic :: "set_attr \<Rightarrow> file_attr \<Rightarrow> file_attr" where
  "set_attr_basic s a0 =
     (let a1 = if_some (set_mode s) (\<lambda>mode a. a\<lparr>fa_perm := perm_bits mode\<rparr>) a0;
          a2 = if_some (set_uid s) (\<lambda>uid a. a\<lparr>fa_uid := uid\<rparr>) a1;
          a3 = if_some (set_gid s) (\<lambda>gid a. a\<lparr>fa_gid := gid\<rparr>) a2
      in if_some (set_size s) (\<lambda>sz a. a\<lparr>fa_size := sz, fa_blocks := blocks_of sz\<rparr>) a3)"

definition set_attr_time ::
  "timestamp option \<Rightarrow> (system_time \<Rightarrow> file_attr \<Rightarrow> file_attr) \<Rightarrow> file_attr \<Rightarrow> file_attr option" where
  "set_attr_time ts f a =
     (case ts of None \<Rightarrow> Some a | Some t \<Rightarrow> map_option (\<lambda>st. f st a) (timestamp_to_systemtime t))"

definition set_attr_cached :: "set_attr \<Rightarrow> file_attr \<Rightarrow> file_attr option" where
  "set_attr_cached s a =
     Option.bind (set_attr_time (set_atime s) (\<lambda>t a. a\<lparr>fa_atime := t\<rparr>) (set_attr_basic s a))
       (set_attr_time (set_mtime s) (\<lambda>t a. a\<lparr>fa_mtime := t\<rparr>))"

definition store_attr ::
  "clock \<Rightarrow> u64 \<Rightarrow> file_attr \<Rightarrow> 's world \<Rightarrow> reply_attr fs_result \<times> 's world" where
  "store_attr c inode attr w =
     (Inr \<lparr>rp_ttl = core_attr_ttl w, rp_attr = to_fuse3 attr\<rparr>,
      w\<lparr>meta_cache := put_attr (now_mono c) inode attr (meta_cache w)\<rparr>)"

definition setattr_update ::
  "clock \<Rightarrow> u64 \<Rightarrow> set_attr \<Rightarrow> 's world \<Rightarrow> reply_attr fs_result \<times> 's world" where
  "setattr_update c inode s w =
     (case in_meta (get_attr (now_mono c) inode) w of
        (Some attr, w1) \<Rightarrow>
          (case set_attr_cached s attr of
             None \<Rightarrow> (Inl Panic, w1)
           | Some attr1 \<Rightarrow> store_attr c inode attr1 w1)
      | (None, w1) \<Rightarrow>
          (case get_entry (inode_mgr w1) inode of
             None \<Rightarrow> (Inl (Err ENOENT), w1)
           | Some entry \<Rightarrow> store_attr c inode (set_attr_basic s (ie_attr entry)) w1))"

definition fuse_setattr ::
  "'s operator \<Rightarrow> clock \<Rightarrow> u64 \<Rightarrow> set_attr \<Rightarrow> 's world \<Rightarrow> reply_attr fs_result \<times> 's world" where
  "fuse_setattr op c inode s w =
     (case set_size s of
        None \<Rightarrow> setattr_update c inode s w
      | Some sz \<Rightarrow>
          and_then (map_fs_err (do_truncate op c inode sz w)) (\<lambda>_ w1. setattr_update c inode s w1))"

section \<open>Files\<close>

definition fuse_open ::
  "'s operator \<Rightarrow> clock \<Rightarrow> u64 \<Rightarrow> u32 \<Rightarrow> 's world \<Rightarrow> reply_open fs_result \<times> 's world" where
  "fuse_open op c inode flags w =
     (case do_open c inode flags w of
        (fh, w1) \<Rightarrow>
          and_then (if flags AND O_TRUNC \<noteq> 0 then map_fs_err (do_truncate op c inode 0 w1) else (Inr (), w1))
            (\<lambda>_ w2. (Inr \<lparr>ro_fh = fh, ro_flags = 0\<rparr>, w2)))"

definition fuse_read ::
  "'s operator \<Rightarrow> clock \<Rightarrow> u64 \<Rightarrow> u64 \<Rightarrow> u64 \<Rightarrow> u32 \<Rightarrow> 's world \<Rightarrow> bytes fs_result \<times> 's world" where
  "fuse_read op c inode fh offset sz w = map_fs_err (do_read op c inode fh offset sz w)"

definition fuse_write ::
  "'s operator \<Rightarrow> clock \<Rightarrow> u64 \<Rightarrow> u64 \<Rightarrow> u64 \<Rightarrow> bytes \<Rightarrow> 's world \<Rightarrow> u32 fs_result \<times> 's world" where
  "fuse_write op c inode fh offset data w =
     and_then (map_fs_err (do_write op c inode fh offset data w)) (\<lambda>written w1. (Inr (of_nat written), w1))"

definition fuse_release :: "'s operator \<Rightarrow> u64 \<Rightarrow> u64 \<Rightarrow> 's world \<Rightarrow> unit fs_result \<times> 's world" where
  "fuse_release op inode fh w = map_fs_err (do_release op inode fh w)"

definition fuse_fsync :: "'s operator \<Rightarrow> u64 \<Rightarrow> 's world \<Rightarrow> unit fs_result \<times> 's world" where
  "fuse_fsync op inode w = map_fs_err (do_fsync op inode w)"

definition fuse_flush :: "'s operator \<Rightarrow> u64 \<Rightarrow> 's world \<Rightarrow> unit fs_result \<times> 's world" where
  "fuse_flush op inode w = map_fs_err (do_flush op inode w)"

definition fuse_access :: "u64 \<Rightarrow> 's world \<Rightarrow> unit fs_result \<times> 's world" where
  "fuse_access inode w = map_fs_err (do_access inode w, w)"

section \<open>Directories and names\<close>

definition fuse_opendir :: "clock \<Rightarrow> u64 \<Rightarrow> u32 \<Rightarrow> 's world \<Rightarrow> reply_open fs_result \<times> 's world" where
  "fuse_opendir c inode flags w =
     (case do_opendir c inode flags w of (fh, w1) \<Rightarrow> (Inr \<lparr>ro_fh = fh, ro_flags = 0\<rparr>, w1))"

definition fuse_dir_entry :: "dir_entry \<Rightarrow> fuse_directory_entry" where
  "fuse_dir_entry e =
     \<lparr>fd_inode = dent_inode e, fd_kind = kind_to_fuse (dent_kind e), fd_name = dent_name e, fd_offset = dent_offset e\<rparr>"

definition fuse_readdir ::
  "'s operator \<Rightarrow> clock \<Rightarrow> u64 \<Rightarrow> int \<Rightarrow> 's world \<Rightarrow> fuse_directory_entry list fs_result \<times> 's world" where
  "fuse_readdir op c inode offset w =
     and_then (map_fs_err (do_readdir op c inode offset (w\<lparr>w_metrics := inc_readdir_ops (w_metrics w)\<rparr>)))
       (\<lambda>entries w1. (Inr (map fuse_dir_entry entries), w1))"

definition fuse_releasedir :: "u64 \<Rightarrow> 's world \<Rightarrow> unit fs_result \<times> 's world" where
  "fuse_releasedir fh w = (Inr (), do_close fh w)"

definition fuse_create ::
  "'s operator \<Rightarrow> clock \<Rightarrow> u64 \<Rightarrow> string \<Rightarrow> u32 \<Rightarrow> u32 \<Rightarrow> 's world \<Rightarrow> reply_created fs_result \<times> 's world" where
  "fuse_create op c parent name mode flags w =
     and_then (map_fs_err (do_create op c parent name mode flags w)) (\<lambda>(_, attr, fh) w1.
       (Inr \<lparr>rc_ttl = core_entry_ttl w1, rc_attr = to_fuse3 attr, rc_generation = 0, rc_fh = fh, rc_flags = 0\<rparr>, w1))"

definition fuse_mkdir ::
  "'s operator \<Rightarrow> clock \<Rightarrow> u64 \<Rightarrow> string \<Rightarrow> u32 \<Rightarrow> 's world \<Rightarrow> reply_entry fs_result \<times> 's world" where
  "fuse_mkdir op c parent name mode w =
     and_then (map_fs_err (do_mkdir op c parent name mode w)) (\<lambda>(_, attr) w1.
       (Inr \<lparr>re_ttl = core_entry_ttl w1, re_attr = to_fuse3 attr, re_generation = 0\<rparr>, w1))"

definition fuse_unlink :: "'s operator \<Rightarrow> u64 \<Rightarrow> string \<Rightarrow> 's world \<Rightarrow> unit fs_result \<times> 's world" where
  "fuse_unlink op parent name w = map_fs_err (do_unlink op parent name w)"

definition fuse_rmdir :: "'s operator \<Rightarrow> u64 \<Rightarrow> string \<Rightarrow> 's world \<Rightarrow> unit fs_result \<times> 's world" where
  "fuse_rmdir op parent name w = map_fs_err (do_rmdir op parent name w)"

definition fuse_rename ::
  "'s operator \<Rightarrow> clock \<Rightarrow> u64 \<Rightarrow> string \<Rightarrow> u64 \<Rightarrow> string \<Rightarrow> 's world \<Rightarrow> unit fs_result \<times> 's world" where
  "fuse_rename op c parent name new_parent new_name w =
     map_fs_err (do_rename op c parent name new_parent new_name w)"

definition fuse_statfs :: reply_stat_fs where
  "fuse_statfs =
     \<lparr>sf_blocks = 1024 * 1024 * 1024, sf_bfree = 1024 * 1024 * 1024, sf_bavail = 1024 * 1024 * 1024,
      sf_files = 1000000000, sf_ffree = 1000000000, sf_bsize = 4096, sf_namelen = 1024, sf_frsize = 4096\<rparr>"

section \<open>Dispatch\<close>

datatype fuse_request =
  ReqInit | ReqDestroy
| ReqLookup u64 string | ReqGetattr u64 | ReqSetattr u64 set_attr
| ReqOpen u64 u32 | ReqRead u64 u64 u64 u32 | ReqWrite u64 u64 u64 bytes
| ReqRelease u64 u64 | ReqFsync u64 | ReqFlush u64 | ReqAccess u64
| ReqOpendir u64 u32 | ReqReaddir u64 int | ReqReleasedir u64
| ReqCreate u64 string u32 u32 | ReqMkdir u64 string u32
| ReqUnlink u64 string | ReqRmdir u64 string | ReqRename u64 string u64 string
| ReqStatfs

datatype fuse_reply =
  ReplyNone | ReplyInit u32 | ReplyEntry reply_entry | ReplyAttr reply_attr | ReplyOpen reply_open
| ReplyData bytes | ReplyWrite u32 | ReplyDirectory "fuse_directory_entry list"
| ReplyCreated reply_created | ReplyStatFs reply_stat_fs

definition with_reply :: "('a \<Rightarrow> fuse_reply) \<Rightarrow> 'a fs_result \<times> 'w \<Rightarrow> fuse_reply fs_result \<times> 'w" where
  "with_reply f r = (case r of (Inl e, w) \<Rightarrow> (Inl e, w) | (Inr a, w) \<Rightarrow> (Inr (f a), w))"

abbreviation no_reply :: "unit fs_result \<times> 'w \<Rightarrow> fuse_reply fs_result \<times> 'w" where
  "no_reply \<equiv> with_reply (\<lambda>_. ReplyNone)"

fun fuse_handle ::
  "'s operator \<Rightarrow> clock \<Rightarrow> fuse_request \<Rightarrow> 's world \<Rightarrow> fuse_reply fs_result \<times> 's world" where
  "fuse_handle op c ReqInit w = with_reply ReplyInit (fuse_init w, w)"
| "fuse_handle op c ReqDestroy w = no_reply (fuse_destroy op w)"
| "fuse_handle op c (ReqLookup parent name) w = with_reply ReplyEntry (fuse_lookup op c parent name w)"
| "fuse_handle op c (ReqGetattr inode) w = with_reply ReplyAttr (fuse_getattr op c inode w)"
| "fuse_handle op c (ReqSetattr inode s) w = with_reply ReplyAttr (fuse_setattr op c inode s w)"
| "fuse_handle op c (ReqOpen inode flags) w = with_reply ReplyOpen (fuse_open op c inode flags w)"
| "fuse_handle op c (ReqRead inode fh offset sz) w = with_reply ReplyData (fuse_read op c inode fh offset sz w)"
| "fuse_handle op c (ReqWrite inode fh offset data) w =
     with_reply ReplyWrite (fuse_write op c inode fh offset data w)"
| "fuse_handle op c (ReqRelease inode fh) w = no_reply (fuse_release op inode fh w)"
| "fuse_handle op c (ReqFsync inode) w = no_reply (fuse_fsync op inode w)"
| "fuse_handle op c (ReqFlush inode) w = no_reply (fuse_flush op inode w)"
| "fuse_handle op c (ReqAccess inode) w = no_reply (fuse_access inode w)"
| "fuse_handle op c (ReqOpendir inode flags) w = with_reply ReplyOpen (fuse_opendir c inode flags w)"
| "fuse_handle op c (ReqReaddir inode offset) w = with_reply ReplyDirectory (fuse_readdir op c inode offset w)"
| "fuse_handle op c (ReqReleasedir fh) w = no_reply (fuse_releasedir fh w)"
| "fuse_handle op c (ReqCreate parent name mode flags) w =
     with_reply ReplyCreated (fuse_create op c parent name mode flags w)"
| "fuse_handle op c (ReqMkdir parent name mode) w = with_reply ReplyEntry (fuse_mkdir op c parent name mode w)"
| "fuse_handle op c (ReqUnlink parent name) w = no_reply (fuse_unlink op parent name w)"
| "fuse_handle op c (ReqRmdir parent name) w = no_reply (fuse_rmdir op parent name w)"
| "fuse_handle op c (ReqRename parent name new_parent new_name) w =
     no_reply (fuse_rename op c parent name new_parent new_name w)"
| "fuse_handle op c ReqStatfs w = (Inr (ReplyStatFs fuse_statfs), w)"

end
