(* ===== verification/BufferRuns.thy ===== *)
theory BufferRuns
  imports WriteBufferProps
begin

text \<open>
  What every request to the store and every operation of the write buffer keeps, whatever the store
  answers: a request fails only with an error value (\<open>errs_only\<close>), never with a panic; an operation
  of the write buffer keeps every buffer well formed (\<open>wb_ok\<close>) and the configuration as it is, and
  with a positive part size it returns (\<open>wb_keeps\<close>).
\<close>

definition wb_ok :: "write_buffer \<Rightarrow> bool" where
  "wb_ok wb \<longleftrightarrow> dash_wf (wb_buffers wb) \<and> (\<forall>i b. dash_get (wb_buffers wb) i = Some b \<longrightarrow> fw_ok b)"

section \<open>Requests to the store\<close>

definition errs_only :: "'a result \<Rightarrow> bool" where
  "errs_only r \<longleftrightarrow> (\<forall>e. r = Inl e \<longrightarrow> (\<exists>k. e = Err k))"

lemma errs_only_simps [simp]: "errs_only (Inr a)" "errs_only (Inl (Err k))" "errs_only (Inl e) = (\<exists>k. e = Err k)"
  by (simp_all add: errs_only_def)

lemma obs_call_errs [simp]: "errs_only (fst (obs_call r mt))"
  by (cases r; cases "fst r") auto

lemma stat_entries_errs: "errs_only (fst (stat_entries op ps rs net))"
proof (induction op ps rs net rule: stat_entries.induct)
  case (2 op path paths results mt s)
  obtain x net1 where c: "obs_call (op_stat op path s) mt = (x, net1)" by (rule prod.exhaust)
  then have "errs_only x" using obs_call_errs [of "op_stat op path s" mt] by simp
  with 2 c show ?case by (cases x) auto
qed simp

lemma obs_call_then_errs:
  assumes "\<And>a n. errs_only (fst (k a n))"
  shows "errs_only (fst (case obs_call r mt of (Inr a, n) \<Rightarrow> k a n | (Inl e, n) \<Rightarrow> (Inl e, n)))"
  using assms by (cases rule: obs_call_cases [of r mt]) auto

lemma oc_errs [simp]:
  "errs_only (fst (oc_stat op p n))" "errs_only (fst (oc_read_range op p off sz n))"
  "errs_only (fst (oc_write op p d n))" "errs_only (fst (oc_delete op p n))" "errs_only (fst (oc_list op p n))"
  "errs_only (fst (oc_list_dir op p n))" "errs_only (fst (oc_create_dir op p n))" "errs_only (fst (oc_copy op p q n))"
  by (cases n; simp add: oc_stat_def oc_read_range_def oc_write_def oc_delete_def oc_list_def oc_list_dir_def
      oc_create_dir_def oc_copy_def obs_call_then_errs stat_entries_errs split: prod.splits)+

section \<open>The write buffer\<close>

lemma flush_buffer_errs:
  assumes "0 < mp_part_size mpc" shows "errs_only (fst (flush_buffer op mpc (buf, net)))"
proof (cases "\<not> dirty buf \<or> fw_data buf = []")
  case False
  show ?thesis
  proof (cases "fw_multipart buf")
    case None
    obtain r n1 where w: "oc_write op (fw_path buf) (fw_data buf) net = (r, n1)" by (rule prod.exhaust)
    then have "errs_only r" using oc_errs(3) [of op "fw_path buf" "fw_data buf" net] by simp
    with False None w show ?thesis by (cases r) (auto simp: flush_buffer_def mark_flushed_def)
  next
    case (Some mp)
    obtain mt s where "net = (mt, s)" by (rule prod.exhaust)
    then show ?thesis using flush_multipart [of buf mp mpc op mt s] False Some assms by auto
  qed
qed (simp add: flush_clean)

text \<open>What an operation of the write buffer keeps.\<close>

definition wb_keeps :: "('s wb_state \<Rightarrow> 'r result \<times> 's wb_state) \<Rightarrow> bool" where
  "wb_keeps f \<longleftrightarrow> (\<forall>wb net r wb1 net1. f (wb, net) = (r, (wb1, net1)) \<longrightarrow> wb_ok wb \<longrightarrow>
     wb_ok wb1 \<and> wb_config wb1 = wb_config wb \<and> (0 < wbc_part_size (wb_config wb) \<longrightarrow> errs_only r))"

lemma wb_keepsI:
  assumes "\<And>wb net r wb1 net1. f (wb, net) = (r, (wb1, net1)) \<Longrightarrow> wb_ok wb \<Longrightarrow>
     wb_ok wb1 \<and> wb_config wb1 = wb_config wb \<and> (0 < wbc_part_size (wb_config wb) \<longrightarrow> errs_only r)"
  shows "wb_keeps f"
  using assms unfolding wb_keeps_def by blast

lemma wb_ok_insert: "wb_ok wb \<Longrightarrow> fw_ok b \<Longrightarrow> wb_ok (wb\<lparr>wb_buffers := dash_insert i b (wb_buffers wb)\<rparr>)"
  by (simp add: wb_ok_def)

lemma wb_keeps_flush: "wb_keeps (wb_flush op i)"
proof (rule wb_keepsI, goal_cases)
  case (1 wb net r wb1 net1)
  let ?mpc = "wb_multipart_config (wb_config wb)"
  show ?case
  proof (cases "dash_get (wb_buffers wb) i")
    case (Some buf)
    obtain x b n where f: "flush_buffer op ?mpc (buf, net) = (x, (b, n))" by (metis prod.exhaust)
    have "fw_ok b" using flush_result [OF f] 1(2) Some by (auto simp: wb_ok_def)
    moreover have "0 < wbc_part_size (wb_config wb) \<longrightarrow> errs_only x"
      using flush_buffer_errs [of ?mpc op buf net] f by (simp add: wb_multipart_config_def)
    ultimately show ?thesis using 1 Some f wb_ok_insert by (auto simp: wb_flush_def)
  qed (use 1 in \<open>auto simp: wb_flush_def\<close>)
qed

lemma wb_keeps_sync_flush: "wb_keeps (sync_flush op i)"
proof (rule wb_keepsI, goal_cases)
  case (1 wb net r wb1 net1)
  obtain x wb2 mt s where f: "wb_flush op i (wb, net) = (x, (wb2, (mt, s)))" by (metis prod.exhaust)
  with 1(1) have "wb1 = wb2 \<and> (errs_only x \<longrightarrow> errs_only r)" by (cases x) (auto simp: sync_flush_def)
  with f 1(2) wb_keeps_flush [of op i] show ?case unfolding wb_keeps_def by blast
qed

lemma wb_keeps_release: "wb_keeps (wb_release op i)"
proof (rule wb_keepsI, goal_cases)
  case (1 wb net r wb1 net1)
  let ?mpc = "wb_multipart_config (wb_config wb)"
  show ?case
  proof (cases "dash_get (wb_buffers wb) i")
    case (Some buf)
    obtain x b n where f: "flush_buffer op ?mpc (buf, net) = (x, (b, n))" by (metis prod.exhaust)
    have "0 < wbc_part_size (wb_config wb) \<longrightarrow> errs_only x"
      using flush_buffer_errs [of ?mpc op buf net] f by (simp add: wb_multipart_config_def)
    then show ?thesis using 1 Some f by (auto simp: wb_release_def wb_ok_def split: if_splits)
  qed (use 1 in \<open>auto simp: wb_release_def\<close>)
qed

lemma flush_entries_keeps:
  assumes "flush_entries op mpc P es net = (r, (es1, net1))" "\<forall>e \<in> set es. fw_ok (snd e)"
  shows "map fst es1 = map fst es \<and> (\<forall>e \<in> set es1. fw_ok (snd e)) \<and> (0 < mp_part_size mpc \<longrightarrow> errs_only r)"
  using assms
proof (induction es arbitrary: net r es1 net1)
  case (Cons e es)
  obtain i buf where e: "e = (i, buf)" by (rule prod.exhaust)
  obtain x b n where f: "flush_buffer op mpc (buf, net) = (x, (b, n))" by (metis prod.exhaust)
  obtain r1 es2 n1 where t: "flush_entries op mpc P es (if P buf then n else net) = (r1, (es2, n1))"
    by (metis prod.exhaust)
  have b: "fw_ok b" "0 < mp_part_size mpc \<longrightarrow> errs_only x"
    using flush_result [OF f] flush_buffer_errs [of mpc op buf net] f Cons.prems(2) e by auto
  show ?case using Cons.IH [OF t] Cons.prems e f t b by (cases x) (auto split: if_splits)
qed simp

lemma wb_keeps_flush_all: "wb_keeps (wb_flush_all op)"
proof (rule wb_keepsI, goal_cases)
  case (1 wb net r wb1 net1)
  let ?mpc = "wb_multipart_config (wb_config wb)"
  obtain bs n where f: "flush_entries op ?mpc dirty (wb_buffers wb) net = (r, (bs, n))" "wb1 = wb\<lparr>wb_buffers := bs\<rparr>"
    using 1(1) by (auto simp: wb_flush_all_def split: prod.splits)
  have "\<forall>e \<in> set (wb_buffers wb). fw_ok (snd e)"
    using 1(2) dash_mem_iff by (fastforce simp: wb_ok_def)
  from flush_entries_keeps [OF f(1) this] 1(2) f(2) show ?case
    by (auto simp: wb_ok_def dash_wf_def wb_multipart_config_def dest!: map_of_SomeD)
qed

text \<open>A write keeps a buffer well formed, whatever it returns.\<close>

lemma cut_parts_errs: "0 < wbc_part_size cfg \<Longrightarrow> errs_only (fst (cut_parts cfg data r))"
proof (induction cfg data r rule: cut_parts.induct)
  case (1 cfg data r)
  show ?case
  proof (cases "wbc_part_size cfg \<le> length data")
    case True
    obtain x r2 where m: "mp_write (wb_multipart_config cfg) (take (wbc_part_size cfg) data) r = (x, r2)"
      by (rule prod.exhaust)
    show ?thesis
    proof (cases x)
      case (Inl e)
      then show ?thesis
        using mp_write_returns [of "wb_multipart_config cfg" "take (wbc_part_size cfg) data" "fst r" "snd r"] m
          "1.prems" by (auto simp: wb_multipart_config_def)
    next
      case (Inr v)
      with True m "1.IH" [OF True m [symmetric] Inr "1.prems"] show ?thesis by (simp add: cut_parts.simps [of cfg data r])
    qed
  next
    case False
    then show ?thesis by (simp add: cut_parts.simps [of cfg data r])
  qed
qed


lemma flush_parts_keeps:
  assumes "flush_parts cfg (buf, net) = (r, (buf1, net1))" "dirty buf"
  shows "dirty buf1 \<and> (0 < wbc_part_size cfg \<longrightarrow> errs_only r)"
proof -
  obtain mt s where net: "net = (mt, s)" by (rule prod.exhaust)
  show ?thesis
  proof (cases "fw_multipart buf")
    case (Some mp)
    obtain x d mp1 mt1 where c: "cut_parts cfg (fw_data buf) (mp, mt) = (x, (d, (mp1, mt1)))" by (metis prod.exhaust)
    have "0 < wbc_part_size cfg \<longrightarrow> errs_only x" using cut_parts_errs [of cfg "fw_data buf" "(mp, mt)"] c by simp
    with assms net Some c show ?thesis by (auto simp: flush_parts_def)
  qed (use assms net in \<open>auto simp: flush_parts_def\<close>)
qed

lemma write_direct_keeps:
  assumes "write_direct op cfg path off data (buf, net) = (r, (buf1, net1))" "fw_ok buf"
  shows "fw_ok buf1 \<and> (0 < wbc_part_size cfg \<longrightarrow> errs_only r)"
proof -
  let ?mpc = "wb_multipart_config cfg"
  obtain x b n where f: "flush_buffer op ?mpc (buf, net) = (x, (b, n))" by (metis prod.exhaust)
  have b: "fw_ok b" "fw_data b = []" "0 < wbc_part_size cfg \<longrightarrow> errs_only x"
    using flush_result [OF f assms(2)] flush_buffer_errs [of ?mpc op buf net] f
    by (simp_all add: wb_multipart_config_def)
  obtain y n2 where w: "oc_write op path data n = (y, n2)" by (rule prod.exhaust)
  then have "errs_only y" using oc_errs(3) [of op path data n] by simp
  with assms(1) f b w show ?thesis
    by (cases x; cases y) (auto simp: write_direct_def fw_ok_def)
qed

lemma write_append_keeps:
  assumes "write_append op cfg now path off data (buf, net) = (r, (buf1, net1))"
  shows "fw_ok buf1 \<and> (0 < wbc_part_size cfg \<longrightarrow> errs_only r)"
proof -
  let ?c = "start_multipart (multipart_threshold cfg) path (append_data now off data buf)"
  let ?mpc = "wb_multipart_config cfg"
  obtain x b n where f: "flush_parts cfg (?c, net) = (x, (b, n))" by (metis prod.exhaust)
  have "dirty ?c" by (simp add: fw_defs)
  from flush_parts_keeps [OF f this] have b: "dirty b" "0 < wbc_part_size cfg \<longrightarrow> errs_only x" by simp_all
  obtain y b2 n2 where g: "flush_buffer op ?mpc (b, n) = (y, (b2, n2))" by (metis prod.exhaust)
  have y: "fw_ok b2" "0 < wbc_part_size cfg \<longrightarrow> errs_only y"
    using flush_result [OF g] b(1) flush_buffer_errs [of ?mpc op b n] g
    by (simp_all add: fw_ok_def wb_multipart_config_def)
  show ?thesis
    using assms f b y g
    by (cases x; cases y; cases "needs_flush (buffer_size cfg) b \<and> fw_multipart b = None")
      (auto simp: write_append_def fw_ok_def)
qed

lemma write_locked_keeps:
  assumes "write_locked op cfg now path off data (buf, net) = (r, (buf1, net1))" "fw_ok buf"
  shows "fw_ok buf1 \<and> (0 < wbc_part_size cfg \<longrightarrow> errs_only r)"
proof -
  have "fw_ok (note_offset off data buf)" using assms(2) by (simp add: fw_ok_def note_offset_def)
  then show ?thesis
    using assms(1) write_direct_keeps [of op cfg path off data "note_offset off data buf" net r buf1 net1]
      write_append_keeps [of op cfg now path off data "note_offset off data buf" net r buf1 net1]
    by (auto simp: write_locked_def Let_def split: if_splits)
qed

lemma file_buffer_keeps:
  assumes "get_or_create now i path sz wb = (buf, wb1)" "wb_ok wb"
  shows "fw_ok buf \<and> wb_ok wb1 \<and> wb_config wb1 = wb_config wb"
  using assms by (auto simp: get_or_create_def wb_ok_def Let_def split: option.splits if_splits)

lemma wb_keeps_write: "wb_keeps (wb_write op now i path off data sz)"
proof (rule wb_keepsI, goal_cases)
  case (1 wb net r wb1 net1)
  obtain buf wb2 where g: "get_or_create now i path sz wb = (buf, wb2)" by (rule prod.exhaust)
  obtain x b n where l: "write_locked op (wb_config wb) now path off data (buf, net) = (x, (b, n))"
    by (metis prod.exhaust)
  show ?case
    using 1 g l file_buffer_keeps [OF g] write_locked_keeps [OF l] wb_ok_insert [of wb2 b i]
    by (auto simp: wb_write_def)
qed

lemma truncate_locked_keeps:
  assumes "truncate_locked op path sz (buf, net) = (r, (buf1, net1))"
  shows "fw_ok buf1 \<and> errs_only r"
proof -
  obtain y n2 where w: "oc_write op path [] net = (y, n2)" by (rule prod.exhaust)
  then have "errs_only y" using oc_errs(3) [of op path "[]" net] by simp
  with assms w show ?thesis
    by (cases y) (auto simp: truncate_locked_def Let_def fw_ok_def split: if_splits)
qed

lemma wb_keeps_truncate: "wb_keeps (wb_truncate op now i path sz)"
proof (rule wb_keepsI, goal_cases)
  case (1 wb net r wb1 net1)
  obtain buf wb2 where g: "get_or_create now i path sz wb = (buf, wb2)" by (rule prod.exhaust)
  obtain x b n where l: "truncate_locked op path sz (buf, net) = (x, (b, n))" by (metis prod.exhaust)
  show ?case
    using 1 g l file_buffer_keeps [OF g] truncate_locked_keeps [OF l] wb_ok_insert [of wb2 b i]
    by (auto simp: wb_truncate_def)
qed

end
