(* ===== verification/Serving.thy ===== *)
theory Serving
  imports Fuse BufferRuns
begin

text \<open>
  What every request of the kernel keeps: the invariant of the world (\<open>world_ok\<close>), the \<open>settings\<close> that
  no operation changes, and that a request is answered, with a result or with one of
  three error numbers, whatever the store answers.

  \<open>keeps w r\<close> says this of one run \<open>r\<close> from the world \<open>w\<close>. It is proved for the parts, composed
  along \<open>and_then\<close> for the core operations and the handlers, and holds along every sequence of
  admissible requests and prefetch tasks (\<open>fuse_reachable\<close>).
\<close>

section \<open>The invariant\<close>

definition mc_ok :: "metadata_cache \<Rightarrow> bool" where
  "mc_ok mc \<longleftrightarrow> mc_wf mc \<and> (\<forall>i e. dash_get (attr_cache mc) i = Some e \<longrightarrow> fa_ino (ca_attr e) = i)"

definition hm_ok :: "handle_manager \<Rightarrow> bool" where
  "hm_ok m \<longleftrightarrow> dash_wf (handles m) \<and> handle_ids.bounded m"

definition im_ok :: "inode_manager \<Rightarrow> bool" where
  "im_ok m \<longleftrightarrow> im_wf m \<and> im_get_path m ROOT_INODE = Some []"

definition world_ok :: "'s world \<Rightarrow> bool" where
  "world_ok w \<longleftrightarrow> im_ok (inode_mgr w) \<and> hm_ok (handle_mgr w) \<and> mc_ok (meta_cache w) \<and> wb_ok (write_buf w)"

text \<open>What no operation changes.\<close>

definition settings :: "'s world \<Rightarrow> u64 \<times> write_buffer_config \<times> config \<times> duration \<times> duration" where
  "settings w = (dc_block_size (block_cache w), wb_config (write_buf w), w_config w, core_attr_ttl w, core_entry_ttl w)"

text \<open>Settings under which no request panics or hangs: a positive block size, which the validation of
  the configuration demands, and a positive part size and a transfer size that is not a multiple of
  four gigabytes, which it does not demand.\<close>

definition serves :: "'s world \<Rightarrow> bool" where
  "serves w \<longleftrightarrow> dc_block_size (block_cache w) \<noteq> 0 \<and> 0 < wbc_part_size (wb_config (write_buf w)) \<and>
     (ucast (max_write (cfg_fuse (w_config w))) :: u32) \<noteq> 0"

lemma serves_settings: "settings w' = settings w \<Longrightarrow> serves w' = serves w"
  by (simp add: settings_def serves_def)

definition answers :: "'a fs_result \<Rightarrow> bool" where
  "answers r \<longleftrightarrow> (case r of Inr _ \<Rightarrow> True | Inl e \<Rightarrow> e = Err ENOENT \<or> e = Err EIO \<or> e = Err ENOTEMPTY)"

lemma answers_simps [simp]:
  "answers (Inr a)" "answers (Inl (Err ENOENT))" "answers (Inl (Err EIO))" "answers (Inl (Err ENOTEMPTY))"
  "\<not> answers (Inl Panic)" "\<not> answers (Inl Hang)"
  by (simp_all add: answers_def)

section \<open>Runs\<close>

definition keeps :: "'s world \<Rightarrow> 'a fs_result \<times> 's world \<Rightarrow> bool" where
  "keeps w r \<longleftrightarrow> world_ok (snd r) \<and> settings (snd r) = settings w \<and> (serves w \<longrightarrow> answers (fst r))"

lemma keeps_return: "world_ok w' \<Longrightarrow> settings w' = settings w \<Longrightarrow> answers x \<Longrightarrow> keeps w (x, w')"
  by (simp add: keeps_def)

lemma keeps_from: "keeps w1 r \<Longrightarrow> settings w1 = settings w \<Longrightarrow> keeps w r"
  using serves_settings [of w1 w] by (simp add: keeps_def)

lemma keeps_and_then:
  assumes "keeps w r" "\<And>a w1. r = (Inr a, w1) \<Longrightarrow> world_ok w1 \<Longrightarrow> settings w1 = settings w \<Longrightarrow> keeps w1 (k a w1)"
  shows "keeps w (and_then r k)"
proof -
  obtain x w1 where r: "r = (x, w1)" by (rule prod.exhaust)
  show ?thesis
  proof (cases x)
    case (Inl e)
    with assms(1) r show ?thesis by (auto simp: keeps_def answers_def)
  next
    case (Inr a)
    have "world_ok w1" "settings w1 = settings w" using assms(1) r by (simp_all add: keeps_def)
    with assms(2) [of a w1] r Inr have "keeps w (k a w1)" using keeps_from by blast
    with r Inr show ?thesis by simp
  qed
qed

lemma keeps_map_fs_err: "keeps w r \<Longrightarrow> keeps w (map_fs_err r)"
  by (cases r; cases "fst r") (auto simp: keeps_def map_fs_err_def answers_def fs_err_to_errno_def)

lemma keeps_with_reply: "keeps w r \<Longrightarrow> keeps w (with_reply f r)"
  by (cases r; cases "fst r") (auto simp: keeps_def with_reply_def answers_def)

text \<open>Updates of the fields that the invariant does not read.\<close>

lemma world_ok_quiet [simp]:
  "world_ok (w\<lparr>w_metrics := mt\<rparr>) = world_ok w" "world_ok (w\<lparr>w_store := s\<rparr>) = world_ok w"
  "world_ok (w\<lparr>block_cache := dc\<rparr>) = world_ok w" "world_ok (w\<lparr>ra_mgr := ra\<rparr>) = world_ok w"
  "world_ok (w\<lparr>w_prefetches := ps\<rparr>) = world_ok w"
  by (simp_all add: world_ok_def)

lemma settings_quiet [simp]:
  "settings (w\<lparr>w_metrics := mt\<rparr>) = settings w" "settings (w\<lparr>w_store := s\<rparr>) = settings w"
  "settings (w\<lparr>ra_mgr := ra\<rparr>) = settings w" "settings (w\<lparr>w_prefetches := ps\<rparr>) = settings w"
  "settings (w\<lparr>inode_mgr := im\<rparr>) = settings w" "settings (w\<lparr>handle_mgr := hm\<rparr>) = settings w"
  "settings (w\<lparr>meta_cache := mc\<rparr>) = settings w"
  "dc_block_size dc = dc_block_size (block_cache w) \<Longrightarrow> settings (w\<lparr>block_cache := dc\<rparr>) = settings w"
  "wb_config wb = wb_config (write_buf w) \<Longrightarrow> settings (w\<lparr>write_buf := wb\<rparr>) = settings w"
  by (simp_all add: settings_def)

lemma world_ok_parts [intro?]:
  "world_ok w \<Longrightarrow> mc_ok mc \<Longrightarrow> world_ok (w\<lparr>meta_cache := mc\<rparr>)"
  "world_ok w \<Longrightarrow> im_ok im \<Longrightarrow> world_ok (w\<lparr>inode_mgr := im\<rparr>)"
  "world_ok w \<Longrightarrow> hm_ok hm \<Longrightarrow> world_ok (w\<lparr>handle_mgr := hm\<rparr>)"
  "world_ok w \<Longrightarrow> wb_ok wb \<Longrightarrow> world_ok (w\<lparr>write_buf := wb\<rparr>)"
  by (simp_all add: world_ok_def)

lemma world_okD:
  "world_ok w \<Longrightarrow> mc_ok (meta_cache w)" "world_ok w \<Longrightarrow> im_ok (inode_mgr w)"
  "world_ok w \<Longrightarrow> hm_ok (handle_mgr w)" "world_ok w \<Longrightarrow> wb_ok (write_buf w)"
  by (simp_all add: world_ok_def)

section \<open>The metadata cache and the handles\<close>

lemma mc_ok_new [wf_intros]: "mc_ok (mc_new cfg)"
  using mc_wf_new [of cfg] by (simp add: mc_ok_def mc_new_def)

lemma mc_ok_ops [wf_intros]:
  assumes "mc_ok mc"
  shows "mc_ok (put_negative now p mc)" "mc_ok (remove_negative p mc)" "mc_ok (invalidate_dir i mc)"
    "mc_ok (invalidate_attr i mc)" "mc_ok (mc_invalidate i mc)" "mc_ok (snd (is_negative now p mc))"
  using assms by (auto simp: mc_ok_def mc_wf_def mc_sel_defs split: option.splits)

lemma mc_ok_update [wf_intros]:
  "mc_ok mc \<Longrightarrow> (\<And>a. fa_ino (f a) = fa_ino a) \<Longrightarrow> mc_ok (mc_update_attr now i f mc)"
  by (auto simp: mc_ok_def mc_wf_def mc_update_attr_def split: if_splits)

lemma mc_ok_put [wf_intros]:
  assumes "mc_ok mc" "fa_ino a = i" shows "mc_ok (put_attr now i a mc)"
proof -
  have "fa_ino (ca_attr e) = j" if "dash_get (attr_cache (put_attr now i a mc)) j = Some e" for j e
    using that assms put_attr_get [of now i a mc] put_attr_get_other [of j i now a mc]
    by (cases "j = i") (auto simp: mc_ok_def cached_attr_new_def split: if_splits)
  then show ?thesis using assms(1) mc_wf_put_attr by (auto simp: mc_ok_def)
qed

lemma get_attr_ok:
  assumes "get_attr now i (mc, mt) = (r, (mc1, mt1))" "mc_ok mc"
  shows "mc_ok mc1 \<and> (\<forall>a. r = Some a \<longrightarrow> fa_ino a = i)"
  using assms by (auto simp: get_attr_def mc_ok_def mc_wf_def split: option.splits if_splits)

lemma in_meta_get_attr:
  assumes "in_meta (get_attr now i) w = (r, w1)" "world_ok w"
  shows "world_ok w1 \<and> settings w1 = settings w \<and> inode_mgr w1 = inode_mgr w \<and> (\<forall>a. r = Some a \<longrightarrow> fa_ino a = i)"
proof -
  obtain mc mt where g: "get_attr now i (meta_cache w, w_metrics w) = (r, (mc, mt))"
      "w1 = w\<lparr>meta_cache := mc, w_metrics := mt\<rparr>"
    using assms(1) by (auto simp: in_meta_def split: prod.splits)
  from get_attr_ok [OF g(1)] assms(2) show ?thesis
    by (auto simp: g(2) intro: world_ok_parts dest: world_okD)
qed

lemma hm_ok_open [wf_intros]:
  assumes "hm_ok m" "unat (next_handle m) + 1 < 2 ^ 64"
  shows "hm_ok (snd (hm_open now i flags is_dir m))"
  using assms handle_ids.mint_bounded [of m now "(i, flags, is_dir)"]
  by (auto simp: hm_ok_def hm_open_def Let_def)

lemma hm_ok_ops [wf_intros]:
  assumes "hm_ok m" shows "hm_ok (hm_update h f m)" "hm_ok (snd (hm_close h m))"
  using assms by (auto simp: hm_ok_def handle_ids.bounded_def hm_get_def hm_update_def hm_close_def split: if_splits)

section \<open>Running the parts\<close>

lemma in_net_keeps:
  assumes "in_net f w = (r, w1)" "world_ok w"
  shows "world_ok w1 \<and> settings w1 = settings w \<and> inode_mgr w1 = inode_mgr w \<and> meta_cache w1 = meta_cache w \<and>
     handle_mgr w1 = handle_mgr w \<and> (\<forall>e. (\<forall>n. errs_only (fst (f n))) \<longrightarrow> r = Inl e \<longrightarrow> (\<exists>k. e = Err k))"
proof -
  obtain mt s where f: "f (w_metrics w, w_store w) = (r, (mt, s))" and w1: "w1 = w\<lparr>w_metrics := mt, w_store := s\<rparr>"
    using assms(1) by (auto simp: in_net_Inr)
  have "r = fst (f (w_metrics w, w_store w))" using f by simp
  then show ?thesis using assms(2) by (auto simp: w1 errs_only_def)
qed

lemma keeps_net:
  assumes "world_ok w" "\<And>n. errs_only (fst (f n))"
  shows "keeps w (or_errno EIO (in_net f w))"
proof -
  obtain r w1 where i: "in_net f w = (r, w1)" by (rule prod.exhaust)
  note k = in_net_keeps [OF i assms(1)]
  show ?thesis
  proof (cases r)
    case (Inl e)
    with k assms(2) obtain x where "e = Err x" by auto
    with i Inl k show ?thesis by (simp add: keeps_def)
  qed (use i k in \<open>simp add: keeps_def\<close>)
qed

lemma keeps_wb:
  assumes "world_ok w" "wb_keeps f"
  shows "keeps w (or_errno EIO (in_wb f w))"
proof -
  obtain r wb mt s where f: "f (write_buf w, (w_metrics w, w_store w)) = (r, (wb, (mt, s)))" by (metis prod.exhaust)
  have k: "wb_ok wb" "wb_config wb = wb_config (write_buf w)"
      "0 < wbc_part_size (wb_config (write_buf w)) \<longrightarrow> errs_only r"
    using assms f unfolding wb_keeps_def world_ok_def by blast+
  have i: "in_wb f w = (r, w\<lparr>write_buf := wb, w_metrics := mt, w_store := s\<rparr>)"
    using f by (simp add: in_wb_Inr)
  show ?thesis
    using k i assms(1) by (cases r) (auto simp: keeps_def serves_def intro: world_ok_parts)
qed


section \<open>The inode table\<close>

text \<open>The names the kernel sends are path components; it never sends the names of a directory itself
  or of its parent.\<close>

definition good_name :: "string \<Rightarrow> bool" where
  "good_name name \<longleftrightarrow> name \<noteq> [] \<and> slash \<notin> set name"

definition room :: "nat \<Rightarrow> 's world \<Rightarrow> bool" where
  "room n w \<longleftrightarrow> unat (next_inode (inode_mgr w)) + n < 2 ^ 64"

lemma join_path_normalized:
  assumes "normalized p" "good_name name"
  shows "normalized (join_path p name) \<and> join_path p name \<noteq> []"
proof -
  have n: "\<not> starts_with slash name" "\<not> ends_with slash name" "name \<noteq> []"
    using assms(2) hd_in_set [of name] last_in_set [of name]
    by (metis good_name_def starts_with_def, metis good_name_def ends_with_def, simp add: good_name_def)
  show ?thesis
    using assms(1) n by (auto simp: join_path_def normalized_iff trim_end_no_end starts_with_def ends_with_def)
qed

lemma im_ok_path: "im_ok m \<Longrightarrow> im_get_path m i = Some p \<Longrightarrow> normalized p"
  using im_wf_entry by (auto simp: im_ok_def get_path_entry)

lemma im_ok_child:
  "im_ok m \<Longrightarrow> im_get_path m i = Some p \<Longrightarrow> good_name name \<Longrightarrow>
     normalized (join_path p name) \<and> join_path p name \<noteq> []"
  using im_ok_path join_path_normalized by blast

lemma im_ok_root_used: "im_ok m \<Longrightarrow> next_inode m \<noteq> ROOT_INODE"
  by (auto simp: im_ok_def im_wf_def inode_ids.bounded_def get_path_entry)

lemma im_ok_get_or_create [wf_intros]:
  assumes "im_ok m" "unat (next_inode m) + 1 < 2 ^ 64"
  shows "im_ok (snd (get_or_create_inode c p d n m))"
  using assms im_wf_get_or_create [of m c p d n] im_ok_root_used [of m]
  by (auto simp: im_ok_def get_or_create_inode_def im_create_def im_get_path_def Let_def split: option.splits)

lemma get_or_create_next:
  "unat (next_inode m) + 1 < 2 ^ 64 \<Longrightarrow>
     unat (next_inode (snd (get_or_create_inode c p d n m))) \<le> unat (next_inode m) + 1"
  using inode_ids.next_unat [of m]
  by (auto simp: get_or_create_inode_def im_create_def Let_def split: option.splits)

lemma modify_entry_path:
  "(\<And>e. ie_path (f e) = ie_path e) \<Longrightarrow> im_get_path (modify_entry i f m) j = im_get_path m j"
  by (auto simp: im_get_path_def modify_entry_def option.map_comp o_def)

lemma im_ok_update_size [wf_intros]: "im_ok m \<Longrightarrow> im_ok (im_update_size c i sz m)"
  using im_wf_update_size [of m c i sz] update_size_path [of c i sz m ROOT_INODE] by (simp add: im_ok_def)

lemma im_ok_set_children [wf_intros]: "im_ok m \<Longrightarrow> im_ok (set_children c i cs m)"
  using im_wf_set_children [of m c i cs] by (simp add: im_ok_def) (simp add: set_children_def modify_entry_path)

lemma im_ok_remove [wf_intros]: "im_ok m \<Longrightarrow> i \<noteq> ROOT_INODE \<Longrightarrow> im_ok (im_remove i m)"
  using im_wf_remove [of m i]
  by (simp add: im_ok_def) (auto simp: im_get_path_def im_remove_def split: option.splits)

lemma im_ok_not_root:
  assumes "im_ok m" "get_inode m p = Some i" "normalized p" "p \<noteq> []"
  shows "i \<noteq> ROOT_INODE"
proof
  assume "i = ROOT_INODE"
  moreover have "im_get_path m i = Some p"
    using assms im_wf_get_inode [of m p i] by (simp add: im_ok_def)
  ultimately show False using assms(1,4) by (simp add: im_ok_def)
qed

lemma im_ok_rename [wf_intros]:
  assumes "im_ok m" "rename_target_free old new m" "normalized old" "old \<noteq> []"
  shows "im_ok (im_rename c old new m)"
proof (cases "dash_get (path_to_inode m) (normalize_path old)")
  case None
  with assms(1) show ?thesis by (simp add: im_rename_def Let_def)
next
  case (Some i)
  then have "i \<noteq> ROOT_INODE" using im_ok_not_root [OF assms(1) _ assms(3,4)] by (simp add: get_inode_def)
  moreover have "get_entry (im_rename c old new m) ROOT_INODE = get_entry m ROOT_INODE"
    using im_rename_entry(1) [OF Some, of c new ROOT_INODE] calculation by simp
  then have "im_get_path (im_rename c old new m) ROOT_INODE = im_get_path m ROOT_INODE"
    by (simp add: im_get_path_def get_entry_def)
  ultimately show ?thesis using assms im_wf_rename by (simp add: im_ok_def)
qed

end
