(* ===== verification/CoreRuns.thy ===== *)
theory CoreRuns
  imports Serving
begin

text \<open>
  Every core operation keeps the invariant of the world and the settings, and is answered
  (\<open>keeps\<close>), whatever the store answers. The side conditions: room in the inode counter for the
  inodes the operation may create, proper names, and for a rename that the new path is not in use.
\<close>

section \<open>The core operations\<close>

lemma keeps_get_path: "world_ok w \<Longrightarrow> keeps w (get_path i w)"
  by (cases "im_get_path (inode_mgr w) i") (auto simp: get_path_def keeps_def)

lemma keeps_child_paths: "world_ok w \<Longrightarrow> keeps w (child_paths parent name w)"
  unfolding child_paths_def by (intro keeps_and_then keeps_get_path) (auto intro: keeps_return)

lemma remember_keeps:
  assumes "remember c path d sz f w = ((i, a), w1)" "world_ok w" "room 1 w" "\<And>i. fa_ino (f i) = i"
  shows "world_ok w1 \<and> settings w1 = settings w \<and> a = f i \<and> handle_mgr w1 = handle_mgr w \<and>
     unat (next_inode (inode_mgr w1)) \<le> unat (next_inode (inode_mgr w)) + 1 \<and>
     im_get_path (inode_mgr w1) i = Some (normalize_path path)"
proof -
  obtain j im where g0: "get_or_create_inode c path d sz (inode_mgr w) = (j, im)" by (rule prod.exhaust)
  have g: "get_or_create_inode c path d sz (inode_mgr w) = (i, im)"
      "w1 = w\<lparr>inode_mgr := im, meta_cache := put_attr (now_mono c) i (f i) (meta_cache w)\<rparr>" "a = f i"
    using assms(1) g0 by (clarsimp simp: remember_def)+
  have im: "im_ok im" "unat (next_inode im) \<le> unat (next_inode (inode_mgr w)) + 1"
    using im_ok_get_or_create [of "inode_mgr w" c path d sz] get_or_create_next [of "inode_mgr w" c path d sz]
      assms(2,3) g(1) by (auto simp: room_def world_ok_def)
  have "get_inode im path = Some i" using get_or_create_lookup [of c path d sz "inode_mgr w"] g(1) by simp
  then have "im_get_path im i = Some (normalize_path path)"
    using im(1) im_wf_get_inode by (auto simp: im_ok_def)
  moreover have "mc_ok (put_attr (now_mono c) i (f i) (meta_cache w))"
    using assms(2,4) by (intro mc_ok_put) (simp_all add: world_ok_def)
  moreover have "world_ok w1"
    unfolding g(2) using assms(2) im(1) calculation(2) by (simp add: world_ok_def)
  ultimately show ?thesis
    using im(2) by (simp add: g(2,3))
qed

lemma keeps_lookup_remote:
  assumes "world_ok w" "room 1 w"
  shows "keeps w (lookup_remote op c path w)"
proof -
  let ?p = "obs_path (w_config w) path"
  have rem: "keeps w (case remember c path d sz f w' of (r, w2) \<Rightarrow> (Inr r, w2))"
    if "world_ok w'" "settings w' = settings w" "inode_mgr w' = inode_mgr w" "\<And>i. fa_ino (f i) = i" for d sz f w'
  proof -
    obtain i a w2 where r: "remember c path d sz f w' = ((i, a), w2)" by (metis prod.exhaust)
    have "room 1 w'" using assms(2) that(3) by (simp add: room_def)
    from remember_keeps [OF r that(1) this that(4)] that(2) r show ?thesis by (simp add: keeps_def)
  qed
  obtain r1 w1 where n1: "in_net (oc_stat op ?p) w = (r1, w1)" by (rule prod.exhaust)
  obtain r2 w2 where n2: "in_net (oc_stat op (as_dir ?p)) w1 = (r2, w2)" by (rule prod.exhaust)
  obtain r3 w3 where n3: "in_net (oc_list op (as_dir ?p)) w2 = (r3, w3)" by (rule prod.exhaust)
  note k1 = in_net_keeps [OF n1 assms(1)]
  have k2: "world_ok w2" "settings w2 = settings w" "inode_mgr w2 = inode_mgr w"
    using in_net_keeps [OF n2] k1 by auto
  have k3: "world_ok w3" "settings w3 = settings w" "inode_mgr w3 = inode_mgr w"
    using in_net_keeps [OF n3] k2 by auto
  have neg: "keeps w (Inl (Err ENOENT) :: (u64 \<times> file_attr) fs_result,
      w3\<lparr>meta_cache := put_negative (now_mono c) path (meta_cache w3)\<rparr>)"
    using k3 by (intro keeps_return world_ok_parts mc_ok_ops world_okD) auto
  show ?thesis
  proof (cases r1)
    case (Inr meta)
    with n1 k1 rem show ?thesis by (simp add: lookup_remote_def Let_def)
  next
    case 1: (Inl e)
    show ?thesis
    proof (cases r2)
      case (Inr meta)
      with n1 n2 1 k2 rem show ?thesis by (simp add: lookup_remote_def Let_def)
    next
      case 2: (Inl e2)
      show ?thesis
        using rem [OF k3] neg n1 n2 n3 1 2
        by (cases r3) (simp_all add: lookup_remote_def Let_def split: list.split)
    qed
  qed
qed


lemma keeps_lookup:
  assumes "world_ok w" "room 1 w"
  shows "keeps w (do_lookup op c parent name w)"
proof -
  have "keeps w1 (case is_negative (now_mono c) q (meta_cache w1) of
      (True, mc) \<Rightarrow> (Inl (Err ENOENT), w1\<lparr>meta_cache := mc\<rparr>)
    | (False, mc) \<Rightarrow>
        (case lookup_cached c q (w1\<lparr>meta_cache := mc\<rparr>) of
           (Some r, w2) \<Rightarrow> (Inr r, w2)
         | (None, w2) \<Rightarrow> lookup_remote op c q w2))"
    if w1: "world_ok w1" "room 1 w1" for q and w1 :: "'a world"
  proof -
    obtain b mc where n: "is_negative (now_mono c) q (meta_cache w1) = (b, mc)" by (rule prod.exhaust)
    have "mc_ok mc" using mc_ok_ops(6) [OF world_okD(1) [OF w1(1)], of "now_mono c" q] n by simp
    then have w2: "world_ok (w1\<lparr>meta_cache := mc\<rparr>)" using w1(1) by (simp add: world_ok_def)
    obtain r w3 where l: "lookup_cached c q (w1\<lparr>meta_cache := mc\<rparr>) = (r, w3)" by (rule prod.exhaust)
    have w3: "world_ok w3 \<and> settings w3 = settings w1 \<and> inode_mgr w3 = inode_mgr w1"
    proof (cases "get_inode (inode_mgr w1) q")
      case None
      with l w2 show ?thesis by (simp add: lookup_cached_def) (metis settings_quiet(7) world.select_convs(1) world.surjective world.update_convs(2))
    next
      case (Some i)
      obtain a w4 where g: "in_meta (get_attr (now_mono c) i) (w1\<lparr>meta_cache := mc\<rparr>) = (a, w4)" by (rule prod.exhaust)
      with l Some have "w3 = w4" by (cases a) (simp_all add: lookup_cached_def)
      with in_meta_get_attr [OF g w2] show ?thesis by simp
    qed
    then have "room 1 w3" using w1(2) by (simp add: room_def)
    with w3 have "keeps w1 (lookup_remote op c q w3)" using keeps_lookup_remote keeps_from by blast
    with w3 w2 n l show ?thesis by (cases b; cases r) (simp_all add: keeps_def)
  qed
  then show ?thesis
    unfolding do_lookup_def Let_def
    by (intro keeps_and_then keeps_get_path assms(1)) (use assms(2) in \<open>simp add: room_def\<close>)
qed

lemma keeps_getattr:
  assumes "world_ok w" shows "keeps w (do_getattr op c i w)"
proof -
  obtain r w1 where g: "in_meta (get_attr (now_mono c) i) (w\<lparr>w_metrics := inc_getattr_ops (w_metrics w)\<rparr>) = (r, w1)"
    by (rule prod.exhaust)
  have k: "world_ok w1" "settings w1 = settings w" using in_meta_get_attr [OF g] assms by simp_all
  have "keeps w2 (case in_net (oc_stat op (obs_path (w_config w2) path)) w2 of
       (Inl e, w3) \<Rightarrow> (Inl (stat_errno e), w3)
     | (Inr meta, w3) \<Rightarrow>
         (let attr = from_object_meta (now_wall c) (cfg_permission (w_config w3)) i meta
          in (Inr attr, w3\<lparr>meta_cache := put_attr (now_mono c) i attr (meta_cache w3)\<rparr>)))"
    if w2: "world_ok w2" for path and w2 :: "'a world"
  proof -
    obtain x w3 where n: "in_net (oc_stat op (obs_path (w_config w2) path)) w2 = (x, w3)" by (rule prod.exhaust)
    note k = in_net_keeps [OF n w2]
    show ?thesis
    proof (cases x)
      case (Inl e)
      with k obtain y where "e = Err y" by auto
      with n Inl k show ?thesis by (simp add: keeps_def stat_errno_def)
    next
      case (Inr meta)
      let ?a = "from_object_meta (now_wall c) (cfg_permission (w_config w3)) i meta"
      have "mc_ok (put_attr (now_mono c) i ?a (meta_cache w3))"
        using k by (intro mc_ok_put world_okD) simp_all
      with n Inr k w2 show ?thesis by (simp add: keeps_def Let_def world_ok_def)
    qed
  qed
  then have b: "keeps w1 (and_then (get_path i w1) (\<lambda>path w2.
      (case in_net (oc_stat op (obs_path (w_config w2) path)) w2 of
         (Inl e, w3) \<Rightarrow> (Inl (stat_errno e), w3)
       | (Inr meta, w3) \<Rightarrow>
           (let attr = from_object_meta (now_wall c) (cfg_permission (w_config w3)) i meta
            in (Inr attr, w3\<lparr>meta_cache := put_attr (now_mono c) i attr (meta_cache w3)\<rparr>)))))"
    by (intro keeps_and_then keeps_get_path k(1))
  show ?thesis
  proof (cases r)
    case None
    from keeps_from [OF b k(2)] g None show ?thesis by (simp add: do_getattr_def)
  next
    case (Some a)
    with g k show ?thesis by (simp add: do_getattr_def keeps_def)
  qed
qed


lemma readdir_loop_keeps:
  assumes "readdir_loop c path off eo metas w = (es, is, w1)" "world_ok w" "room (length metas) w"
  shows "world_ok w1 \<and> settings w1 = settings w"
  using assms
proof (induction c path off eo metas w arbitrary: es "is" w1 rule: readdir_loop.induct)
  case (2 c path off eo meta metas w)
  show ?case
  proof (cases "eo \<le> off")
    case True
    with 2 show ?thesis by (simp add: room_def)
  next
    case f1: False
    show ?thesis
    proof (cases "skip_name (om_name meta)")
      case True
      with 2 f1 show ?thesis by (simp add: room_def)
    next
      case f2: False
      let ?attr = "\<lambda>i. from_object_meta (now_wall c) (cfg_permission (w_config w)) i meta"
      obtain i a w2 where r:
        "remember c (join_path path (om_name meta)) (om_is_dir meta) (om_size meta) ?attr w = ((i, a), w2)"
        by (metis prod.exhaust)
      obtain es2 is2 w3 where l: "readdir_loop c path off (eo + 1) metas w2 = (es2, is2, w3)" by (metis prod.exhaust)
      have "room 1 w" using "2.prems"(3) by (simp add: room_def)
      note k = remember_keeps [OF r "2.prems"(2) this]
      then have "room (length metas) w2" "world_ok w2" using "2.prems"(3) by (simp_all add: room_def)
      with "2.IH"(3) [OF f1 f2 r [symmetric] refl l] have "world_ok w3" "settings w3 = settings w2" by simp_all
      with "2.prems"(1) f1 f2 r l k show ?thesis by simp
    qed
  qed
qed simp

text \<open>How many objects the listing of a directory returns.\<close>

definition listing_size :: "'s operator \<Rightarrow> u64 \<Rightarrow> 's world \<Rightarrow> nat" where
  "listing_size op i w =
     (case im_get_path (inode_mgr w) i of
        None \<Rightarrow> 0
      | Some path \<Rightarrow>
          (let path0 = obs_path (w_config w) path; list_prefix = (if path0 = [] then [] else as_dir path0)
           in case fst (in_net (oc_list_dir op list_prefix) w) of Inr metas \<Rightarrow> length metas | Inl _ \<Rightarrow> 0))"

lemma keeps_readdir:
  assumes "world_ok w" "room (listing_size op i w) w"
  shows "keeps w (do_readdir op c i off w)"
proof (cases "im_get_path (inode_mgr w) i")
  case None
  with assms(1) show ?thesis by (simp add: do_readdir_def get_path_def keeps_def)
next
  case (Some path)
  let ?p0 = "obs_path (w_config w) path"
  let ?pre = "if ?p0 = [] then [] else as_dir ?p0"
  obtain x w1 where n: "in_net (oc_list_dir op ?pre) w = (x, w1)" by (rule prod.exhaust)
  note k = in_net_keeps [OF n assms(1)]
  show ?thesis
  proof (cases x)
    case (Inl e)
    with k obtain y where "e = Err y" by auto
    with n Inl k Some show ?thesis by (simp add: do_readdir_def get_path_def keeps_def Let_def)
  next
    case (Inr metas)
    obtain es ins w2 where l: "readdir_loop c path off 3 metas w1 = (es, ins, w2)" by (metis prod.exhaust)
    have "room (length metas) w1"
      using assms(2) Some n Inr k by (simp add: listing_size_def room_def Let_def)
    with readdir_loop_keeps [OF l] k have w2: "world_ok w2" "settings w2 = settings w" by simp_all
    have "im_ok (set_children c i ins (inode_mgr w2))" by (intro im_ok_set_children world_okD w2)
    with Some n Inr l w2 show ?thesis
      by (simp add: do_readdir_def get_path_def keeps_def Let_def world_ok_def)
  qed
qed


text \<open>The data cache returns when its block size is positive, and never changes it.\<close>

lemma block_key_ok: "block_key_new i off bs = None \<longleftrightarrow> bs = 0"
  by (simp add: block_key_new_def)

lemma dc_get_keeps:
  "dc_get now i off (dc, mt) = Some (r, (dc1, mt1)) \<Longrightarrow> dc_block_size dc1 = dc_block_size dc"
  by (auto simp: dc_get_def split: option.splits prod.splits)

lemma dc_get_returns: "dc_get now i off (dc, mt) = None \<longleftrightarrow> dc_block_size dc = 0"
  using block_key_ok [of i off "dc_block_size dc"] by (auto simp: dc_get_def split: option.splits)

lemma dc_put_returns: "dc_put now i off d dc = None \<longleftrightarrow> dc_block_size dc = 0"
  by (simp add: dc_put_def block_key_ok)

lemma dc_invalidate_range_returns: "dc_invalidate_range i off n dc = None \<Longrightarrow> dc_block_size dc = 0"
  by (simp add: dc_invalidate_range_def Let_def split: if_splits prod.splits)

lemma dc_invalidate_block_size [simp]: "dc_block_size (dc_invalidate i dc) = dc_block_size dc"
  by (simp add: dc_invalidate_def Let_def)

lemma keeps_panic: "world_ok w1 \<Longrightarrow> settings w1 = settings w \<Longrightarrow> dc_block_size (block_cache w1) = 0 \<Longrightarrow> keeps w (Inl Panic, w1)"
  using serves_settings [of w1 w] by (simp add: keeps_def serves_def)

lemma keeps_read_remote:
  assumes "world_ok w" shows "keeps w (read_remote op c i path off sz w)"
  unfolding read_remote_def
proof (intro keeps_and_then keeps_net assms)
  fix data and w1 :: "'a world"
  assume w1: "world_ok w1"
  obtain req ra where r: "record_read (now_mono c) i off (ucast sz) (ra_mgr w1) = (req, ra)" by (rule prod.exhaust)
  show "keeps w1 (case dc_put (now_mono c) i off data (block_cache w1) of
      None \<Rightarrow> (Inl Panic, w1)
    | Some dc \<Rightarrow>
        (case record_read (now_mono c) i off (ucast sz) (ra_mgr w1) of
           (request, ra) \<Rightarrow>
             (Inr data,
              w1\<lparr>block_cache := dc, ra_mgr := ra,
                 w_prefetches := w_prefetches w1 @ (case request of Some p \<Rightarrow> [(path, p)] | None \<Rightarrow> []),
                 w_metrics := add_read_bytes (len64 data) (w_metrics w1)\<rparr>)))"
  proof (cases "dc_put (now_mono c) i off data (block_cache w1)")
    case None
    have "dc_block_size (block_cache w1) = 0" using None by (simp only: dc_put_returns)
    with None w1 show ?thesis by (simp add: keeps_panic)
  next
    case (Some dc)
    from dc_put_block_size [OF this] w1 r Some show ?thesis by (simp add: keeps_def)
  qed
qed simp

lemma keeps_read:
  assumes "world_ok w" shows "keeps w (do_read op c i fh off sz w)"
proof (cases "im_get_path (inode_mgr w) i")
  case None
  with assms show ?thesis by (simp add: do_read_def get_path_def keeps_def)
next
  case (Some path)
  let ?hm = "hm_update fh (update_position (now_mono c) off (ucast sz)) (handle_mgr w)"
  let ?w0 = "w\<lparr>w_metrics := inc_read_ops (w_metrics w), handle_mgr := ?hm\<rparr>"
  let ?path = "obs_path (w_config w) path"
  have hm: "hm_ok ?hm" using assms by (intro hm_ok_ops world_okD)
  obtain x ra where g: "get_prefetched (now_mono c) \<lparr>pk_inode = i, pk_offset = off\<rparr> (ra_mgr w) = (x, ra)"
    by (rule prod.exhaust)
  have w1: "world_ok (?w0\<lparr>ra_mgr := ra\<rparr>)" using assms hm by (simp add: world_ok_def)
  show ?thesis
  proof (cases x)
    case (Some data)
    with \<open>im_get_path (inode_mgr w) i = Some path\<close> g w1 show ?thesis
      by (simp add: do_read_def get_path_def keeps_def Let_def)
  next
    case x: None
    show ?thesis
    proof (cases "dc_get (now_mono c) i off (block_cache w, inc_read_ops (w_metrics w))")
      case None
      have "dc_block_size (block_cache w) = 0" using None by (simp only: dc_get_returns)
      with None \<open>im_get_path (inode_mgr w) i = Some path\<close> g x w1 keeps_panic [of "?w0\<lparr>ra_mgr := ra\<rparr>" w]
      show ?thesis by (simp add: do_read_def get_path_def Let_def)
    next
      case (Some r)
      obtain cached dc mt where r: "r = (cached, (dc, mt))" by (metis prod.exhaust)
      let ?w2 = "?w0\<lparr>ra_mgr := ra, block_cache := dc, w_metrics := mt\<rparr>"
      have w2: "world_ok ?w2" "settings ?w2 = settings w"
        using assms hm dc_get_keeps [OF Some [unfolded r]] by (simp_all add: world_ok_def)
      have rr: "keeps w (read_remote op c i ?path off sz ?w2)"
        using keeps_from [OF keeps_read_remote [OF w2(1)] w2(2)] .
      with \<open>im_get_path (inode_mgr w) i = Some path\<close> g x Some r w2 show ?thesis
        by (cases cached) (simp_all add: do_read_def get_path_def Let_def keeps_return)
    qed
  qed
qed


lemma keeps_write:
  assumes "world_ok w" shows "keeps w (do_write op c i fh off data w)"
proof -
  have w0: "world_ok (w\<lparr>w_metrics := inc_write_ops (w_metrics w)\<rparr>)"
      "settings (w\<lparr>w_metrics := inc_write_ops (w_metrics w)\<rparr>) = settings w" using assms by simp_all
  show ?thesis
    unfolding do_write_def
  proof (intro keeps_from [OF _ w0(2)] keeps_and_then keeps_get_path w0(1), goal_cases)
    case (1 path w1)
    obtain cached w2 where g: "in_meta (get_attr (now_mono c) i) w1 = (cached, w2)" by (rule prod.exhaust)
    let ?sz = "case cached of Some a \<Rightarrow> fa_size a | None \<Rightarrow> 0"
    have w2: "world_ok w2" "settings w2 = settings w1" using in_meta_get_attr [OF g 1(2)] by simp_all
    have "keeps w2 (and_then (or_errno EIO (in_wb
            (wb_write op (now_mono c) i (obs_path (w_config w2) path) off data ?sz) w2))
          (\<lambda>written w2.
            (let new_size = off + of_nat written;
                 w3 = w2\<lparr>handle_mgr := hm_update fh
                           (\<lambda>h. mark_dirty (update_position (now_mono c) off (of_nat written) h)) (handle_mgr w2),
                         meta_cache := mc_update_attr (now_mono c) i
                           (\<lambda>a. a\<lparr>fa_size := max (fa_size a) new_size, fa_mtime := now_wall c\<rparr>) (meta_cache w2),
                         inode_mgr := im_update_size c i new_size (inode_mgr w2)\<rparr>
             in case dc_invalidate_range i off written (block_cache w3) of
                  None \<Rightarrow> (Inl Panic, w3)
                | Some dc \<Rightarrow>
                    (Inr written,
                     w3\<lparr>block_cache := dc, w_metrics := add_write_bytes (of_nat written) (w_metrics w3)\<rparr>))))"
    proof (intro keeps_and_then keeps_wb wb_keeps_write w2(1), goal_cases)
      case (1 n w3)
      let ?w4 = "w3\<lparr>handle_mgr := hm_update fh
            (\<lambda>h. mark_dirty (update_position (now_mono c) off (of_nat n) h)) (handle_mgr w3),
          meta_cache := mc_update_attr (now_mono c) i
            (\<lambda>a. a\<lparr>fa_size := max (fa_size a) (off + of_nat n), fa_mtime := now_wall c\<rparr>) (meta_cache w3),
          inode_mgr := im_update_size c i (off + of_nat n) (inode_mgr w3)\<rparr>"
      have w4: "world_ok ?w4"
        using 1(2) by (intro world_ok_parts hm_ok_ops mc_ok_update im_ok_update_size) (auto dest: world_okD)
      show ?case
      proof (cases "dc_invalidate_range i off n (block_cache w3)")
        case None
        with dc_invalidate_range_returns [OF None] w4 keeps_panic [of ?w4 w3] show ?thesis by (simp add: Let_def)
      next
        case (Some dc)
        with range_invalidation_only_removes [OF Some] w4 show ?thesis by (simp add: keeps_def Let_def)
      qed
    qed
    from keeps_from [OF this w2(2)] g show ?case by (simp add: Let_def)
  qed
qed

lemma keeps_create:
  assumes "world_ok w" "room 1 w" "unat (next_handle (handle_mgr w)) + 1 < 2 ^ 64"
  shows "keeps w (do_create op c parent name mode flags w)"
  unfolding do_create_def
proof (intro keeps_and_then keeps_child_paths assms(1), goal_cases)
  case (1 cp w1)
  obtain child path where cp: "cp = (child, path)" by (rule prod.exhaust)
  have w1: "w1 = w" using 1(1) cp by (simp add: child_paths_Inr)
  show ?case
    unfolding cp prod.case
  proof (intro keeps_and_then keeps_net 1(2), goal_cases)
    case (2 u w2)
    have "in_net (oc_write op path []) w1 = (Inr u, w2)" using 2(1) by simp
    note k = in_net_keeps [OF this 1(2)]
    let ?f = "\<lambda>i. new_file_attr (now_wall c) (cfg_permission (w_config w2)) i (Some mode)"
    obtain i a w3 where r: "remember c child False 0 ?f w2 = ((i, a), w3)" by (metis prod.exhaust)
    have "room 1 w2" using assms(2) w1 k by (simp add: room_def)
    then have w3: "world_ok w3" "settings w3 = settings w2" "handle_mgr w3 = handle_mgr w2"
      using remember_keeps [OF r 2(2)] by simp_all
    obtain fh hm where h: "hm_open (now_mono c) i flags False (handle_mgr w3) = (fh, hm)" by (rule prod.exhaust)
    have "hm_ok hm"
      using hm_ok_open [of "handle_mgr w3" "now_mono c" i flags False] world_okD(3) [OF w3(1)] h assms(3) w1 k w3(3)
      by simp
    moreover have "mc_ok (invalidate_dir parent (remove_negative child (meta_cache w3)))"
      by (intro mc_ok_ops world_okD w3)
    ultimately show ?case using r h w3 by (simp add: keeps_def world_ok_def)
  qed simp
qed

lemma keeps_mkdir:
  assumes "world_ok w" "room 1 w"
  shows "keeps w (do_mkdir op c parent name mode w)"
  unfolding do_mkdir_def
proof (intro keeps_and_then keeps_child_paths assms(1), goal_cases)
  case (1 cp w1)
  obtain child path where cp: "cp = (child, path)" by (rule prod.exhaust)
  have w1: "w1 = w" using 1(1) cp by (simp add: child_paths_Inr)
  show ?case
    unfolding cp prod.case
  proof (intro keeps_and_then keeps_net 1(2), goal_cases)
    case (2 u w2)
    have "in_net (oc_create_dir op path) w1 = (Inr u, w2)" using 2(1) by simp
    note k = in_net_keeps [OF this 1(2)]
    let ?f = "\<lambda>i. new_directory_attr (now_wall c) (cfg_permission (w_config w2)) i (Some mode)"
    obtain i a w3 where r: "remember c child True 0 ?f w2 = ((i, a), w3)" by (metis prod.exhaust)
    have "room 1 w2" using assms(2) w1 k by (simp add: room_def)
    then have w3: "world_ok w3" "settings w3 = settings w2" using remember_keeps [OF r 2(2)] by simp_all
    have "mc_ok (invalidate_dir parent (remove_negative child (meta_cache w3)))"
      by (intro mc_ok_ops world_okD w3)
    then show ?case using r w3 by (simp add: keeps_def world_ok_def)
  qed simp
qed


lemma forget_file_ok:
  assumes "world_ok w" "normalized path" "path \<noteq> []"
  shows "world_ok (forget_file path w) \<and> settings (forget_file path w) = settings w"
proof (cases "get_inode (inode_mgr w) path")
  case None
  with assms show ?thesis by (simp add: forget_file_def)
next
  case (Some i)
  have "i \<noteq> ROOT_INODE" using im_ok_not_root [OF world_okD(2) [OF assms(1)] Some assms(2,3)] .
  then have "im_ok (im_remove i (inode_mgr w))" "mc_ok (mc_invalidate i (meta_cache w))"
    using assms(1) by (auto intro: im_ok_remove mc_ok_ops world_okD)
  with assms(1) Some show ?thesis by (simp add: forget_file_def world_ok_def)
qed

lemma keeps_unlink:
  assumes "world_ok w" "good_name name"
  shows "keeps w (do_unlink op parent name w)"
  unfolding do_unlink_def
proof (intro keeps_and_then keeps_child_paths assms(1), goal_cases)
  case (1 cp w1)
  obtain child path where cp: "cp = (child, path)" by (rule prod.exhaust)
  then obtain pp where pp: "im_get_path (inode_mgr w) parent = Some pp" "child = join_path pp name"
    using 1(1) by (auto simp: child_paths_Inr)
  have child: "normalized child" "child \<noteq> []"
    using im_ok_child [OF world_okD(2) [OF assms(1)] pp(1) assms(2)] pp(2) by auto
  show ?case
    unfolding cp prod.case
  proof (intro keeps_and_then keeps_net 1(2), goal_cases)
    case (2 u w2)
    note f = forget_file_ok [OF 2(2) child]
    have "mc_ok (invalidate_dir parent (meta_cache (forget_file child w2)))"
      using f by (intro mc_ok_ops world_okD) simp
    with f show ?case by (simp add: keeps_def Let_def world_ok_def)
  qed simp
qed

lemma keeps_rmdir:
  assumes "world_ok w" "good_name name"
  shows "keeps w (do_rmdir op parent name w)"
  unfolding do_rmdir_def
proof (intro keeps_and_then keeps_child_paths assms(1), goal_cases)
  case (1 cp w1)
  obtain child path where cp: "cp = (child, path)" by (rule prod.exhaust)
  then obtain pp where pp: "im_get_path (inode_mgr w) parent = Some pp" "child = join_path pp name"
    using 1(1) by (auto simp: child_paths_Inr)
  have child: "normalized child" "child \<noteq> []"
    using im_ok_child [OF world_okD(2) [OF assms(1)] pp(1) assms(2)] pp(2) by auto
  show ?case
    unfolding cp prod.case
  proof (intro keeps_and_then keeps_net 1(2), goal_cases)
    case (2 es w2)
    obtain r w3 where d: "in_net (oc_delete op (as_dir path)) w2 = (r, w3)" by (rule prod.exhaust)
    note k = in_net_keeps [OF d 2(2)]
    let ?w4 = "case get_inode (inode_mgr w3) child of None \<Rightarrow> w3
      | Some i \<Rightarrow> w3\<lparr>meta_cache := mc_invalidate i (meta_cache w3), inode_mgr := im_remove i (inode_mgr w3)\<rparr>"
    have w4: "world_ok ?w4" "settings ?w4 = settings w2"
    proof -
      have "im_ok (im_remove i (inode_mgr w3))" "mc_ok (mc_invalidate i (meta_cache w3))"
        if "get_inode (inode_mgr w3) child = Some i" for i
      proof -
        have "im_ok (inode_mgr w3)" "mc_ok (meta_cache w3)" using k world_okD by blast+
        with im_ok_not_root [OF _ that child] show "im_ok (im_remove i (inode_mgr w3))"
          "mc_ok (mc_invalidate i (meta_cache w3))" by (simp_all add: im_ok_remove mc_ok_ops(5))
      qed
      with k show "world_ok ?w4" "settings ?w4 = settings w2"
        by (auto simp: world_ok_def split: option.split)
    qed
    have "mc_ok (invalidate_dir parent (meta_cache ?w4))"
      using w4 by (intro mc_ok_ops world_okD)
    with w4 d 2(2) show ?case by (simp add: keeps_def Let_def world_ok_def)
  qed simp
qed

text \<open>A rename whose new path is not the path of another inode.\<close>

definition rename_free :: "u64 \<Rightarrow> string \<Rightarrow> u64 \<Rightarrow> string \<Rightarrow> 's world \<Rightarrow> bool" where
  "rename_free parent name new_parent new_name w =
     (case (im_get_path (inode_mgr w) parent, im_get_path (inode_mgr w) new_parent) of
        (Some p, Some q) \<Rightarrow> rename_target_free (join_path p name) (join_path q new_name) (inode_mgr w)
      | _ \<Rightarrow> True)"

lemma keeps_rename:
  assumes "world_ok w" "good_name name" "rename_free parent name new_parent new_name w"
  shows "keeps w (do_rename op c parent name new_parent new_name w)"
  unfolding do_rename_def
proof (intro keeps_and_then keeps_child_paths assms(1), goal_cases)
  case a: (1 cp w1)
  obtain child path where cp: "cp = (child, path)" by (rule prod.exhaust)
  then obtain pp where pp: "im_get_path (inode_mgr w) parent = Some pp" "child = join_path pp name" "w1 = w"
    using a(1) by (auto simp: child_paths_Inr)
  have child: "normalized child" "child \<noteq> []"
    using im_ok_child [OF world_okD(2) [OF assms(1)] pp(1) assms(2)] pp(2) by auto
  show ?case
    unfolding cp prod.case
  proof (intro keeps_and_then keeps_child_paths a(2), goal_cases)
    case b: (1 cq w2)
    obtain new npath where cq: "cq = (new, npath)" by (rule prod.exhaust)
    then obtain qq where qq: "im_get_path (inode_mgr w) new_parent = Some qq" "new = join_path qq new_name" "w2 = w"
      using b(1) pp(3) by (auto simp: child_paths_Inr)
    have free: "rename_target_free child new (inode_mgr w)"
      using assms(3) pp qq by (simp add: rename_free_def)
    show ?case
      unfolding cq prod.case
    proof (rule keeps_and_then [OF keeps_net [OF b(2)]], goal_cases)
      case d: (2 u w3)
      have "in_net (oc_copy op path npath) w2 = (Inr u, w3)" using d(1) by simp
      note k3 = in_net_keeps [OF this b(2)]
      show ?case
      proof (rule keeps_and_then [OF keeps_net [OF d(2)]], goal_cases)
        case e: (2 v w4)
        have "in_net (oc_delete op path) w3 = (Inr v, w4)" using e(1) by simp
        note k4 = in_net_keeps [OF this d(2)]
        let ?im = "im_rename c child new (inode_mgr w4)"
        let ?mc = "case get_inode ?im new of Some i \<Rightarrow> mc_invalidate i (meta_cache w4) | None \<Rightarrow> meta_cache w4"
        have im: "im_ok ?im"
          using free k3 k4 qq(3) by (intro im_ok_rename world_okD child e(2)) simp
        have "mc_ok ?mc"
          using mc_ok_ops(5) [OF world_okD(1) [OF e(2)]] world_okD(1) [OF e(2)] by (simp split: option.split)
        then have "mc_ok (invalidate_dir parent ?mc)" "mc_ok (invalidate_dir new_parent (invalidate_dir parent ?mc))"
          by (auto intro: mc_ok_ops)
        with im e(2) show ?case
          by (cases "parent = new_parent") (simp_all add: keeps_def Let_def world_ok_def)
      qed simp
    qed simp
  qed
qed

section \<open>Handles, flushing, truncation and prefetching\<close>

lemma keeps_open:
  assumes "world_ok w" "unat (next_handle (handle_mgr w)) + 1 < 2 ^ 64"
  shows "world_ok (snd (do_open c i flags w)) \<and> settings (snd (do_open c i flags w)) = settings w"
    "world_ok (snd (do_opendir c i flags w)) \<and> settings (snd (do_opendir c i flags w)) = settings w"
  using hm_ok_open [OF world_okD(3) [OF assms(1)] assms(2), of "now_mono c" i flags] assms(1)
  by (auto simp: do_open_def do_opendir_def world_ok_def split: prod.split) (metis snd_conv)+

lemma keeps_close: "world_ok w \<Longrightarrow> world_ok (do_close fh w) \<and> settings (do_close fh w) = settings w"
  using hm_ok_ops(2) [OF world_okD(3)] by (simp add: do_close_def world_ok_def)

lemma keeps_release: "world_ok w \<Longrightarrow> keeps w (do_release op i fh w)"
  unfolding do_release_def
  by (intro keeps_and_then keeps_wb wb_keeps_release)
    (auto simp: keeps_def world_ok_def intro: hm_ok_ops mc_ok_ops)

lemma keeps_flushes:
  assumes "world_ok w"
  shows "keeps w (do_fsync op i w)" "keeps w (do_flush op i w)" "keeps w (core_flush_all op w)"
  unfolding do_fsync_def do_flush_def core_flush_all_def
  by (rule keeps_wb [OF assms]; rule wb_keeps_flush wb_keeps_sync_flush wb_keeps_flush_all)+

lemma keeps_truncate: "world_ok w \<Longrightarrow> keeps w (do_truncate op c i sz w)"
  unfolding do_truncate_def
  by (intro keeps_and_then keeps_get_path keeps_wb wb_keeps_truncate) (simp_all add: keeps_def)

lemma keeps_prefetch: "world_ok w \<Longrightarrow> world_ok (run_prefetch op c n w) \<and> settings (run_prefetch op c n w) = settings w"
  by (simp add: run_prefetch_def split: prod.split)

lemma keeps_access: "world_ok w \<Longrightarrow> keeps w (do_access i w, w)"
  by (simp add: do_access_def keeps_def)

end
