(* ===== verification/WinFsp.thy ===== *)
theory WinFsp
  imports FileTime CoreRuns
begin

text \<open>
  The WinFSP front end (src/src/fs/winfsp_impl.rs): one handler per operation of the
  \<open>FileSystemInterface\<close> trait of the winfsp crate, over the same core as the FUSE front end.

  A handler returns a status or a value with the next world. The core below it is the model of the
  \<open>unix\<close> arm; the open flags it is given and the error numbers that \<open>fs_err_to_status\<close> tells apart
  have the same meaning in the \<open>windows\<close> arm. \<open>block_on\<close> runs a future to its end. Names are taken
  to be valid Unicode. Mounting the host and logging are not modelled.
\<close>

section \<open>Contexts, statuses and file information\<close>

record file_context =
  ctx_inode :: u64
  ctx_fh :: u64
  ctx_is_dir :: bool

datatype nt_status =
  STATUS_ACCESS_DENIED | STATUS_DIRECTORY_NOT_EMPTY | STATUS_FILE_IS_A_DIRECTORY
| STATUS_INVALID_PARAMETER | STATUS_NOT_A_DIRECTORY | STATUS_OBJECT_NAME_NOT_FOUND | STATUS_UNSUCCESSFUL

type_synonym 'a io_result = "nt_status abort + 'a"

definition fs_err_to_status :: "int \<Rightarrow> nt_status" where
  "fs_err_to_status e =
     (if e = ENOENT then STATUS_OBJECT_NAME_NOT_FOUND
      else if e = ENOTEMPTY then STATUS_DIRECTORY_NOT_EMPTY
      else if e = EACCES then STATUS_ACCESS_DENIED
      else if e = EISDIR then STATUS_FILE_IS_A_DIRECTORY
      else if e = ENOTDIR then STATUS_NOT_A_DIRECTORY
      else if e = EINVAL then STATUS_INVALID_PARAMETER
      else STATUS_UNSUCCESSFUL)"

text \<open>The \<open>map_err\<close> of the handlers, and their \<open>?\<close> operator.\<close>

definition or_status :: "'a fs_result \<times> 'w \<Rightarrow> 'a io_result \<times> 'w" where
  "or_status r = (case r of (Inl e, w) \<Rightarrow> (Inl (map_err fs_err_to_status e), w) | (Inr a, w) \<Rightarrow> (Inr a, w))"

definition io_then :: "'a io_result \<times> 'w \<Rightarrow> ('a \<Rightarrow> 'w \<Rightarrow> 'b io_result \<times> 'w) \<Rightarrow> 'b io_result \<times> 'w" where
  "io_then r k = (case r of (Inl e, w) \<Rightarrow> (Inl e, w) | (Inr a, w) \<Rightarrow> k a w)"

record file_info =
  fi_file_attributes :: u32
  fi_reparse_tag :: u32
  fi_allocation_size :: u64
  fi_file_size :: u64
  fi_creation_time :: u64
  fi_last_access_time :: u64
  fi_last_write_time :: u64
  fi_change_time :: u64
  fi_index_number :: u64
  fi_hard_links :: u32
  fi_ea_size :: u32

definition kind_attributes :: "file_kind \<Rightarrow> u32" where
  "kind_attributes k = (case k of Directory \<Rightarrow> FILE_ATTRIBUTE_DIRECTORY | _ \<Rightarrow> FILE_ATTRIBUTE_NORMAL)"

definition build_file_info :: "file_attr \<Rightarrow> file_info" where
  "build_file_info a =
     \<lparr>fi_file_attributes = kind_attributes (fa_kind a), fi_reparse_tag = 0,
      fi_allocation_size = fa_blocks a * 512, fi_file_size = fa_size a,
      fi_creation_time = filetime_of (fa_crtime a), fi_last_access_time = filetime_of (fa_atime a),
      fi_last_write_time = filetime_of (fa_mtime a), fi_change_time = filetime_of (fa_ctime a),
      fi_index_number = fa_ino a, fi_hard_links = 0, fi_ea_size = 0\<rparr>"

text \<open>The conversion in src/src/fs/inode.rs, which the front end does not use.\<close>

definition to_winfsp :: "file_attr \<Rightarrow> file_info" where
  "to_winfsp a =
     \<lparr>fi_file_attributes = to_win_attrs (fa_kind a), fi_reparse_tag = 0,
      fi_allocation_size = fa_blocks a * 512, fi_file_size = fa_size a,
      fi_creation_time = filetime_of (fa_crtime a), fi_last_access_time = filetime_of (fa_atime a),
      fi_last_write_time = filetime_of (fa_mtime a), fi_change_time = filetime_of (fa_ctime a),
      fi_index_number = fa_ino a, fi_hard_links = fa_nlink a, fi_ea_size = 0\<rparr>"

section \<open>Paths\<close>

abbreviation backslash :: char where
  "backslash \<equiv> CHR 0x5C"

definition winfsp_normalize_path :: "string \<Rightarrow> string" where
  "winfsp_normalize_path path = replace_char backslash slash (trim_start_matches backslash path)"

text \<open>\<open>rfind('/')\<close> and the two slices around it: the part before the last slash and the part after it.\<close>

definition split_last :: "string \<Rightarrow> string \<times> string" where
  "split_last path =
     (let parts = split_on slash path in (join_with [slash] (butlast parts), last parts))"

definition path_parts :: "string \<Rightarrow> string list" where
  "path_parts path = filter (\<lambda>s. s \<noteq> []) (split_on slash path)"

text \<open>The walk from the root along the components of a path.\<close>

fun walk :: "'s operator \<Rightarrow> clock \<Rightarrow> u64 \<Rightarrow> string list \<Rightarrow> 's world \<Rightarrow> u64 fs_result \<times> 's world" where
  "walk op c current [] w = (Inr current, w)"
| "walk op c current (part # parts) w =
     and_then (do_lookup op c current part w) (\<lambda>(inode, _) w1. walk op c inode parts w1)"

definition find_path :: "'s operator \<Rightarrow> clock \<Rightarrow> string \<Rightarrow> 's world \<Rightarrow> u64 fs_result \<times> 's world" where
  "find_path op c path w =
     (if path = [] then (Inr ROOT_INODE, w) else walk op c ROOT_INODE (path_parts path) w)"

text \<open>The inode of a parent path that is already in the table.\<close>

definition known_parent :: "string \<Rightarrow> 's world \<Rightarrow> u64 option" where
  "known_parent path w = (if path = [] then Some ROOT_INODE else get_inode (inode_mgr w) path)"

section \<open>Volume and security\<close>

record volume_info =
  vi_total_size :: u64
  vi_free_size :: u64
  vi_volume_label :: string

definition winfsp_get_volume_info :: volume_info where
  "winfsp_get_volume_info =
     \<lparr>vi_total_size = 1024 * 1024 * 1024 * 1024, vi_free_size = 1024 * 1024 * 1024 * 1024,
      vi_volume_label = ''OBS''\<rparr>"

definition winfsp_set_volume_label :: "'s world \<Rightarrow> unit io_result \<times> 's world" where
  "winfsp_set_volume_label w = (Inr (), w)"

text \<open>Every failure of the walk is reported as a name that was not found.\<close>

definition winfsp_get_security_by_name ::
  "'s operator \<Rightarrow> clock \<Rightarrow> string \<Rightarrow> 's world \<Rightarrow> (u32 \<times> u64) io_result \<times> 's world" where
  "winfsp_get_security_by_name op c name w =
     (case find_path op c (winfsp_normalize_path name) w of
        (Inl e, w1) \<Rightarrow> (Inl (map_err (\<lambda>_. STATUS_OBJECT_NAME_NOT_FOUND) e), w1)
      | (Inr inode, w1) \<Rightarrow>
          io_then (or_status (do_getattr op c inode w1)) (\<lambda>attr w2.
            (Inr (kind_attributes (fa_kind attr), 0), w2)))"

definition winfsp_get_security :: "'s world \<Rightarrow> bytes io_result \<times> 's world" where
  "winfsp_get_security w = (Inr [], w)"

definition winfsp_set_security :: "'s world \<Rightarrow> unit io_result \<times> 's world" where
  "winfsp_set_security w = (Inr (), w)"

section \<open>Opening, creating and closing\<close>

definition access_flags :: "u32 \<Rightarrow> u32" where
  "access_flags granted_access =
     (if granted_access AND 0x80000000 \<noteq> 0 then O_RDONLY
      else if granted_access AND 0x40000000 \<noteq> 0 then O_WRONLY
      else O_RDWR)"

record open_file_info =
  ofi_context :: file_context
  ofi_file_info :: file_info

definition winfsp_open ::
  "'s operator \<Rightarrow> clock \<Rightarrow> string \<Rightarrow> u32 \<Rightarrow> 's world \<Rightarrow> open_file_info io_result \<times> 's world" where
  "winfsp_open op c name granted_access w =
     io_then (or_status (find_path op c (winfsp_normalize_path name) w)) (\<lambda>inode w1.
       io_then (or_status (do_getattr op c inode w1)) (\<lambda>attr w2.
         (let is_dir = (fa_kind attr = Directory);
              flags = access_flags granted_access
          in case (if is_dir then do_opendir c inode flags w2 else do_open c inode flags w2) of
               (fh, w3) \<Rightarrow>
                 (Inr \<lparr>ofi_context = \<lparr>ctx_inode = inode, ctx_fh = fh, ctx_is_dir = is_dir\<rparr>,
                       ofi_file_info = build_file_info attr\<rparr>, w3))))"

definition winfsp_create ::
  "'s operator \<Rightarrow> clock \<Rightarrow> string \<Rightarrow> u32 \<Rightarrow> u32 \<Rightarrow> u32 \<Rightarrow> 's world \<Rightarrow> open_file_info io_result \<times> 's world" where
  "winfsp_create op c name create_options granted_access file_attributes w =
     (let is_dir = (file_attributes AND FILE_ATTRIBUTE_DIRECTORY \<noteq> 0 \<or> create_options AND 1 \<noteq> 0);
          (parent_name, child_name) = split_last (winfsp_normalize_path name)
      in io_then (or_status (find_path op c parent_name w)) (\<lambda>parent w1.
           (let flags = access_flags granted_access;
                made = (if is_dir
                        then and_then (do_mkdir op c parent child_name 493 w1) (\<lambda>(inode, attr) w2.
                               (case do_opendir c inode flags w2 of (fh, w3) \<Rightarrow> (Inr (inode, attr, fh), w3)))
                        else do_create op c parent child_name 420 flags w1)
            in io_then (or_status made) (\<lambda>(inode, attr, fh) w2.
                 (Inr \<lparr>ofi_context = \<lparr>ctx_inode = inode, ctx_fh = fh, ctx_is_dir = is_dir\<rparr>,
                       ofi_file_info = build_file_info attr\<rparr>, w2)))))"

text \<open>An error of the release is dropped.\<close>

definition winfsp_close :: "'s operator \<Rightarrow> file_context \<Rightarrow> 's world \<Rightarrow> unit io_result \<times> 's world" where
  "winfsp_close op ctx w =
     (if ctx_is_dir ctx then (Inr (), do_close (ctx_fh ctx) w)
      else (case or_status (do_release op (ctx_inode ctx) (ctx_fh ctx) w) of
              (Inl (Err _), w1) \<Rightarrow> (Inr (), w1)
            | r \<Rightarrow> r))"

section \<open>Reading and writing\<close>

text \<open>The result of a read is the number of bytes and the caller's buffer after the copy.\<close>

definition winfsp_read ::
  "'s operator \<Rightarrow> clock \<Rightarrow> file_context \<Rightarrow> bytes \<Rightarrow> u64 \<Rightarrow> 's world \<Rightarrow> (u32 \<times> bytes) io_result \<times> 's world" where
  "winfsp_read op c ctx buffer offset w =
     io_then (or_status (do_read op c (ctx_inode ctx) (ctx_fh ctx) offset (of_nat (length buffer)) w)) (\<lambda>data w1.
       (let bytes_read = min (length data) (length buffer)
        in (Inr (of_nat bytes_read, take bytes_read data @ drop bytes_read buffer), w1)))"

definition winfsp_get_file_info ::
  "'s operator \<Rightarrow> clock \<Rightarrow> file_context \<Rightarrow> 's world \<Rightarrow> file_info io_result \<times> 's world" where
  "winfsp_get_file_info op c ctx w =
     io_then (or_status (do_getattr op c (ctx_inode ctx) w)) (\<lambda>attr w1. (Inr (build_file_info attr), w1))"

definition winfsp_write ::
  "'s operator \<Rightarrow> clock \<Rightarrow> file_context \<Rightarrow> bytes \<Rightarrow> u64 \<Rightarrow> 's world \<Rightarrow> (u32 \<times> file_info) io_result \<times> 's world" where
  "winfsp_write op c ctx buffer offset w =
     io_then (or_status (do_write op c (ctx_inode ctx) (ctx_fh ctx) offset buffer w)) (\<lambda>written w1.
       io_then (or_status (do_getattr op c (ctx_inode ctx) w1)) (\<lambda>attr w2.
         (Inr (of_nat written, build_file_info attr), w2)))"

definition winfsp_flush ::
  "'s operator \<Rightarrow> clock \<Rightarrow> file_context \<Rightarrow> 's world \<Rightarrow> file_info io_result \<times> 's world" where
  "winfsp_flush op c ctx w =
     io_then (or_status (do_flush op (ctx_inode ctx) w)) (\<lambda>_ w1. winfsp_get_file_info op c ctx w1)"

definition winfsp_set_file_size ::
  "'s operator \<Rightarrow> clock \<Rightarrow> file_context \<Rightarrow> u64 \<Rightarrow> bool \<Rightarrow> 's world \<Rightarrow> file_info io_result \<times> 's world" where
  "winfsp_set_file_size op c ctx new_size set_allocation_size w =
     io_then (if set_allocation_size then (Inr (), w)
              else or_status (do_truncate op c (ctx_inode ctx) new_size w))
       (\<lambda>_ w1. winfsp_get_file_info op c ctx w1)"

definition winfsp_overwrite ::
  "'s operator \<Rightarrow> clock \<Rightarrow> file_context \<Rightarrow> 's world \<Rightarrow> file_info io_result \<times> 's world" where
  "winfsp_overwrite op c ctx w =
     io_then (or_status (do_truncate op c (ctx_inode ctx) 0 w)) (\<lambda>_ w1. winfsp_get_file_info op c ctx w1)"

section \<open>Times\<close>

text \<open>A FILETIME of zero leaves the field alone; the value is \<open>None\<close> for a panic of the conversion.\<close>

definition set_filetime ::
  "u64 \<Rightarrow> (system_time \<Rightarrow> file_attr \<Rightarrow> file_attr) \<Rightarrow> file_attr \<Rightarrow> file_attr option" where
  "set_filetime ft f a =
     (if ft = 0 then Some a
      else map_option (\<lambda>t. f t a) (system_time_of_timestamp_win (from_filetime ft)))"

definition apply_basic_info :: "u64 \<Rightarrow> u64 \<Rightarrow> u64 \<Rightarrow> u64 \<Rightarrow> file_attr \<Rightarrow> file_attr option" where
  "apply_basic_info creation_time last_access_time last_write_time change_time a =
     Option.bind (set_filetime creation_time (\<lambda>t a. a\<lparr>fa_crtime := t\<rparr>) a) (\<lambda>a1.
     Option.bind (set_filetime last_access_time (\<lambda>t a. a\<lparr>fa_atime := t\<rparr>) a1) (\<lambda>a2.
     Option.bind (set_filetime last_write_time (\<lambda>t a. a\<lparr>fa_mtime := t\<rparr>) a2)
       (set_filetime change_time (\<lambda>t a. a\<lparr>fa_ctime := t\<rparr>))))"

definition winfsp_set_basic_info ::
  "'s operator \<Rightarrow> clock \<Rightarrow> file_context \<Rightarrow> u64 \<Rightarrow> u64 \<Rightarrow> u64 \<Rightarrow> u64 \<Rightarrow> 's world \<Rightarrow> file_info io_result \<times> 's world" where
  "winfsp_set_basic_info op c ctx creation_time last_access_time last_write_time change_time w =
     (case in_meta (get_attr (now_mono c) (ctx_inode ctx)) w of
        (Some attr, w1) \<Rightarrow>
          (case apply_basic_info creation_time last_access_time last_write_time change_time attr of
             None \<Rightarrow> (Inl Panic, w1)
           | Some attr1 \<Rightarrow>
               (Inr (build_file_info attr1),
                w1\<lparr>meta_cache := put_attr (now_mono c) (ctx_inode ctx) attr1 (meta_cache w1)\<rparr>))
      | (None, w1) \<Rightarrow> winfsp_get_file_info op c ctx w1)"

section \<open>Directories, renaming and removal\<close>

definition winfsp_can_delete ::
  "'s operator \<Rightarrow> clock \<Rightarrow> file_context \<Rightarrow> 's world \<Rightarrow> unit io_result \<times> 's world" where
  "winfsp_can_delete op c ctx w =
     (if ctx_is_dir ctx
      then io_then (or_status (do_readdir op c (ctx_inode ctx) 0 w)) (\<lambda>entries w1.
             (let real_entries = filter (\<lambda>e. dent_name e \<noteq> ''.'' \<and> dent_name e \<noteq> ''..'') entries
              in if real_entries \<noteq> [] then (Inl (Err STATUS_DIRECTORY_NOT_EMPTY), w1) else (Inr (), w1)))
      else (Inr (), w))"

definition winfsp_rename ::
  "'s operator \<Rightarrow> clock \<Rightarrow> file_context \<Rightarrow> string \<Rightarrow> 's world \<Rightarrow> unit io_result \<times> 's world" where
  "winfsp_rename op c ctx new_file_name w =
     io_then (or_status (get_path (ctx_inode ctx) w)) (\<lambda>old_path w1.
       (let (old_parent_path, old_name) = split_last old_path;
            (new_parent_path, new_name) = split_last (winfsp_normalize_path new_file_name)
        in case known_parent old_parent_path w1 of
             None \<Rightarrow> (Inl (Err STATUS_OBJECT_NAME_NOT_FOUND), w1)
           | Some old_parent \<Rightarrow>
               (case known_parent new_parent_path w1 of
                  None \<Rightarrow> (Inl (Err STATUS_OBJECT_NAME_NOT_FOUND), w1)
                | Some new_parent \<Rightarrow> or_status (do_rename op c old_parent old_name new_parent new_name w1))))"

text \<open>The callback of \<open>read_directory\<close> is a step \<open>add\<close> of its own state \<open>'b\<close> that also answers whether
  it wants more entries. \<open>past\<close> tells that the marker was passed. \<open>fallback\<close> are the attributes used
  when those of an entry cannot be had.\<close>

fun directory_loop ::
  "'s operator \<Rightarrow> clock \<Rightarrow> file_attr \<Rightarrow> ('b \<Rightarrow> string \<times> file_info \<Rightarrow> 'b \<times> bool) \<Rightarrow> string option \<Rightarrow> bool \<Rightarrow>
     dir_entry list \<Rightarrow> 'b \<Rightarrow> 's world \<Rightarrow> 'b io_result \<times> 's world" where
  "directory_loop op c fallback add marker past [] b w = (Inr b, w)"
| "directory_loop op c fallback add marker past (e # es) b w =
     (if \<not> past then directory_loop op c fallback add marker (marker = Some (dent_name e)) es b w
      else io_then (case or_status (do_getattr op c (dent_inode e) w) of
                      (Inl (Err _), w1) \<Rightarrow> (Inr fallback, w1)
                    | r \<Rightarrow> r)
             (\<lambda>attr w1.
               (case add b (dent_name e, build_file_info attr) of
                  (b1, True) \<Rightarrow> directory_loop op c fallback add marker True es b1 w1
                | (b1, False) \<Rightarrow> (Inr b1, w1))))"

definition winfsp_read_directory ::
  "'s operator \<Rightarrow> clock \<Rightarrow> file_attr \<Rightarrow> ('b \<Rightarrow> string \<times> file_info \<Rightarrow> 'b \<times> bool) \<Rightarrow>
     file_context \<Rightarrow> string option \<Rightarrow> 'b \<Rightarrow> 's world \<Rightarrow> 'b io_result \<times> 's world" where
  "winfsp_read_directory op c fallback add ctx marker b w =
     io_then (or_status (do_readdir op c (ctx_inode ctx) 0 w)) (\<lambda>entries w1.
       directory_loop op c fallback add marker (marker = None) entries b w1)"

text \<open>The removal at cleanup; its errors are only logged.\<close>

definition winfsp_cleanup ::
  "'s operator \<Rightarrow> file_context \<Rightarrow> u32 \<Rightarrow> 's world \<Rightarrow> unit io_result \<times> 's world" where
  "winfsp_cleanup op ctx flags w =
     (if flags AND 1 = 0 then (Inr (), w)
      else (case im_get_path (inode_mgr w) (ctx_inode ctx) of
              None \<Rightarrow> (Inr (), w)
            | Some path \<Rightarrow>
                (case split_last path of
                   (parent_name, name) \<Rightarrow>
                     (case known_parent parent_name w of
                        None \<Rightarrow> (Inr (), w)
                      | Some parent \<Rightarrow>
                          (case or_status (if ctx_is_dir ctx then do_rmdir op parent name w
                                           else do_unlink op parent name w) of
                             (Inl (Err _), w1) \<Rightarrow> (Inr (), w1)
                           | r \<Rightarrow> r)))))"

end
