(* ===== verification/FuseRuns.thy ===== *)
theory FuseRuns
  imports CoreRuns
begin

text \<open>
  The FUSE front end as a transition system: a step is one request with its answer, or the run of a
  spawned prefetch task. Along every sequence of admissible steps from a fresh file system the
  invariant of the world holds and every request is answered.
\<close>

section \<open>Admissible requests\<close>

text \<open>What the kernel and the size of the counters grant: names are path components, the nanoseconds
  of a timestamp are below a second, the counters of inodes and handles are not exhausted, and a
  rename does not land on the path of another known inode.\<close>

definition valid_time :: "timestamp option \<Rightarrow> bool" where
  "valid_time ts = (case ts of None \<Rightarrow> True | Some t \<Rightarrow> ts_nsec t < 1000000000)"

definition handle_room :: "'s world \<Rightarrow> bool" where
  "handle_room w \<longleftrightarrow> unat (next_handle (handle_mgr w)) + 1 < 2 ^ 64"

fun admissible :: "'s operator \<Rightarrow> fuse_request \<Rightarrow> 's world \<Rightarrow> bool" where
  "admissible op (ReqLookup parent name) w = (good_name name \<and> room 1 w)"
| "admissible op (ReqSetattr inode s) w = (valid_time (set_atime s) \<and> valid_time (set_mtime s))"
| "admissible op (ReqOpen inode flags) w = handle_room w"
| "admissible op (ReqOpendir inode flags) w = handle_room w"
| "admissible op (ReqReaddir inode offset) w = room (listing_size op inode w) w"
| "admissible op (ReqCreate parent name mode flags) w = (good_name name \<and> room 1 w \<and> handle_room w)"
| "admissible op (ReqMkdir parent name mode) w = (good_name name \<and> room 1 w)"
| "admissible op (ReqUnlink parent name) w = good_name name"
| "admissible op (ReqRmdir parent name) w = good_name name"
| "admissible op (ReqRename parent name new_parent new_name) w =
     (good_name name \<and> good_name new_name \<and> rename_free parent name new_parent new_name w)"
| "admissible op _ w = True"

section \<open>The handlers\<close>

lemma valid_time_converts:
  assumes "ts_nsec t < 1000000000" shows "timestamp_to_systemtime t \<noteq> None"
proof -
  have n: "unat (ts_nsec t) < 1000000000" using assms by (simp add: word_less_nat_alt)
  have "unat (ts_sec t) * 1000000000 + unat (ts_nsec t) < 2 ^ 64 * 1000000000"
    using n unat_u64_bound [of "ts_sec t"] by simp
  moreover have "unat (ts_sec t) * 1000000000 + unat (ts_nsec t) < 2 ^ 63 * 1000000000" if "0 \<le> sint (ts_sec t)"
  proof -
    have "sint (ts_sec t) < 2 ^ 63" using sint_lt [of "ts_sec t"] by simp
    then have "uint (ts_sec t) < 9223372036854775808"
      using that uint_sint [of "ts_sec t"] by (simp add: take_bit_int_eq_self)
    then have "unat (ts_sec t) < 9223372036854775808"
      by (metis of_nat_less_iff of_nat_numeral uint_nat)
    with n show ?thesis by (simp; linarith)
  qed
  ultimately show ?thesis by (simp add: timestamp_to_systemtime_def duration_new_def epoch_plus_def)
qed

lemma set_attr_basic_ino [simp]: "fa_ino (set_attr_basic s a) = fa_ino a"
  by (cases "set_mode s"; cases "set_uid s"; cases "set_gid s"; cases "set_size s") (simp_all add: set_attr_basic_def)

lemma set_attr_cached_valid:
  assumes "valid_time (set_atime s)" "valid_time (set_mtime s)"
  shows "\<exists>a'. set_attr_cached s a = Some a' \<and> fa_ino a' = fa_ino a"
proof -
  have t: "\<exists>a'. set_attr_time ts f a = Some a' \<and> fa_ino a' = fa_ino a"
    if "valid_time ts" "\<And>t a. fa_ino (f t a) = fa_ino a" for ts f a
  proof (cases ts)
    case (Some t)
    with that(1) obtain st where "timestamp_to_systemtime t = Some st"
      using valid_time_converts [of t] by (auto simp: valid_time_def)
    with Some that(2) show ?thesis by (simp add: set_attr_time_def)
  qed (simp add: set_attr_time_def)
  obtain a1 where a1: "set_attr_time (set_atime s) (\<lambda>t a. a\<lparr>fa_atime := t\<rparr>) (set_attr_basic s a) = Some a1"
      "fa_ino a1 = fa_ino a"
    using t [OF assms(1), of "\<lambda>t a. a\<lparr>fa_atime := t\<rparr>" "set_attr_basic s a"] by auto
  obtain a2 where "set_attr_time (set_mtime s) (\<lambda>t a. a\<lparr>fa_mtime := t\<rparr>) a1 = Some a2" "fa_ino a2 = fa_ino a1"
    using t [OF assms(2), of "\<lambda>t a. a\<lparr>fa_mtime := t\<rparr>" a1] by auto
  with a1 show ?thesis by (simp add: set_attr_cached_def)
qed

lemma keeps_store_attr:
  "world_ok w \<Longrightarrow> fa_ino a = i \<Longrightarrow> keeps w (store_attr c i a w)"
  using mc_ok_put [OF world_okD(1), of w a i "now_mono c"]
  by (simp add: store_attr_def keeps_def world_ok_def)

lemma keeps_setattr_update:
  assumes "world_ok w" "valid_time (set_atime s)" "valid_time (set_mtime s)"
  shows "keeps w (setattr_update c i s w)"
proof -
  obtain r w1 where g: "in_meta (get_attr (now_mono c) i) w = (r, w1)" by (rule prod.exhaust)
  note k = in_meta_get_attr [OF g assms(1)]
  show ?thesis
  proof (cases r)
    case (Some a)
    obtain a1 where a1: "set_attr_cached s a = Some a1" "fa_ino a1 = i"
      using set_attr_cached_valid [OF assms(2,3), of a] k Some by auto
    with k have "keeps w (store_attr c i a1 w1)" using keeps_from [OF keeps_store_attr] by blast
    with g Some a1 show ?thesis by (simp add: setattr_update_def)
  next
    case None
    show ?thesis
    proof (cases "get_entry (inode_mgr w1) i")
      case n: None
      with g None k show ?thesis by (simp add: setattr_update_def keeps_def)
    next
      case (Some e)
      have "im_wf (inode_mgr w1)" using k world_okD(2) [of w1] by (simp add: im_ok_def)
      then have "fa_ino (set_attr_basic s (ie_attr e)) = i" using im_wf_entry Some by fastforce
      with k have "keeps w (store_attr c i (set_attr_basic s (ie_attr e)) w1)"
        using keeps_from [OF keeps_store_attr] by blast
      with g None Some show ?thesis by (simp add: setattr_update_def)
    qed
  qed
qed

lemma keeps_setattr:
  assumes "world_ok w" "valid_time (set_atime s)" "valid_time (set_mtime s)"
  shows "keeps w (fuse_setattr op c i s w)"
proof (cases "set_size s")
  case None
  with keeps_setattr_update [OF assms] show ?thesis by (simp add: fuse_setattr_def)
next
  case (Some sz)
  have "keeps w (and_then (map_fs_err (do_truncate op c i sz w)) (\<lambda>_ w1. setattr_update c i s w1))"
    by (rule keeps_and_then [OF keeps_map_fs_err [OF keeps_truncate [OF assms(1)]]])
      (rule keeps_setattr_update [OF _ assms(2,3)])
  with Some show ?thesis by (simp add: fuse_setattr_def)
qed

lemma keeps_then_reply:
  assumes "keeps w r" "\<And>a w1. \<exists>b. k a w1 = (Inr b, w1)"
  shows "keeps w (and_then (map_fs_err r) k)"
proof (intro keeps_and_then keeps_map_fs_err assms(1))
  fix a and w1 :: "'a world" assume "world_ok w1"
  with assms(2) [of a w1] show "keeps w1 (k a w1)" by (auto simp: keeps_def)
qed

lemma keeps_fuse_open:
  assumes "world_ok w" "handle_room w"
  shows "keeps w (fuse_open op c i flags w)"
proof -
  obtain fh w1 where o: "do_open c i flags w = (fh, w1)" by (rule prod.exhaust)
  have w1: "world_ok w1" "settings w1 = settings w"
    using keeps_open(1) [of w c i flags] assms o by (simp_all add: handle_room_def)
  let ?t = "if flags AND O_TRUNC \<noteq> 0 then map_fs_err (do_truncate op c i 0 w1) else (Inr (), w1)"
  have "keeps w1 ?t"
    using keeps_map_fs_err [OF keeps_truncate [OF w1(1)], of op c i 0] keeps_return [OF w1(1) refl, of "Inr ()"] by simp
  then have "keeps w1 (and_then ?t (\<lambda>_ w2. (Inr \<lparr>ro_fh = fh, ro_flags = 0\<rparr>, w2)))"
    by (rule keeps_and_then) (simp add: keeps_def)
  from keeps_from [OF this w1(2)] o show ?thesis by (simp add: fuse_open_def)
qed


text \<open>What a listing returns does not depend on the counters.\<close>

lemma stat_entries_metrics:
  "fst (stat_entries op ps rs (mt, s)) = fst (stat_entries op ps rs (mt', s))"
proof (induction ps arbitrary: rs mt mt' s)
  case (Cons p ps)
  show ?case by (cases "op_stat op p s"; cases "fst (op_stat op p s)") (auto intro: Cons.IH)
qed simp

lemma oc_list_dir_metrics: "fst (oc_list_dir op p (mt, s)) = fst (oc_list_dir op p (mt', s))"
  by (cases "op_list op (dir_prefix p) s"; cases "fst (op_list op (dir_prefix p) s)")
    (auto simp: oc_list_dir_def intro: stat_entries_metrics)

lemma in_net_fst: "fst (in_net f w) = fst (f (w_metrics w, w_store w))"
  by (simp add: in_net_def split: prod.splits)

lemma listing_size_metrics [simp]: "listing_size op i (w\<lparr>w_metrics := mt\<rparr>) = listing_size op i w"
  using oc_list_dir_metrics [of op _ mt "w_store w" "w_metrics w"]
  by (simp add: listing_size_def in_net_fst Let_def split: option.split)

lemma keeps_fuse_destroy: "world_ok w \<Longrightarrow> keeps w (fuse_destroy op w)"
  using keeps_flushes(3) [of w op]
  by (cases "core_flush_all op w"; cases "fst (core_flush_all op w)")
    (auto simp: fuse_destroy_def keeps_def answers_def split: abort.split)

lemma keeps_fuse_init: "world_ok w \<Longrightarrow> keeps w (fuse_init w, w)"
  by (simp add: fuse_init_def keeps_def serves_def Let_def)

lemma keeps_fuse_handlers:
  assumes "world_ok w"
  shows "room 1 w \<Longrightarrow> keeps w (fuse_lookup op c p n w)" "keeps w (fuse_getattr op c i w)"
    "keeps w (fuse_write op c i fh off d w)" "room (listing_size op i w) w \<Longrightarrow> keeps w (fuse_readdir op c i o0 w)"
    "room 1 w \<Longrightarrow> handle_room w \<Longrightarrow> keeps w (fuse_create op c p n mode flags w)"
    "room 1 w \<Longrightarrow> keeps w (fuse_mkdir op c p n mode w)"
proof -
  let ?m = "\<lambda>m. w\<lparr>w_metrics := m\<rparr>"
  have m: "world_ok (?m m)" "settings (?m m) = settings w" "room k (?m m) = room k w" for m k
    using assms by (simp_all add: room_def)
  show "room 1 w \<Longrightarrow> keeps w (fuse_lookup op c p n w)"
    unfolding fuse_lookup_def
    by (rule keeps_from [OF keeps_then_reply [OF keeps_lookup] m(2)]) (auto simp: m assms)
  show "room (listing_size op i w) w \<Longrightarrow> keeps w (fuse_readdir op c i o0 w)"
    unfolding fuse_readdir_def
    by (rule keeps_from [OF keeps_then_reply [OF keeps_readdir] m(2)]) (auto simp: m assms)
  show "keeps w (fuse_getattr op c i w)" "keeps w (fuse_write op c i fh off d w)"
    unfolding fuse_getattr_def fuse_write_def
    by (intro keeps_then_reply keeps_getattr keeps_write assms; blast)+
  show "room 1 w \<Longrightarrow> handle_room w \<Longrightarrow> keeps w (fuse_create op c p n mode flags w)"
    unfolding fuse_create_def handle_room_def
    by (rule keeps_then_reply [OF keeps_create]) (auto simp: assms)
  show "room 1 w \<Longrightarrow> keeps w (fuse_mkdir op c p n mode w)"
    unfolding fuse_mkdir_def
    by (rule keeps_then_reply [OF keeps_mkdir]) (auto simp: assms)
qed

lemmas keeps_core = keeps_read keeps_release keeps_flushes keeps_access keeps_unlink keeps_rmdir keeps_rename

lemma fuse_handle_keeps:
  assumes "world_ok w" "admissible op req w"
  shows "keeps w (fuse_handle op c req w)"
proof (cases req)
  case (ReqOpendir i flags)
  obtain fh w1 where o: "do_opendir c i flags w = (fh, w1)" by (rule prod.exhaust)
  with keeps_open(2) [of w c i flags] assms ReqOpendir show ?thesis
    by (simp add: fuse_opendir_def handle_room_def with_reply_def keeps_def)
next
  case (ReqReleasedir fh)
  with keeps_close [OF assms(1)] show ?thesis by (simp add: fuse_releasedir_def with_reply_def keeps_def)
next
  case ReqStatfs
  with assms show ?thesis by (simp add: keeps_def)
qed (use assms in \<open>simp add: keeps_with_reply keeps_map_fs_err keeps_fuse_init keeps_fuse_destroy
    keeps_fuse_handlers keeps_setattr keeps_fuse_open fuse_read_def fuse_release_def fuse_fsync_def
    fuse_flush_def fuse_access_def fuse_unlink_def fuse_rmdir_def fuse_rename_def keeps_core\<close>)+

section \<open>Executions\<close>

inductive fuse_step :: "'s operator \<Rightarrow> 's world \<Rightarrow> 's world \<Rightarrow> bool" for op where
  request: "admissible op req w \<Longrightarrow> fuse_handle op c req w = (r, w') \<Longrightarrow> fuse_step op w w'"
| prefetch: "fuse_step op w (run_prefetch op c n w)"

inductive fuse_reachable :: "'s operator \<Rightarrow> 's world \<Rightarrow> 's world \<Rightarrow> bool" for op w0 where
  start: "fuse_reachable op w0 w0"
| more: "fuse_reachable op w0 w \<Longrightarrow> fuse_step op w w' \<Longrightarrow> fuse_reachable op w0 w'"

inductive_cases fuse_stepE: "fuse_step op w w'"

lemma fuse_step_ok: "fuse_step op w w' \<Longrightarrow> world_ok w \<Longrightarrow> world_ok w' \<and> settings w' = settings w"
proof (erule fuse_stepE, goal_cases)
  case (1 req c r)
  with fuse_handle_keeps [of w op req c] show ?case by (simp add: keeps_def)
next
  case (2 c n)
  with keeps_prefetch [of w op c n] show ?case by simp
qed

lemma fuse_reachable_ok:
  "fuse_reachable op w0 w \<Longrightarrow> world_ok w0 \<Longrightarrow> world_ok w \<and> settings w = settings w0"
  by (induction rule: fuse_reachable.induct) (use fuse_step_ok in \<open>fastforce\<close>)+

lemma core_new_ok: "world_ok (core_new c d cfg mt s)"
proof -
  have "im_ok (im_new c (cfg_permission cfg))"
    using im_wf_new [of c "cfg_permission cfg"]
    by (simp add: im_ok_def) (simp add: im_new_def im_init_root_def Let_def im_get_path_def)
  moreover have "hm_ok hm_new" using hm_reachable_inv [OF hm_init] by (simp add: hm_ok_def)
  ultimately show ?thesis
    by (simp add: core_new_def world_ok_def mc_ok_new wb_ok_def wb_new_def)
qed

end
