(* ===== verification/WinFspRuns.thy ===== *)
theory WinFspRuns
  imports WinFsp FuseRuns
begin

text \<open>
  The WinFSP front end as a transition system, as in the FUSE case: every handler keeps the invariant
  of the world and the settings and is answered with a value or a status (\<open>win_keeps\<close>), and so does
  every sequence of admissible calls.
\<close>

section \<open>Runs of a handler\<close>

definition win_answers :: "'a io_result \<Rightarrow> bool" where
  "win_answers r \<longleftrightarrow> (case r of Inr _ \<Rightarrow> True
     | Inl e \<Rightarrow> e = Err STATUS_OBJECT_NAME_NOT_FOUND \<or> e = Err STATUS_DIRECTORY_NOT_EMPTY \<or> e = Err STATUS_UNSUCCESSFUL)"

lemma win_answers_simps [simp]:
  "win_answers (Inr a)" "win_answers (Inl (Err STATUS_OBJECT_NAME_NOT_FOUND))"
  "win_answers (Inl (Err STATUS_DIRECTORY_NOT_EMPTY))" "win_answers (Inl (Err STATUS_UNSUCCESSFUL))"
  "\<not> win_answers (Inl Panic)" "\<not> win_answers (Inl Hang)"
  by (simp_all add: win_answers_def)

definition win_keeps :: "'s world \<Rightarrow> 'a io_result \<times> 's world \<Rightarrow> bool" where
  "win_keeps w r \<longleftrightarrow> world_ok (snd r) \<and> settings (snd r) = settings w \<and> (serves w \<longrightarrow> win_answers (fst r))"

lemma io_then_simps [simp]: "io_then (Inl e, w) k = (Inl e, w)" "io_then (Inr a, w) k = k a w"
  by (simp_all add: io_then_def)

lemma or_status_simps [simp]:
  "or_status (Inl e, w) = (Inl (map_err fs_err_to_status e), w)" "or_status (Inr a, w) = (Inr a, w)"
  by (simp_all add: or_status_def)

lemma status_simps [simp]:
  "fs_err_to_status ENOENT = STATUS_OBJECT_NAME_NOT_FOUND" "fs_err_to_status ENOTEMPTY = STATUS_DIRECTORY_NOT_EMPTY"
  "fs_err_to_status EIO = STATUS_UNSUCCESSFUL"
  by (simp_all add: fs_err_to_status_def errno_defs)

lemma or_status_Inr: "or_status r = (Inr a, w) \<longleftrightarrow> r = (Inr a, w)"
  by (cases r; cases "fst r") auto

lemma win_keeps_return: "world_ok w' \<Longrightarrow> settings w' = settings w \<Longrightarrow> win_answers x \<Longrightarrow> win_keeps w (x, w')"
  by (simp add: win_keeps_def)

lemma win_keeps_from: "win_keeps w1 r \<Longrightarrow> settings w1 = settings w \<Longrightarrow> win_keeps w r"
  using serves_settings [of w1 w] by (simp add: win_keeps_def)

lemma win_keeps_or_status: "keeps w r \<Longrightarrow> win_keeps w (or_status r)"
  by (cases r; cases "fst r") (auto simp: keeps_def win_keeps_def answers_def)

lemma win_keeps_io_then:
  assumes "win_keeps w r"
    and "\<And>a w1. r = (Inr a, w1) \<Longrightarrow> world_ok w1 \<Longrightarrow> settings w1 = settings w \<Longrightarrow> win_keeps w1 (k a w1)"
  shows "win_keeps w (io_then r k)"
proof -
  obtain x w1 where r: "r = (x, w1)" by (rule prod.exhaust)
  show ?thesis
  proof (cases x)
    case (Inl e)
    with assms(1) r show ?thesis by (auto simp: win_keeps_def win_answers_def)
  next
    case (Inr a)
    have "world_ok w1" "settings w1 = settings w" using assms(1) r by (simp_all add: win_keeps_def)
    with assms(2) [of a w1] r Inr have "win_keeps w (k a w1)" using win_keeps_from by blast
    with r Inr show ?thesis by simp
  qed
qed

lemma win_keeps_core:
  assumes "keeps w r"
    and "\<And>a w1. r = (Inr a, w1) \<Longrightarrow> world_ok w1 \<Longrightarrow> settings w1 = settings w \<Longrightarrow> win_keeps w1 (k a w1)"
  shows "win_keeps w (io_then (or_status r) k)"
  using assms by (intro win_keeps_io_then win_keeps_or_status) (auto simp: or_status_Inr)

lemma win_keeps_ignored:
  assumes "win_keeps w r"
  shows "win_keeps w (case r of (Inl (Err e), w1) \<Rightarrow> (Inr a, w1) | r1 \<Rightarrow> r1)"
  using assms by (cases r; cases "fst r") (auto simp: win_keeps_def win_answers_def split: abort.split)

section \<open>The walk along a path\<close>

lemma remember_room:
  assumes "remember c path d sz f w = (x, w1)" "room (Suc k) w"
  shows "room k w1 \<and> handle_mgr w1 = handle_mgr w"
proof -
  obtain i im where g: "get_or_create_inode c path d sz (inode_mgr w) = (i, im)" by (rule prod.exhaust)
  have "unat (next_inode im) \<le> unat (next_inode (inode_mgr w)) + 1"
    using get_or_create_next [of "inode_mgr w" c path d sz] assms(2) g by (simp add: room_def)
  with assms g show ?thesis by (auto simp: remember_def room_def)
qed

lemma lookup_remote_room:
  assumes "lookup_remote op c path w = (r, w')" "room (Suc k) w"
  shows "room k w' \<and> handle_mgr w' = handle_mgr w"
proof -
  let ?p = "obs_path (w_config w) path"
  obtain r1 w1 where n1: "in_net (oc_stat op ?p) w = (r1, w1)" by (rule prod.exhaust)
  obtain r2 w2 where n2: "in_net (oc_stat op (as_dir ?p)) w1 = (r2, w2)" by (rule prod.exhaust)
  obtain r3 w3 where n3: "in_net (oc_list op (as_dir ?p)) w2 = (r3, w3)" by (rule prod.exhaust)
  have e: "inode_mgr w1 = inode_mgr w" "inode_mgr w2 = inode_mgr w" "inode_mgr w3 = inode_mgr w"
      "handle_mgr w1 = handle_mgr w" "handle_mgr w2 = handle_mgr w" "handle_mgr w3 = handle_mgr w"
    using n1 n2 n3 by (auto simp: in_net_Inr)
  have rem: "room k w5 \<and> handle_mgr w5 = handle_mgr w"
    if "remember c path d sz f w4 = (x, w5)" "inode_mgr w4 = inode_mgr w" "handle_mgr w4 = handle_mgr w" for d sz f w4 x w5
    using remember_room [OF that(1), of k] that(2,3) assms(2) by (simp add: room_def)
  have small: "room k w" using assms(2) by (simp add: room_def)
  show ?thesis
  proof (cases r1)
    case (Inr m)
    with assms(1) n1 show ?thesis
      by (auto simp: lookup_remote_def Let_def split: prod.splits dest!: rem [OF _ e(1) e(4)])
  next
    case f1: (Inl e1)
    show ?thesis
    proof (cases r2)
      case (Inr m)
      with f1 assms(1) n1 n2 show ?thesis
        by (auto simp: lookup_remote_def Let_def split: prod.splits dest!: rem [OF _ e(2) e(5)])
    next
      case (Inl e2)
      with f1 assms(1) n1 n2 n3 e(3,6) small show ?thesis
        by (cases r3)
          (auto simp: lookup_remote_def Let_def room_def split: prod.splits list.splits dest!: rem [OF _ e(3) e(6)])
    qed
  qed
qed

lemma in_meta_frame: "in_meta f w = (r, w1) \<Longrightarrow> inode_mgr w1 = inode_mgr w \<and> handle_mgr w1 = handle_mgr w"
  by (auto simp: in_meta_def split: prod.splits)

lemma do_lookup_room:
  assumes "do_lookup op c parent name w = (r, w')" "room (Suc k) w"
  shows "room k w' \<and> handle_mgr w' = handle_mgr w"
proof (cases "im_get_path (inode_mgr w) parent")
  case None
  with assms show ?thesis by (auto simp: do_lookup_def get_path_def room_def)
next
  case (Some p)
  obtain b mc where n: "is_negative (now_mono c) (join_path p name) (meta_cache w) = (b, mc)" by (rule prod.exhaust)
  obtain x w1 where l: "lookup_cached c (join_path p name) (w\<lparr>meta_cache := mc\<rparr>) = (x, w1)" by (rule prod.exhaust)
  have f: "inode_mgr w1 = inode_mgr w \<and> handle_mgr w1 = handle_mgr w"
    using l by (auto simp: lookup_cached_def dest: in_meta_frame split: option.splits prod.splits)
  then have "room (Suc k) w1" using assms(2) by (simp add: room_def)
  from lookup_remote_room [OF _ this] assms Some n l f show ?thesis
    by (cases b; cases x) (auto simp: do_lookup_def get_path_def room_def Let_def)
qed

lemma keeps_walk:
  assumes "world_ok w" "room (length parts) w"
  shows "keeps w (walk op c i parts w)"
  using assms
proof (induction parts arbitrary: i w)
  case Nil
  then show ?case by (simp add: keeps_def)
next
  case (Cons part parts)
  have "room 1 w" using Cons.prems(2) by (simp add: room_def)
  show ?case
    unfolding walk.simps
  proof (rule keeps_and_then [OF keeps_lookup [OF Cons.prems(1) \<open>room 1 w\<close>]], goal_cases)
    case (1 x w1)
    with Cons.IH [of w1 "fst x"] do_lookup_room [OF 1(1), of "length parts"] Cons.prems(2) show ?case
      by (cases x) simp
  qed
qed

lemma walk_room:
  "walk op c i parts w = (r, w') \<Longrightarrow> room (length parts + k) w \<Longrightarrow> room k w' \<and> handle_mgr w' = handle_mgr w"
proof (induction parts arbitrary: i w)
  case (Cons part parts)
  obtain x w1 where l: "do_lookup op c i part w = (x, w1)" by (rule prod.exhaust)
  have "room (length parts + k) w1" "handle_mgr w1 = handle_mgr w"
    using do_lookup_room [OF l, of "length parts + k"] Cons.prems(2) by simp_all
  with Cons l show ?case by (cases x) (auto simp: room_def)
qed simp

definition depth :: "string \<Rightarrow> nat" where
  "depth path = (if path = [] then 0 else length (path_parts path))"

lemma keeps_find_path:
  "world_ok w \<Longrightarrow> room (depth path) w \<Longrightarrow> keeps w (find_path op c path w)"
  by (auto simp: find_path_def depth_def intro: keeps_walk keeps_return)

lemma find_path_room:
  "find_path op c path w = (r, w') \<Longrightarrow> room (depth path + k) w \<Longrightarrow> room k w' \<and> handle_mgr w' = handle_mgr w"
  by (auto simp: find_path_def depth_def split: if_splits dest: walk_room)

section \<open>The handlers\<close>

lemma do_getattr_frame:
  assumes "do_getattr op c i w = (r, w')"
  shows "inode_mgr w' = inode_mgr w \<and> handle_mgr w' = handle_mgr w"
proof -
  obtain x w1 where m: "in_meta (get_attr (now_mono c) i) (w\<lparr>w_metrics := inc_getattr_ops (w_metrics w)\<rparr>) = (x, w1)"
    by (rule prod.exhaust)
  have f: "inode_mgr w1 = inode_mgr w" "handle_mgr w1 = handle_mgr w" using in_meta_frame [OF m] by simp_all
  show ?thesis
  proof (cases x)
    case (Some a)
    with assms m f show ?thesis by (simp add: do_getattr_def)
  next
    case None
    show ?thesis
    proof (cases "im_get_path (inode_mgr w1) i")
      case n: None
      with None assms m f show ?thesis by (auto simp: do_getattr_def get_path_def)
    next
      case (Some p)
      obtain y w2 where s: "in_net (oc_stat op (obs_path (w_config w1) p)) w1 = (y, w2)" by (rule prod.exhaust)
      then have "inode_mgr w2 = inode_mgr w1" "handle_mgr w2 = handle_mgr w1" by (auto simp: in_net_Inr)
      with None Some assms m f s show ?thesis by (cases y) (auto simp: do_getattr_def get_path_def Let_def)
    qed
  qed
qed

lemma do_mkdir_handles:
  assumes "do_mkdir op c parent name mode w = (r, w')" shows "handle_mgr w' = handle_mgr w"
proof (cases "im_get_path (inode_mgr w) parent")
  case None
  with assms show ?thesis by (auto simp: do_mkdir_def child_paths_def get_path_def)
next
  case (Some p)
  let ?path = "obs_path (w_config w) (join_path p name)"
  have cp: "child_paths parent name w = (Inr (join_path p name, ?path), w)" using Some by (simp add: child_paths_Inr)
  obtain x w1 where n: "in_net (oc_create_dir op ?path) w = (x, w1)" by (rule prod.exhaust)
  have h: "handle_mgr w1 = handle_mgr w" using n by (auto simp: in_net_Inr)
  show ?thesis
  proof (cases x)
    case (Inl e)
    with assms cp n h show ?thesis by (auto simp: do_mkdir_def)
  next
    case (Inr u)
    have "handle_mgr w3 = handle_mgr w1" if "remember c path d sz f w1 = (y, w3)" for path d sz f y w3
      using that by (auto simp: remember_def split: prod.splits)
    with assms cp n h Inr show ?thesis by (auto simp: do_mkdir_def split: prod.splits)
  qed
qed

lemma split_last_good:
  assumes "normalized p" "p \<noteq> []" shows "good_name (snd (split_last p))"
proof -
  have l: "last (split_on slash p) \<in> set (split_on slash p)" by simp
  have "last (split_on slash p) \<noteq> []"
  proof
    assume e: "last (split_on slash p) = []"
    have s: "split_on slash p = butlast (split_on slash p) @ [last (split_on slash p)]" by simp
    show False
    proof (cases "butlast (split_on slash p) = []")
      case True
      with s e have "split_on slash p = [[]]" by simp
      then have "p = []" using join_split [of slash p] by simp
      with assms(2) show False ..
    next
      case False
      have "p = join_with [slash] (butlast (split_on slash p) @ [[]])" using join_split [of slash p] s e by simp
      then have "p = join_with [slash] (butlast (split_on slash p)) @ [slash] @ []" using join_with_snoc [OF False] by metis
      then have "ends_with slash p" by (metis append_Nil2 ends_with_def last_snoc snoc_eq_iff_butlast)
      with assms(1) show False by (simp add: normalized_iff)
    qed
  qed
  with split_on_pieces [OF l] show ?thesis by (simp add: split_last_def good_name_def Let_def)
qed

lemma win_keeps_info: "world_ok w \<Longrightarrow> win_keeps w (winfsp_get_file_info op c ctx w)"
  unfolding winfsp_get_file_info_def by (intro win_keeps_core keeps_getattr) (auto intro: win_keeps_return)

lemma win_keeps_open:
  assumes "world_ok w" "room (depth (winfsp_normalize_path name)) w" "handle_room w"
  shows "win_keeps w (winfsp_open op c name access w)"
  unfolding winfsp_open_def
proof (rule win_keeps_core [OF keeps_find_path [OF assms(1,2)]], goal_cases)
  case (1 i w1)
  have h1: "handle_mgr w1 = handle_mgr w" using find_path_room [OF 1(1), of 0] assms(2) by simp
  show ?case
  proof (rule win_keeps_core [OF keeps_getattr [OF 1(2)]], goal_cases)
    case (1 a w2)
    have "unat (next_handle (handle_mgr w2)) + 1 < 2 ^ 64"
      using do_getattr_frame [OF 1(1)] h1 assms(3) by (simp add: handle_room_def)
    then have o: "world_ok (snd (if d then do_opendir c i fl w2 else do_open c i fl w2)) \<and>
        settings (snd (if d then do_opendir c i fl w2 else do_open c i fl w2)) = settings w2" for d fl
      using keeps_open [OF 1(2)] by simp
    obtain fh w3 where "(if fa_kind a = Directory then do_opendir c i (access_flags access) w2
        else do_open c i (access_flags access) w2) = (fh, w3)" by (rule prod.exhaust)
    with o [of "fa_kind a = Directory" "access_flags access"] show ?case by (simp add: Let_def win_keeps_def)
  qed
qed

lemma win_keeps_create:
  assumes "world_ok w" "split_last (winfsp_normalize_path name) = (pn, cn)"
    and "room (depth pn + 1) w" "handle_room w" "good_name cn"
  shows "win_keeps w (winfsp_create op c name options access attrs w)"
proof -
  have d: "room (depth pn) w" using assms(3) by (simp add: room_def)
  have "win_keeps w (io_then (or_status (find_path op c pn w)) (\<lambda>parent w1.
      io_then (or_status (if dir
          then and_then (do_mkdir op c parent cn 493 w1) (\<lambda>(inode, attr) w2.
                 (case do_opendir c inode flags w2 of (fh, w3) \<Rightarrow> (Inr (inode, attr, fh), w3)))
          else do_create op c parent cn 420 flags w1)) (\<lambda>(inode, attr, fh) w2.
        (Inr \<lparr>ofi_context = \<lparr>ctx_inode = inode, ctx_fh = fh, ctx_is_dir = dir\<rparr>,
              ofi_file_info = build_file_info attr\<rparr>, w2))))" for dir flags
  proof (rule win_keeps_core [OF keeps_find_path [OF assms(1) d]], goal_cases)
    case (1 parent w1)
    have r: "room 1 w1" "handle_mgr w1 = handle_mgr w" using find_path_room [OF 1(1) assms(3)] by simp_all
    then have h: "unat (next_handle (handle_mgr w1)) + 1 < 2 ^ 64" using assms(4) by (simp add: handle_room_def)
    have dir: "keeps w1 (and_then (do_mkdir op c parent cn 493 w1) (\<lambda>(inode, attr) w2.
                 (case do_opendir c inode flags w2 of (fh, w3) \<Rightarrow> (Inr (inode, attr, fh), w3))))"
    proof (rule keeps_and_then [OF keeps_mkdir [OF 1(2) r(1)]], goal_cases)
      case (1 x w2)
      obtain inode attr where x: "x = (inode, attr)" by (rule prod.exhaust)
      obtain fh w3 where o: "do_opendir c inode flags w2 = (fh, w3)" by (rule prod.exhaust)
      have "unat (next_handle (handle_mgr w2)) + 1 < 2 ^ 64" using do_mkdir_handles [OF 1(1)] h by simp
      from keeps_open(2) [OF 1(2) this, of c inode flags] o x show ?case by (simp add: keeps_def)
    qed
    have "keeps w1 (if dir
          then and_then (do_mkdir op c parent cn 493 w1) (\<lambda>(inode, attr) w2.
                 (case do_opendir c inode flags w2 of (fh, w3) \<Rightarrow> (Inr (inode, attr, fh), w3)))
          else do_create op c parent cn 420 flags w1)"
      using dir keeps_create [OF 1(2) r(1) h] by simp
    then show ?case by (rule win_keeps_core) (auto intro: win_keeps_return split: prod.split)
  qed
  with assms(2) show ?thesis by (simp add: winfsp_create_def Let_def)
qed

lemma win_keeps_security_by_name:
  assumes "world_ok w" "room (depth (winfsp_normalize_path name)) w"
  shows "win_keeps w (winfsp_get_security_by_name op c name w)"
proof -
  obtain r w1 where f: "find_path op c (winfsp_normalize_path name) w = (r, w1)" by (rule prod.exhaust)
  have k: "world_ok w1" "settings w1 = settings w" "serves w \<longrightarrow> answers r"
    using keeps_find_path [OF assms, of op c] f by (simp_all add: keeps_def)
  show ?thesis
  proof (cases r)
    case (Inl e)
    with k f show ?thesis by (auto simp: winfsp_get_security_by_name_def win_keeps_def answers_def)
  next
    case (Inr i)
    have "win_keeps w1 (io_then (or_status (do_getattr op c i w1)) (\<lambda>attr w2.
        (Inr (kind_attributes (fa_kind attr), 0 :: u64), w2)))"
      by (rule win_keeps_core [OF keeps_getattr [OF k(1)]]) (simp add: win_keeps_def)
    with Inr f k(2) show ?thesis by (simp add: winfsp_get_security_by_name_def win_keeps_from)
  qed
qed

lemma win_keeps_close:
  assumes "world_ok w" shows "win_keeps w (winfsp_close op ctx w)"
proof (cases "ctx_is_dir ctx")
  case True
  with keeps_close [OF assms] show ?thesis by (simp add: winfsp_close_def win_keeps_def)
next
  case False
  with win_keeps_ignored [OF win_keeps_or_status [OF keeps_release [OF assms]], where a = "()"]
  show ?thesis by (simp add: winfsp_close_def)
qed

lemma win_keeps_data:
  assumes "world_ok w"
  shows "win_keeps w (winfsp_read op c ctx buffer offset w)" "win_keeps w (winfsp_write op c ctx buffer offset w)"
    "win_keeps w (winfsp_flush op c ctx w)" "win_keeps w (winfsp_overwrite op c ctx w)"
    "win_keeps w (winfsp_set_file_size op c ctx n b w)"
proof -
  show "win_keeps w (winfsp_read op c ctx buffer offset w)"
    unfolding winfsp_read_def by (rule win_keeps_core [OF keeps_read [OF assms]]) (simp add: win_keeps_def Let_def)
  show "win_keeps w (winfsp_write op c ctx buffer offset w)"
    unfolding winfsp_write_def
  proof (rule win_keeps_core [OF keeps_write [OF assms]], goal_cases)
    case (1 n w1)
    show ?case by (rule win_keeps_core [OF keeps_getattr [OF 1(2)]]) (simp add: win_keeps_def)
  qed
  show "win_keeps w (winfsp_flush op c ctx w)"
    unfolding winfsp_flush_def by (rule win_keeps_core [OF keeps_flushes(2) [OF assms]]) (rule win_keeps_info)
  show "win_keeps w (winfsp_overwrite op c ctx w)"
    unfolding winfsp_overwrite_def by (rule win_keeps_core [OF keeps_truncate [OF assms]]) (rule win_keeps_info)
  have "win_keeps w (if b then (Inr (), w) else or_status (do_truncate op c (ctx_inode ctx) n w))"
    using win_keeps_or_status [OF keeps_truncate [OF assms]] assms by (simp add: win_keeps_return)
  then show "win_keeps w (winfsp_set_file_size op c ctx n b w)"
    unfolding winfsp_set_file_size_def by (rule win_keeps_io_then) (rule win_keeps_info)
qed

lemma apply_basic_info_ok:
  assumes "ct < 2 ^ 63" "la < 2 ^ 63" "lw < 2 ^ 63" "ch < 2 ^ 63"
  shows "\<exists>a'. apply_basic_info ct la lw ch a = Some a' \<and> fa_ino a' = fa_ino a"
proof -
  have s: "\<exists>a'. set_filetime ft f a = Some a' \<and> fa_ino a' = fa_ino a"
    if "ft < 2 ^ 63" "\<And>t a. fa_ino (f t a) = fa_ino a" for ft f a
    using filetime_converts [OF that(1)] that(2) by (auto simp: set_filetime_def)
  obtain a1 where 1: "set_filetime ct (\<lambda>t a. a\<lparr>fa_crtime := t\<rparr>) a = Some a1" "fa_ino a1 = fa_ino a"
    using s [OF assms(1), of "\<lambda>t a. a\<lparr>fa_crtime := t\<rparr>" a] by auto
  obtain a2 where 2: "set_filetime la (\<lambda>t a. a\<lparr>fa_atime := t\<rparr>) a1 = Some a2" "fa_ino a2 = fa_ino a"
    using s [OF assms(2), of "\<lambda>t a. a\<lparr>fa_atime := t\<rparr>" a1] 1 by auto
  obtain a3 where 3: "set_filetime lw (\<lambda>t a. a\<lparr>fa_mtime := t\<rparr>) a2 = Some a3" "fa_ino a3 = fa_ino a"
    using s [OF assms(3), of "\<lambda>t a. a\<lparr>fa_mtime := t\<rparr>" a2] 2 by auto
  obtain a4 where "set_filetime ch (\<lambda>t a. a\<lparr>fa_ctime := t\<rparr>) a3 = Some a4" "fa_ino a4 = fa_ino a"
    using s [OF assms(4), of "\<lambda>t a. a\<lparr>fa_ctime := t\<rparr>" a3] 3 by auto
  with 1 2 3 show ?thesis by (simp add: apply_basic_info_def)
qed

lemma win_keeps_basic_info:
  assumes "world_ok w" "ct < 2 ^ 63" "la < 2 ^ 63" "lw < 2 ^ 63" "ch < 2 ^ 63"
  shows "win_keeps w (winfsp_set_basic_info op c ctx ct la lw ch w)"
proof -
  obtain r w1 where g: "in_meta (get_attr (now_mono c) (ctx_inode ctx)) w = (r, w1)" by (rule prod.exhaust)
  note k = in_meta_get_attr [OF g assms(1)]
  show ?thesis
  proof (cases r)
    case None
    with g k show ?thesis by (simp add: winfsp_set_basic_info_def win_keeps_from [OF win_keeps_info])
  next
    case (Some a)
    obtain a1 where a1: "apply_basic_info ct la lw ch a = Some a1" "fa_ino a1 = ctx_inode ctx"
      using apply_basic_info_ok [OF assms(2-5), of a] k Some by auto
    have "world_ok (w1\<lparr>meta_cache := put_attr (now_mono c) (ctx_inode ctx) a1 (meta_cache w1)\<rparr>)"
      using k by (intro world_ok_parts(1) mc_ok_put world_okD(1) a1(2)) simp_all
    with g Some a1 k show ?thesis by (simp add: winfsp_set_basic_info_def win_keeps_def)
  qed
qed

lemma win_keeps_can_delete:
  assumes "world_ok w" "room (listing_size op (ctx_inode ctx) w) w"
  shows "win_keeps w (winfsp_can_delete op c ctx w)"
proof -
  have "win_keeps w (io_then (or_status (do_readdir op c (ctx_inode ctx) 0 w)) (\<lambda>entries w1.
      (let real_entries = filter (\<lambda>e. dent_name e \<noteq> ''.'' \<and> dent_name e \<noteq> ''..'') entries
       in if real_entries \<noteq> [] then (Inl (Err STATUS_DIRECTORY_NOT_EMPTY), w1) else (Inr (), w1))))"
    by (rule win_keeps_core [OF keeps_readdir [OF assms]]) (simp add: Let_def win_keeps_def)
  then show ?thesis using assms(1) by (simp add: winfsp_can_delete_def win_keeps_return)
qed

lemma win_keeps_directory_loop:
  "world_ok w \<Longrightarrow> win_keeps w (directory_loop op c fallback add marker past es b w)"
proof (induction es arbitrary: past b w)
  case Nil
  then show ?case by (simp add: win_keeps_def)
next
  case (Cons e es)
  have "win_keeps w (io_then (case or_status (do_getattr op c (dent_inode e) w) of
             (Inl (Err _), w1) \<Rightarrow> (Inr fallback, w1) | r \<Rightarrow> r)
           (\<lambda>attr w1. (case add b (dent_name e, build_file_info attr) of
               (b1, True) \<Rightarrow> directory_loop op c fallback add marker True es b1 w1
             | (b1, False) \<Rightarrow> (Inr b1, w1))))"
  proof (rule win_keeps_io_then [OF win_keeps_ignored [OF win_keeps_or_status [OF keeps_getattr [OF Cons.prems]]]], goal_cases)
    case (1 attr w1)
    with Cons.IH [of w1] show ?case by (simp add: win_keeps_def split: prod.split bool.split)
  qed
  with Cons show ?case by simp
qed

lemma win_keeps_read_directory:
  assumes "world_ok w" "room (listing_size op (ctx_inode ctx) w) w"
  shows "win_keeps w (winfsp_read_directory op c fallback add ctx marker b w)"
  unfolding winfsp_read_directory_def
  by (rule win_keeps_core [OF keeps_readdir [OF assms]]) (rule win_keeps_directory_loop)

text \<open>A rename is admissible when the file has a name, the new name is proper and the new path is not
  in use.\<close>

definition win_rename_free :: "file_context \<Rightarrow> string \<Rightarrow> 's world \<Rightarrow> bool" where
  "win_rename_free ctx new_file_name w =
     (case im_get_path (inode_mgr w) (ctx_inode ctx) of
        None \<Rightarrow> True
      | Some old_path \<Rightarrow> old_path \<noteq> [] \<and>
          (let (old_parent_path, old_name) = split_last old_path;
               (new_parent_path, new_name) = split_last (winfsp_normalize_path new_file_name)
           in good_name new_name \<and>
              (case (known_parent old_parent_path w, known_parent new_parent_path w) of
                 (Some p, Some q) \<Rightarrow> rename_free p old_name q new_name w
               | _ \<Rightarrow> True)))"

lemma win_keeps_rename:
  assumes "world_ok w" "win_rename_free ctx name w"
  shows "win_keeps w (winfsp_rename op c ctx name w)"
proof (cases "im_get_path (inode_mgr w) (ctx_inode ctx)")
  case None
  with assms(1) show ?thesis by (simp add: winfsp_rename_def get_path_def win_keeps_def)
next
  case (Some old)
  obtain pp on where o: "split_last old = (pp, on)" by (rule prod.exhaust)
  obtain np nn where n: "split_last (winfsp_normalize_path name) = (np, nn)" by (rule prod.exhaust)
  have "normalized old" using im_ok_path [OF world_okD(2) [OF assms(1)] Some] .
  with assms(2) Some o have g: "good_name on" using split_last_good [of old] by (simp add: win_rename_free_def)
  show ?thesis
  proof (cases "known_parent pp w = None \<or> known_parent np w = None")
    case True
    with assms(1) Some o n show ?thesis
      by (auto simp: winfsp_rename_def get_path_def win_keeps_def split: option.split)
  next
    case False
    then obtain p q where pq: "known_parent pp w = Some p" "known_parent np w = Some q" by auto
    then have "rename_free p on q nn w" using assms(2) Some o n by (simp add: win_rename_free_def)
    from win_keeps_or_status [OF keeps_rename [OF assms(1) g this]] Some o n pq show ?thesis
      by (simp add: winfsp_rename_def get_path_def)
  qed
qed

text \<open>A cleanup that deletes is admissible for a file with a name, not for the root.\<close>

lemma win_keeps_cleanup:
  assumes "world_ok w" "im_get_path (inode_mgr w) (ctx_inode ctx) \<noteq> Some []"
  shows "win_keeps w (winfsp_cleanup op ctx flags w)"
proof (cases "im_get_path (inode_mgr w) (ctx_inode ctx)")
  case None
  with assms(1) show ?thesis by (simp add: winfsp_cleanup_def win_keeps_def)
next
  case (Some path)
  obtain pp name where s: "split_last path = (pp, name)" by (rule prod.exhaust)
  have "normalized path" using im_ok_path [OF world_okD(2) [OF assms(1)] Some] .
  with assms(2) Some s have g: "good_name name" using split_last_good [of path] by simp
  show ?thesis
  proof (cases "known_parent pp w")
    case None
    with assms(1) Some s show ?thesis by (simp add: winfsp_cleanup_def win_keeps_def)
  next
    case p: (Some parent)
    have "keeps w (if ctx_is_dir ctx then do_rmdir op parent name w else do_unlink op parent name w)"
      using keeps_rmdir [OF assms(1) g] keeps_unlink [OF assms(1) g] by simp
    from win_keeps_ignored [OF win_keeps_or_status [OF this]] assms(1) Some s p show ?thesis
      by (simp add: winfsp_cleanup_def win_keeps_return)
  qed
qed

end
