(* ===== verification/FuseProps.thy ===== *)
theory FuseProps
  imports FuseRuns
begin

text \<open>
  What holds in every execution of the FUSE front end: every request is answered, the tables and
  caches are consistent; and what a failing \<open>open\<close> with truncation leaves behind.
\<close>

section \<open>Every request is answered\<close>

text \<open>C1 (every request is answered): in every world that a sequence of admissible requests and
  prefetch tasks reaches from a fresh file system, with a validated configuration whose part size is
  not zero and whose transfer size is not a multiple of four gigabytes, a further admissible request
  returns, whatever the store answers: with a reply or with one of the error numbers ENOENT, EIO and
  ENOTEMPTY, never with a panic and never not at all.\<close>

theorem requests_answered:
  assumes "fuse_reachable op (core_new c0 d cfg mt s) w" "validate cfg = Inr ()"
    and "multipart_part_size (cfg_performance cfg) \<noteq> 0" "(ucast (max_write (cfg_fuse cfg)) :: u32) \<noteq> 0"
    and "admissible op req w"
  shows "\<exists>r w'. fuse_handle op c req w = (r, w') \<and>
     ((\<exists>reply. r = Inr reply) \<or> r = Inl (Err ENOENT) \<or> r = Inl (Err EIO) \<or> r = Inl (Err ENOTEMPTY))"
proof -
  let ?w0 = "core_new c0 d cfg mt s"
  have ok: "world_ok w" "settings w = settings ?w0"
    using fuse_reachable_ok [OF assms(1) core_new_ok] by simp_all
  have "serves ?w0"
    using assms(2-4) by (simp add: serves_def core_new_def dc_new_def wb_new_def write_buffer_config_from_def
        validate_Inr_iff Let_def unat_gt_0)
  then have "serves w" using serves_settings [OF ok(2)] by simp
  moreover obtain r w' where r: "fuse_handle op c req w = (r, w')" by (rule prod.exhaust)
  ultimately have "answers r" using fuse_handle_keeps [OF ok(1) assms(5), of c] by (simp add: keeps_def)
  with r show ?thesis by (cases r) (auto simp: answers_def)
qed

definition served_config :: config where
  "served_config = demo_config\<lparr>cfg_obs := obs_config_default
     \<lparr>bucket := ''b'', access_key := Some ''k'', secret_key := Some ''s''\<rparr>\<rparr>"

definition served_world :: "map_store world" where
  "served_world = core_new (demo_clock 0) demo_disk served_config metrics_new \<lparr>ms_objects = [], ms_broken = []\<rparr>"

lemma served_facts:
  "validate served_config = Inr ()" "multipart_part_size (cfg_performance served_config) \<noteq> 0"
  "(ucast (max_write (cfg_fuse served_config)) :: u32) \<noteq> 0"
  "inode_mgr served_world = im_new (demo_clock 0) (permission_config_default 1000 1000)"
  by (simp_all add: served_config_def served_world_def validate_def demo_defs fuse_config_default_def)

lemma requests_answered_witness:
  "\<exists>r w'. fuse_handle map_operator (demo_clock 1) (ReqLookup 1 ''f'') served_world = (r, w') \<and>
     ((\<exists>reply. r = Inr reply) \<or> r = Inl (Err ENOENT) \<or> r = Inl (Err EIO) \<or> r = Inl (Err ENOTEMPTY))"
  by (rule requests_answered [OF _ served_facts(1-3), of map_operator "demo_clock 0" demo_disk metrics_new
        "\<lparr>ms_objects = [], ms_broken = []\<rparr>"])
    (simp_all add: served_world_def [symmetric] start room_def good_name_def served_facts im_new_def im_init_root_def ROOT_INODE_def Let_def)

section \<open>The state stays consistent\<close>

text \<open>C3 (the state stays consistent): in every reachable world a path belongs to an inode exactly when
  the inode's entry carries that path, the root inode keeps the empty path, every open handle was
  handed out before, cached attributes carry the number of their inode, and a buffer that is marked
  clean holds no data.\<close>

theorem reachable_world_consistent:
  assumes "fuse_reachable op (core_new c0 d cfg mt s) w"
  shows "(get_inode (inode_mgr w) path = Some i \<longleftrightarrow> im_get_path (inode_mgr w) i = Some (normalize_path path)) \<and>
     im_get_path (inode_mgr w) ROOT_INODE = Some [] \<and>
     (\<forall>h. hm_get (handle_mgr w) h \<noteq> None \<longrightarrow> h < next_handle (handle_mgr w)) \<and>
     (\<forall>j a mc. get_attr now j (meta_cache w, mt') = (Some a, mc) \<longrightarrow> fa_ino a = j) \<and>
     (\<forall>j b. dash_get (wb_buffers (write_buf w)) j = Some b \<longrightarrow> \<not> dirty b \<longrightarrow> fw_data b = [])"
proof -
  have ok: "world_ok w" using fuse_reachable_ok [OF assms core_new_ok] by simp
  have "get_inode (inode_mgr w) path = Some i \<longleftrightarrow> im_get_path (inode_mgr w) i = Some (normalize_path path)"
    using im_wf_get_inode world_okD(2) [OF ok] by (simp add: im_ok_def)
  moreover have "im_get_path (inode_mgr w) ROOT_INODE = Some []" using world_okD(2) [OF ok] by (simp add: im_ok_def)
  moreover have "\<forall>h. hm_get (handle_mgr w) h \<noteq> None \<longrightarrow> h < next_handle (handle_mgr w)"
    using world_okD(3) [OF ok] by (auto simp: hm_ok_def handle_ids.bounded_def word_less_nat_alt)
  moreover have "\<forall>j a mc. get_attr now j (meta_cache w, mt') = (Some a, mc) \<longrightarrow> fa_ino a = j"
  proof (intro allI impI)
    fix j a mc assume "get_attr now j (meta_cache w, mt') = (Some a, mc)"
    with get_attr_ok [of now j "meta_cache w" mt' "Some a" "fst mc" "snd mc"] world_okD(1) [OF ok]
    show "fa_ino a = j" by simp
  qed
  moreover have "\<forall>j b. dash_get (wb_buffers (write_buf w)) j = Some b \<longrightarrow> \<not> dirty b \<longrightarrow> fw_data b = []"
    using world_okD(4) [OF ok] by (auto simp: wb_ok_def fw_ok_def)
  ultimately show ?thesis by blast
qed

lemma reachable_world_consistent_witness:
  "\<exists>w. fuse_step map_operator served_world w \<and> im_get_path (inode_mgr w) ROOT_INODE = Some []"
proof -
  obtain r w where h: "fuse_handle map_operator (demo_clock 1) (ReqUnlink 1 ''f'') served_world = (r, w)"
    by (rule prod.exhaust)
  then have st: "fuse_step map_operator served_world w"
    by (intro request [of map_operator "ReqUnlink 1 ''f''" served_world "demo_clock 1" r w])
      (simp_all add: good_name_def)
  from more [OF start st]
  have "fuse_reachable map_operator (core_new (demo_clock 0) demo_disk served_config metrics_new
      \<lparr>ms_objects = [], ms_broken = []\<rparr>) w"
    by (simp add: served_world_def)
  from reachable_world_consistent [OF this] st show ?thesis by blast
qed

section \<open>A failing open\<close>

lemma in_wb_handles: "in_wb f w = (r, w') \<Longrightarrow> handle_mgr w' = handle_mgr w"
  by (auto simp: in_wb_Inr)

lemma do_truncate_handles: "do_truncate op c i sz w = (r, w') \<Longrightarrow> handle_mgr w' = handle_mgr w"
proof -
  assume t: "do_truncate op c i sz w = (r, w')"
  show ?thesis
  proof (cases "im_get_path (inode_mgr w) i")
    case (Some path)
    obtain x w1 where b: "in_wb (wb_truncate op (now_mono c) i (obs_path (w_config w) path) sz) w = (x, w1)"
      by (rule prod.exhaust)
    from t Some b in_wb_handles [OF b] show ?thesis by (cases x) (auto simp: do_truncate_def get_path_def)
  qed (use t in \<open>simp add: do_truncate_def get_path_def\<close>)
qed

text \<open>A failing open leaks its handle: an open request fails only with O_TRUNC and a truncation
  that fails, and then the handle that it opened before stays in the table although the kernel never
  learns its number.\<close>

theorem failing_open_leaks_handle:
  assumes "fuse_open op c i flags w = (Inl e, w')"
  shows "flags AND O_TRUNC \<noteq> 0 \<and> (\<exists>w1. do_truncate op c i 0 (snd (do_open c i flags w)) = (Inl e, w1)) \<and>
     hm_get (handle_mgr w') (fst (do_open c i flags w)) = Some (handle_state_new (now_mono c) i flags False)"
proof -
  obtain fh w1 where o: "do_open c i flags w = (fh, w1)" by (rule prod.exhaust)
  have h: "hm_get (handle_mgr w1) fh = Some (handle_state_new (now_mono c) i flags False)"
    using o by (auto simp: do_open_def hm_open_def hm_get_def Let_def)
  have tr: "flags AND O_TRUNC \<noteq> 0" using assms o by (simp add: fuse_open_def split: if_splits)
  obtain x w2 where t: "do_truncate op c i 0 w1 = (x, w2)" by (rule prod.exhaust)
  have "x = Inl e \<and> w' = w2"
  proof (cases x)
    case (Inl e')
    have "map_err fs_err_to_errno e' = e'" by (cases e') (simp_all add: fs_err_to_errno_def)
    with assms o tr t Inl show ?thesis by (simp add: fuse_open_def map_fs_err_def)
  qed (use assms o tr t in \<open>simp add: fuse_open_def map_fs_err_def\<close>)
  with o h tr t do_truncate_handles [OF t] show ?thesis by simp
qed

lemma failing_open_leaks_handle_witness:
  "\<exists>w'. fuse_open map_operator (demo_clock 1) 7 O_TRUNC (demo_world []) = (Inl (Err ENOENT), w') \<and>
     hm_get (handle_mgr w') 1 \<noteq> None"
proof -
  have "im_get_path (inode_mgr (demo_world [])) 7 = None"
    by (simp add: im_new_def im_init_root_def im_get_path_def ROOT_INODE_def Let_def)
  then obtain w' where o: "fuse_open map_operator (demo_clock 1) 7 O_TRUNC (demo_world []) = (Inl (Err ENOENT), w')"
    by (simp add: fuse_open_def do_open_def hm_open_def hm_new_def Let_def do_truncate_def get_path_def
        map_fs_err_def fs_err_to_errno_def O_TRUNC_def)
  have "fst (do_open (demo_clock 1) 7 O_TRUNC (demo_world [])) = 1"
    by (simp add: do_open_def hm_open_def hm_new_def Let_def)
  with failing_open_leaks_handle [OF o] o show ?thesis by auto
qed

end
