(* ===== verification/Namespace.thy ===== *)
theory Namespace
  imports FuseProps
begin

text \<open>
  The abstract namespace of the file system: a partial map from paths to inode numbers. Each request
  has an abstract effect on it (\<open>ns_step\<close>); the handlers implement it, and a request that fails does
  not change it.
\<close>

section \<open>The specification\<close>

type_synonym namespace = "string \<Rightarrow> u64 option"

definition namespace_of :: "'s world \<Rightarrow> namespace" where
  "namespace_of w = dash_get (path_to_inode (inode_mgr w))"

text \<open>The path of a name in a directory.\<close>

definition ns_child :: "namespace \<Rightarrow> u64 \<Rightarrow> string \<Rightarrow> string \<Rightarrow> bool" where
  "ns_child ns parent name path \<longleftrightarrow> (\<exists>p. ns p = Some parent \<and> path = join_path p name)"

text \<open>A path gets an inode: the one it has, or one that no path has.\<close>

definition ns_bind :: "namespace \<Rightarrow> string \<Rightarrow> namespace \<Rightarrow> bool" where
  "ns_bind ns path ns' \<longleftrightarrow>
     (ns path \<noteq> None \<and> ns' = ns) \<or> (ns path = None \<and> (\<exists>i. i \<notin> ran ns \<and> ns' = ns(path \<mapsto> i)))"

definition bind_child :: "u64 \<Rightarrow> string \<Rightarrow> namespace \<Rightarrow> namespace \<Rightarrow> bool" where
  "bind_child parent name ns ns' = (\<exists>path. ns_child ns parent name path \<and> ns_bind ns path ns')"

definition drop_child :: "u64 \<Rightarrow> string \<Rightarrow> namespace \<Rightarrow> namespace \<Rightarrow> bool" where
  "drop_child parent name ns ns' = (\<exists>path. ns_child ns parent name path \<and> ns' = ns(path := None))"

definition move_child :: "u64 \<Rightarrow> string \<Rightarrow> u64 \<Rightarrow> string \<Rightarrow> namespace \<Rightarrow> namespace \<Rightarrow> bool" where
  "move_child parent name new_parent new_name ns ns' =
     (\<exists>old new. ns_child ns parent name old \<and> ns_child ns new_parent new_name new \<and>
        ns' = (case ns old of None \<Rightarrow> ns | Some i \<Rightarrow> ns(old := None, new \<mapsto> i)))"

fun ns_step :: "fuse_request \<Rightarrow> namespace \<Rightarrow> namespace \<Rightarrow> bool" where
  "ns_step (ReqLookup parent name) = bind_child parent name"
| "ns_step (ReqCreate parent name mode flags) = bind_child parent name"
| "ns_step (ReqMkdir parent name mode) = bind_child parent name"
| "ns_step (ReqUnlink parent name) = drop_child parent name"
| "ns_step (ReqRmdir parent name) = drop_child parent name"
| "ns_step (ReqRename parent name new_parent new_name) = move_child parent name new_parent new_name"
| "ns_step (ReqReaddir inode offset) = (\<subseteq>\<^sub>m)"
| "ns_step _ = (\<lambda>ns ns'. ns' = ns)"

section \<open>Parts that leave the namespace alone\<close>

lemma namespace_quiet [simp]:
  "namespace_of (w\<lparr>w_metrics := mt\<rparr>) = namespace_of w" "namespace_of (w\<lparr>w_store := s\<rparr>) = namespace_of w"
  "namespace_of (w\<lparr>block_cache := dc\<rparr>) = namespace_of w" "namespace_of (w\<lparr>ra_mgr := ra\<rparr>) = namespace_of w"
  "namespace_of (w\<lparr>w_prefetches := ps\<rparr>) = namespace_of w" "namespace_of (w\<lparr>meta_cache := mc\<rparr>) = namespace_of w"
  "namespace_of (w\<lparr>write_buf := wb\<rparr>) = namespace_of w" "namespace_of (w\<lparr>handle_mgr := hm\<rparr>) = namespace_of w"
  by (simp_all add: namespace_of_def)

lemma namespace_and_then:
  assumes "namespace_of (snd r) = ns" "\<And>a w1. r = (Inr a, w1) \<Longrightarrow> namespace_of (snd (k a w1)) = ns"
  shows "namespace_of (snd (and_then r k)) = ns"
  using assms by (cases r; cases "fst r") auto

lemma namespace_or_errno [simp]: "namespace_of (snd (or_errno n r)) = namespace_of (snd r)"
  by (cases r; cases "fst r") auto

lemma namespace_map_fs_err [simp]: "namespace_of (snd (map_fs_err r)) = namespace_of (snd r)"
  by (cases r; cases "fst r") (auto simp: map_fs_err_def)

lemma namespace_with_reply [simp]: "namespace_of (snd (with_reply f r)) = namespace_of (snd r)"
  by (cases r; cases "fst r") (auto simp: with_reply_def)

lemma namespace_in [simp]:
  "namespace_of (snd (in_net f w)) = namespace_of w" "namespace_of (snd (in_wb g w)) = namespace_of w"
  "namespace_of (snd (in_meta h w)) = namespace_of w"
  by (simp_all add: in_net_def in_wb_def in_meta_def split: prod.split)

lemma namespace_get_path [simp]: "namespace_of (snd (get_path i w)) = namespace_of w"
  by (simp add: get_path_def split: option.split)

lemma namespace_child_paths [simp]: "namespace_of (snd (child_paths p n w)) = namespace_of w"
  unfolding child_paths_def by (rule namespace_and_then) simp_all

lemma namespace_inodes: "namespace_of (w\<lparr>inode_mgr := im\<rparr>) = dash_get (path_to_inode im)"
  by (simp add: namespace_of_def)

text \<open>The same in the form that equations of pairs need.\<close>

lemma namespace_eqD:
  "in_net f w = (r, w1) \<Longrightarrow> namespace_of w1 = namespace_of w"
  "in_wb g w = (x, w1) \<Longrightarrow> namespace_of w1 = namespace_of w"
  "in_meta h w = (y, w1) \<Longrightarrow> namespace_of w1 = namespace_of w"
  "get_path i w = (z, w1) \<Longrightarrow> namespace_of w1 = namespace_of w"
  "child_paths p n w = (v, w1) \<Longrightarrow> namespace_of w1 = namespace_of w"
  using namespace_in namespace_get_path namespace_child_paths by (metis snd_conv)+

lemma namespace_update_size [simp]:
  "path_to_inode (im_update_size c i sz m) = path_to_inode m" "path_to_inode (set_children c i cs m) = path_to_inode m"
  by (simp_all add: im_update_size_def im_update_attr_def set_children_def modify_entry_def)

lemma namespace_getattr: "namespace_of (snd (do_getattr op c i w)) = namespace_of w"
proof -
  obtain r w1 where g: "in_meta (get_attr (now_mono c) i) (w\<lparr>w_metrics := inc_getattr_ops (w_metrics w)\<rparr>) = (r, w1)"
    by (rule prod.exhaust)
  have w1: "namespace_of w1 = namespace_of w" using namespace_eqD(3) [OF g] by simp
  show ?thesis
  proof (cases r)
    case None
    have "namespace_of (snd (and_then (get_path i w1) (\<lambda>path w2.
        case in_net (oc_stat op (obs_path (w_config w2) path)) w2 of
          (Inl e, w3) \<Rightarrow> (Inl (stat_errno e), w3)
        | (Inr meta, w3) \<Rightarrow>
            let attr = from_object_meta (now_wall c) (cfg_permission (w_config w3)) i meta
            in (Inr attr, w3\<lparr>meta_cache := put_attr (now_mono c) i attr (meta_cache w3)\<rparr>)))) = namespace_of w"
      by (rule namespace_and_then) (auto simp: w1 Let_def split: prod.split sum.split dest!: namespace_eqD)
    with g None show ?thesis by (simp add: do_getattr_def)
  qed (use g w1 in \<open>simp add: do_getattr_def\<close>)
qed


lemma namespace_read_remote: "namespace_of (snd (read_remote op c i path off sz w)) = namespace_of w"
  unfolding read_remote_def
  by (rule namespace_and_then) (auto split: option.split prod.split dest!: namespace_eqD(1))

lemma namespace_read: "namespace_of (snd (do_read op c i fh off sz w)) = namespace_of w"
  unfolding do_read_def
  by (rule namespace_and_then)
    (auto simp: Let_def namespace_read_remote split: option.split prod.split dest!: namespace_eqD)

lemma namespace_write: "namespace_of (snd (do_write op c i fh off d w)) = namespace_of w"
proof -
  have wr: "namespace_of (snd (and_then (or_errno EIO (in_wb f w1)) (\<lambda>written w2.
        (let new_size = off + of_nat written;
             w3 = w2\<lparr>handle_mgr := hm_update fh
                       (\<lambda>h. mark_dirty (update_position (now_mono c) off (of_nat written) h)) (handle_mgr w2),
                     meta_cache := mc_update_attr (now_mono c) i
                       (\<lambda>a. a\<lparr>fa_size := max (fa_size a) new_size, fa_mtime := now_wall c\<rparr>) (meta_cache w2),
                     inode_mgr := im_update_size c i new_size (inode_mgr w2)\<rparr>
         in case dc_invalidate_range i off written (block_cache w3) of
              None \<Rightarrow> (Inl Panic, w3)
            | Some dc \<Rightarrow>
                (Inr written,
                 w3\<lparr>block_cache := dc, w_metrics := add_write_bytes (of_nat written) (w_metrics w3)\<rparr>))))) =
      namespace_of w1" for f and w1 :: "'a world"
    by (rule namespace_and_then)
      (auto simp: Let_def namespace_inodes namespace_of_def [symmetric] split: option.split prod.split dest!: namespace_eqD)
  show ?thesis
    unfolding do_write_def
  proof (rule namespace_and_then, goal_cases)
    case (2 path w1)
    obtain x w2 where m: "in_meta (get_attr (now_mono c) i) w1 = (x, w2)" by (rule prod.exhaust)
    have "namespace_of w1 = namespace_of w" using namespace_eqD(4) [OF 2] by simp
    then show ?case using m wr namespace_eqD(3) [OF m] by (simp add: Let_def)
  qed simp
qed

lemma namespace_buffered:
  "namespace_of (snd (do_release op i fh w)) = namespace_of w" "namespace_of (snd (do_fsync op i w)) = namespace_of w"
  "namespace_of (snd (do_flush op i w)) = namespace_of w" "namespace_of (snd (core_flush_all op w)) = namespace_of w"
  "namespace_of (snd (do_truncate op c i sz w)) = namespace_of w"
  unfolding do_release_def do_fsync_def do_flush_def core_flush_all_def do_truncate_def
  by (auto intro!: namespace_and_then dest!: namespace_eqD)

lemma namespace_opens:
  "namespace_of (snd (do_open c i flags w)) = namespace_of w" "namespace_of (snd (do_opendir c i flags w)) = namespace_of w"
  "namespace_of (do_close fh w) = namespace_of w" "namespace_of (run_prefetch op c n w) = namespace_of w"
  by (simp_all add: do_open_def do_opendir_def do_close_def run_prefetch_def split: prod.split)


section \<open>Operations on names\<close>

lemma namespace_path: "world_ok w \<Longrightarrow> namespace_of w p = Some i \<longleftrightarrow> im_get_path (inode_mgr w) i = Some p"
  using im_wf_inverse world_okD(2) by (auto simp: namespace_of_def im_ok_def)

lemma namespace_get_inode: "normalized p \<Longrightarrow> get_inode (inode_mgr w) p = namespace_of w p"
  by (simp add: namespace_of_def get_inode_def)

lemma child_pathsD:
  assumes "child_paths parent name w = (Inr (child, path), w')" "world_ok w" "good_name name"
  shows "ns_child (namespace_of w) parent name child \<and> normalized child \<and> w' = w"
proof -
  obtain pp where pp: "im_get_path (inode_mgr w) parent = Some pp" "child = join_path pp name" "w' = w"
    using assms(1) by (auto simp: child_paths_Inr)
  with im_ok_child [OF world_okD(2) [OF assms(2)] pp(1) assms(3)] namespace_path [OF assms(2), of pp parent]
  show ?thesis by (auto simp: ns_child_def)
qed

lemma next_inode_fresh:
  assumes "world_ok w" shows "next_inode (inode_mgr w) \<notin> ran (namespace_of w)"
proof
  assume "next_inode (inode_mgr w) \<in> ran (namespace_of w)"
  then obtain p where "namespace_of w p = Some (next_inode (inode_mgr w))" by (auto simp: ran_def)
  then have "get_entry (inode_mgr w) (next_inode (inode_mgr w)) \<noteq> None"
    using namespace_path [OF assms] by (auto simp: get_path_entry)
  moreover have "inode_ids.bounded (inode_mgr w)" using world_okD(2) [OF assms] by (simp add: im_ok_def im_wf_def)
  ultimately show False by (auto simp: inode_ids.bounded_def)
qed

lemma remember_binds:
  assumes "remember c path d sz f w = (r, w1)" "world_ok w" "normalized path"
  shows "ns_bind (namespace_of w) path (namespace_of w1)"
proof -
  obtain i im where g: "get_or_create_inode c path d sz (inode_mgr w) = (i, im)" by (rule prod.exhaust)
  have w1: "namespace_of w1 = dash_get (path_to_inode im)"
    using assms(1) g by (auto simp: remember_def namespace_inodes)
  show ?thesis
  proof (cases "namespace_of w path")
    case (Some j)
    then have "im = inode_mgr w"
      using g assms(3) by (auto simp: get_or_create_inode_def namespace_of_def Let_def)
    with w1 Some show ?thesis by (simp add: ns_bind_def namespace_of_def)
  next
    case None
    then have "path_to_inode im = dash_insert path (next_inode (inode_mgr w)) (path_to_inode (inode_mgr w))"
      using g assms(3) by (auto simp: get_or_create_inode_def im_create_def namespace_of_def Let_def)
    then have "namespace_of w1 = (namespace_of w)(path \<mapsto> next_inode (inode_mgr w))"
      by (simp add: w1 fun_eq_iff) (simp add: namespace_of_def)
    with None next_inode_fresh [OF assms(2)] show ?thesis by (auto simp: ns_bind_def)
  qed
qed

lemma lookup_remote_binds:
  assumes "lookup_remote op c path w = (r, w')" "world_ok w" "normalized path"
  shows "case r of Inr _ \<Rightarrow> ns_bind (namespace_of w) path (namespace_of w') | Inl _ \<Rightarrow> namespace_of w' = namespace_of w"
proof -
  let ?p = "obs_path (w_config w) path"
  obtain r1 w1 where n1: "in_net (oc_stat op ?p) w = (r1, w1)" by (rule prod.exhaust)
  obtain r2 w2 where n2: "in_net (oc_stat op (as_dir ?p)) w1 = (r2, w2)" by (rule prod.exhaust)
  obtain r3 w3 where n3: "in_net (oc_list op (as_dir ?p)) w2 = (r3, w3)" by (rule prod.exhaust)
  have ok: "world_ok w1" "world_ok w2" "world_ok w3" using in_net_keeps n1 n2 n3 assms(2) by metis+
  have ns: "namespace_of w1 = namespace_of w" "namespace_of w2 = namespace_of w" "namespace_of w3 = namespace_of w"
    using namespace_eqD(1) [OF n1] namespace_eqD(1) [OF n2] namespace_eqD(1) [OF n3] by simp_all
  have b: "ns_bind (namespace_of w) path (namespace_of v')"
    if "remember c path d sz f v = (x, v')" "world_ok v" "namespace_of v = namespace_of w" for d sz f v x v'
    using remember_binds [OF that(1,2) assms(3)] that(3) by simp
  show ?thesis
    using assms(1) n1 n2 n3 ns
    by (cases r1; cases r2; cases r3)
      (auto simp: lookup_remote_def Let_def split: prod.splits list.splits
        intro: b [OF _ ok(1) ns(1)] b [OF _ ok(2) ns(2)] b [OF _ ok(3) ns(3)])
qed


text \<open>A run implements an abstract effect when it succeeds with that effect, or fails without any.\<close>

definition implements :: "(namespace \<Rightarrow> namespace \<Rightarrow> bool) \<Rightarrow> 's world \<Rightarrow> 'a fs_result \<times> 's world \<Rightarrow> bool" where
  "implements E w r \<longleftrightarrow>
     (case fst r of Inr _ \<Rightarrow> E (namespace_of w) (namespace_of (snd r)) | Inl _ \<Rightarrow> namespace_of (snd r) = namespace_of w)"

lemma implements_cong: "namespace_of w1 = namespace_of w \<Longrightarrow> implements E w1 r = implements E w r"
  by (simp add: implements_def split: sum.split)

lemma implements_and_then:
  assumes "namespace_of (snd r) = namespace_of w"
    and "\<And>a w1. r = (Inr a, w1) \<Longrightarrow> namespace_of w1 = namespace_of w \<Longrightarrow> implements E w1 (k a w1)"
  shows "implements E w (and_then r k)"
proof -
  obtain x w1 where r: "r = (x, w1)" by (rule prod.exhaust)
  show ?thesis
  proof (cases x)
    case (Inl e)
    with assms(1) r show ?thesis by (simp add: implements_def)
  next
    case (Inr a)
    with assms r have "namespace_of w1 = namespace_of w" "implements E w1 (k a w1)" by simp_all
    with r Inr show ?thesis using implements_cong by simp blast
  qed
qed

lemma implements_quiet: "namespace_of (snd r) = namespace_of w \<Longrightarrow> (\<And>ns. E ns ns) \<Longrightarrow> implements E w r"
  by (cases "fst r") (simp_all add: implements_def)

lemma implements_wrap:
  "implements E w r \<Longrightarrow> implements E w (map_fs_err r)" "implements E w r \<Longrightarrow> implements E w (with_reply f r)"
  by (cases r; cases "fst r"; simp add: implements_def map_fs_err_def with_reply_def)+

lemma implements_reply:
  "implements E w r \<Longrightarrow> (\<And>a w1. \<exists>b. k a w1 = (Inr b, w1)) \<Longrightarrow> implements E w (and_then (map_fs_err r) k)"
  by (cases r; cases "fst r") (auto simp: implements_def map_fs_err_def, metis fst_conv snd_conv sum.simps(6))

lemma lookup_implements:
  assumes "world_ok w" "good_name name"
  shows "implements (bind_child parent name) w (do_lookup op c parent name w)"
  unfolding do_lookup_def Let_def
proof (rule implements_and_then, goal_cases)
  case (2 pp w1)
  let ?p = "join_path pp name"
  have pp: "im_get_path (inode_mgr w) parent = Some pp" "w1 = w" using 2 by simp_all
  have child: "normalized ?p" "ns_child (namespace_of w) parent name ?p"
    using im_ok_child [OF world_okD(2) [OF assms(1)] pp(1) assms(2)] namespace_path [OF assms(1)] pp(1)
    by (auto simp: ns_child_def)
  obtain b mc where n: "is_negative (now_mono c) ?p (meta_cache w) = (b, mc)" by (rule prod.exhaust)
  let ?w2 = "w\<lparr>meta_cache := mc\<rparr>"
  have "mc_ok mc" using mc_ok_ops(6) [OF world_okD(1) [OF assms(1)], of "now_mono c" ?p] n by simp
  then have w2: "world_ok ?w2" using assms(1) by (simp add: world_ok_def)
  obtain r w3 where l: "lookup_cached c ?p ?w2 = (r, w3)" by (rule prod.exhaust)
  have w3: "world_ok w3 \<and> namespace_of w3 = namespace_of w \<and> (r \<noteq> None \<longrightarrow> namespace_of w ?p \<noteq> None)"
  proof (cases "namespace_of w ?p")
    case None
    then have "r = None \<and> w3 = ?w2" using l namespace_get_inode [OF child(1), of w] by (simp add: lookup_cached_def)
    with w2 show ?thesis by simp
  next
    case (Some i)
    obtain a w4 where g: "in_meta (get_attr (now_mono c) i) ?w2 = (a, w4)" by (rule prod.exhaust)
    with l Some namespace_get_inode [OF child(1), of w] have "w3 = w4" by (cases a) (simp_all add: lookup_cached_def)
    with in_meta_get_attr [OF g w2] namespace_eqD(3) [OF g] Some show ?thesis by simp
  qed
  obtain x w4 where lr: "lookup_remote op c ?p w3 = (x, w4)" by (rule prod.exhaust)
  have lr': "case x of Inr _ \<Rightarrow> ns_bind (namespace_of w) ?p (namespace_of w4) | Inl _ \<Rightarrow> namespace_of w4 = namespace_of w"
    using lookup_remote_binds [OF lr conjunct1 [OF w3] child(1)] unfolding conjunct1 [OF conjunct2 [OF w3]] .
  show ?case
  proof (cases b)
    case True
    with n pp show ?thesis by (simp add: implements_def)
  next
    case False
    with n pp l lr w3 lr' child show ?thesis
      by (cases r; cases x) (auto simp: implements_def bind_child_def ns_bind_def)
  qed
qed simp

lemma remember_implements:
  assumes "in_net f w = (Inr u :: 'r result, w1)" "world_ok w" "normalized path" "ns_child (namespace_of w) parent name path"
    and "remember c path d sz g w1 = (r, w2)"
  shows "bind_child parent name (namespace_of w) (namespace_of w2)"
  using remember_binds [OF assms(5) _ assms(3)] in_net_keeps [OF assms(1,2)] namespace_eqD(1) [OF assms(1)] assms(4)
  by (auto simp: bind_child_def)

lemma create_implements:
  assumes "world_ok w" "good_name name"
  shows "implements (bind_child parent name) w (do_create op c parent name mode flags w)"
  unfolding do_create_def
proof (rule implements_and_then, goal_cases)
  case (2 cp w1)
  obtain child path where cp: "cp = (child, path)" by (rule prod.exhaust)
  note ch = child_pathsD [OF 2(1) [unfolded cp] assms]
  obtain x w2 where n: "in_net (oc_write op path []) w = (x, w2)" by (rule prod.exhaust)
  show ?case
  proof (cases x)
    case (Inl e)
    with n cp ch namespace_eqD(1) [OF n] show ?thesis by (simp add: implements_def)
  next
    case (Inr u)
    obtain i a w3 where r: "remember c child False 0
        (\<lambda>i. new_file_attr (now_wall c) (cfg_permission (w_config w2)) i (Some mode)) w2 = ((i, a), w3)"
      by (metis prod.exhaust)
    obtain fh hm where h: "hm_open (now_mono c) i flags False (handle_mgr w3) = (fh, hm)" by (rule prod.exhaust)
    have "bind_child parent name (namespace_of w) (namespace_of w3)"
      using remember_implements [OF n [unfolded Inr] assms(1) _ _ r] ch by blast
    with n cp ch Inr r h show ?thesis by (simp add: implements_def)
  qed
qed simp

lemma mkdir_implements:
  assumes "world_ok w" "good_name name"
  shows "implements (bind_child parent name) w (do_mkdir op c parent name mode w)"
  unfolding do_mkdir_def
proof (rule implements_and_then, goal_cases)
  case (2 cp w1)
  obtain child path where cp: "cp = (child, path)" by (rule prod.exhaust)
  note ch = child_pathsD [OF 2(1) [unfolded cp] assms]
  obtain x w2 where n: "in_net (oc_create_dir op path) w = (x, w2)" by (rule prod.exhaust)
  show ?case
  proof (cases x)
    case (Inl e)
    with n cp ch namespace_eqD(1) [OF n] show ?thesis by (simp add: implements_def)
  next
    case (Inr u)
    obtain i a w3 where r: "remember c child True 0
        (\<lambda>i. new_directory_attr (now_wall c) (cfg_permission (w_config w2)) i (Some mode)) w2 = ((i, a), w3)"
      by (metis prod.exhaust)
    have "bind_child parent name (namespace_of w) (namespace_of w3)"
      using remember_implements [OF n [unfolded Inr] assms(1) _ _ r] ch by blast
    with n cp ch Inr r show ?thesis by (simp add: implements_def)
  qed
qed simp


lemma forget_file_namespace:
  assumes "world_ok w" "normalized path"
  shows "namespace_of (forget_file path w) = (namespace_of w)(path := None)"
proof (cases "namespace_of w path")
  case None
  then show ?thesis using namespace_get_inode [OF assms(2), of w] by (auto simp: forget_file_def)
next
  case (Some i)
  then have p: "im_get_path (inode_mgr w) i = Some path" using namespace_path [OF assms(1)] by simp
  then obtain e where e: "dash_get (inode_to_entry (inode_mgr w)) i = Some e" "ie_path e = path"
    by (auto simp: im_get_path_def)
  show ?thesis
    using Some namespace_get_inode [OF assms(2), of w] e
    by (simp add: forget_file_def namespace_inodes im_remove_def fun_eq_iff) (simp add: namespace_of_def)
qed

lemma unlink_implements:
  assumes "world_ok w" "good_name name"
  shows "implements (drop_child parent name) w (do_unlink op parent name w)"
  unfolding do_unlink_def
proof (rule implements_and_then, goal_cases)
  case (2 cp w1)
  obtain child path where cp: "cp = (child, path)" by (rule prod.exhaust)
  note ch = child_pathsD [OF 2(1) [unfolded cp] assms]
  obtain x w2 where n: "in_net (oc_delete op path) w = (x, w2)" by (rule prod.exhaust)
  have w2: "world_ok w2" "namespace_of w2 = namespace_of w"
    using in_net_keeps [OF n assms(1)] namespace_eqD(1) [OF n] by simp_all
  have f: "namespace_of (forget_file child w2) = (namespace_of w)(child := None)"
    using forget_file_namespace [OF w2(1)] ch w2(2) by simp
  show ?case
    using n cp ch w2 f by (cases x) (auto simp: implements_def drop_child_def Let_def)
qed simp

lemma rmdir_implements:
  assumes "world_ok w" "good_name name"
  shows "implements (drop_child parent name) w (do_rmdir op parent name w)"
  unfolding do_rmdir_def
proof (rule implements_and_then, goal_cases)
  case (2 cp w1)
  obtain child path where cp: "cp = (child, path)" by (rule prod.exhaust)
  note ch = child_pathsD [OF 2(1) [unfolded cp] assms]
  obtain x w2 where n: "in_net (oc_list op (as_dir path)) w = (x, w2)" by (rule prod.exhaust)
  obtain y w3 where n3: "in_net (oc_delete op (as_dir path)) w2 = (y, w3)" by (rule prod.exhaust)
  have w3: "world_ok w3" "namespace_of w2 = namespace_of w" "namespace_of w3 = namespace_of w"
    using in_net_keeps [OF n assms(1)] in_net_keeps [OF n3] namespace_eqD(1) [OF n] namespace_eqD(1) [OF n3] by simp_all
  let ?w4 = "case get_inode (inode_mgr w3) child of None \<Rightarrow> w3
      | Some i \<Rightarrow> w3\<lparr>meta_cache := mc_invalidate i (meta_cache w3), inode_mgr := im_remove i (inode_mgr w3)\<rparr>"
  have "namespace_of ?w4 = namespace_of (forget_file child w3)"
    by (simp add: forget_file_def namespace_inodes split: option.split)
  then have f: "namespace_of ?w4 = (namespace_of w)(child := None)"
    using forget_file_namespace [OF w3(1)] ch w3(3) by simp
  show ?case
    using n n3 cp ch w3 f by (cases x) (auto simp: implements_def drop_child_def Let_def)
qed simp

lemma rename_implements:
  assumes "world_ok w" "good_name name" "good_name new_name"
  shows "implements (move_child parent name new_parent new_name) w (do_rename op c parent name new_parent new_name w)"
  unfolding do_rename_def
proof (rule implements_and_then, goal_cases)
  case (2 cp w1)
  obtain child path where cp: "cp = (child, path)" by (rule prod.exhaust)
  note ch = child_pathsD [OF 2(1) [unfolded cp] assms(1,2)]
  show ?case
    unfolding cp prod.case
  proof (rule implements_and_then, goal_cases)
    case (2 cq w2)
    obtain new npath where cq: "cq = (new, npath)" by (rule prod.exhaust)
    have "child_paths new_parent new_name w = (Inr (new, npath), w2)" using 2(1) cq ch by simp
    note cn = child_pathsD [OF this assms(1,3)]
    obtain x w3 where n3: "in_net (oc_copy op path npath) w = (x, w3)" by (rule prod.exhaust)
    obtain y w4 where n4: "in_net (oc_delete op path) w3 = (y, w4)" by (rule prod.exhaust)
    have ns: "namespace_of w3 = namespace_of w" "namespace_of w4 = namespace_of w"
      using namespace_eqD(1) [OF n3] namespace_eqD(1) [OF n4] by simp_all
    have "dash_get (path_to_inode (im_rename c child new (inode_mgr w4))) =
        (case namespace_of w4 child of None \<Rightarrow> namespace_of w4
         | Some i \<Rightarrow> (namespace_of w4)(child := None, new \<mapsto> i))"
      using ch cn by (auto simp: im_rename_def namespace_of_def modify_entry_def Let_def fun_eq_iff split: option.split)
    then have "dash_get (path_to_inode (im_rename c child new (inode_mgr w4))) =
        (case namespace_of w child of None \<Rightarrow> namespace_of w
         | Some i \<Rightarrow> (namespace_of w)(child := None, new \<mapsto> i))"
      unfolding ns(2) .
    then have f: "move_child parent name new_parent new_name (namespace_of w)
        (dash_get (path_to_inode (im_rename c child new (inode_mgr w4))))"
      using ch cn unfolding move_child_def by blast
    show ?case
      using n3 n4 cq ch cn ns f
      by (cases x; cases y) (auto simp: implements_def Let_def namespace_inodes)
  qed simp
qed simp

lemma readdir_loop_grows:
  assumes "readdir_loop c path off eo metas w = (es, is, w1)" "room (length metas) w" "world_ok w" "normalized path"
  shows "namespace_of w \<subseteq>\<^sub>m namespace_of w1"
  using assms
proof (induction c path off eo metas w arbitrary: es "is" w1 rule: readdir_loop.induct)
  case (2 c path off eo meta metas w)
  show ?case
  proof (cases "eo \<le> off")
    case True
    with 2 show ?thesis by (simp add: room_def)
  next
    case f1: False
    show ?thesis
    proof (cases "skip_name (om_name meta)")
      case True
      with 2 f1 show ?thesis by (simp add: room_def)
    next
      case f2: False
      let ?attr = "\<lambda>i. from_object_meta (now_wall c) (cfg_permission (w_config w)) i meta"
      obtain i a w2 where r:
        "remember c (join_path path (om_name meta)) (om_is_dir meta) (om_size meta) ?attr w = ((i, a), w2)"
        by (metis prod.exhaust)
      obtain es2 is2 w3 where l: "readdir_loop c path off (eo + 1) metas w2 = (es2, is2, w3)" by (metis prod.exhaust)
      have "room 1 w" using "2.prems"(2) by (simp add: room_def)
      note k = remember_keeps [OF r "2.prems"(3) this]
      then have w2: "room (length metas) w2" "world_ok w2" using "2.prems"(2) by (simp_all add: room_def)
      have "om_name meta \<noteq> []" "slash \<notin> set (om_name meta)"
        using f2 split_on_pieces [OF last_in_set [OF split_on_nonempty]] by (simp_all add: skip_name_def om_name_def)
      then have "normalized (join_path path (om_name meta))"
        using join_path_normalized "2.prems"(4) by (simp add: good_name_def)
      then have "namespace_of w \<subseteq>\<^sub>m namespace_of w2"
        using remember_binds [OF r "2.prems"(3)] by (auto simp: ns_bind_def map_le_def)
      moreover have "namespace_of w2 \<subseteq>\<^sub>m namespace_of w3"
        using "2.IH"(3) [OF f1 f2 r [symmetric] refl l w2 "2.prems"(4)] .
      ultimately show ?thesis using "2.prems"(1) f1 f2 r l by (auto intro: map_le_trans)
    qed
  qed
qed simp


lemma readdir_implements:
  assumes "world_ok w" "room (listing_size op i w) w"
  shows "implements (\<subseteq>\<^sub>m) w (do_readdir op c i off w)"
proof (cases "im_get_path (inode_mgr w) i")
  case None
  then show ?thesis by (simp add: do_readdir_def get_path_def implements_def)
next
  case (Some path)
  let ?p0 = "obs_path (w_config w) path"
  let ?pre = "if ?p0 = [] then [] else as_dir ?p0"
  obtain x w1 where n: "in_net (oc_list_dir op ?pre) w = (x, w1)" by (rule prod.exhaust)
  have w1: "world_ok w1" "inode_mgr w1 = inode_mgr w" "namespace_of w1 = namespace_of w"
    using in_net_keeps [OF n assms(1)] namespace_eqD(1) [OF n] by simp_all
  show ?thesis
  proof (cases x)
    case (Inl e)
    with n w1 Some show ?thesis by (simp add: do_readdir_def get_path_def implements_def Let_def)
  next
    case (Inr metas)
    obtain es ins w2 where l: "readdir_loop c path off 3 metas w1 = (es, ins, w2)" by (metis prod.exhaust)
    have "room (length metas) w1"
      using assms(2) Some n Inr w1(2) by (simp add: listing_size_def room_def Let_def)
    from readdir_loop_grows [OF l this w1(1) im_ok_path [OF world_okD(2) [OF assms(1)] Some]]
    have "namespace_of w \<subseteq>\<^sub>m namespace_of w2" using w1(3) by simp
    with Some n Inr l show ?thesis
      by (simp add: do_readdir_def get_path_def implements_def Let_def namespace_inodes)
        (simp add: namespace_of_def)
  qed
qed

section \<open>The refinement\<close>

lemma setattr_namespace: "namespace_of (snd (fuse_setattr op c i s w)) = namespace_of w"
proof -
  have u: "namespace_of (snd (setattr_update c i s w1)) = namespace_of w1" for w1 :: "'a world"
  proof -
    obtain x w2 where m: "in_meta (get_attr (now_mono c) i) w1 = (x, w2)" by (rule prod.exhaust)
    with namespace_eqD(3) [OF m] show ?thesis
      by (auto simp: setattr_update_def store_attr_def split: option.split)
  qed
  show ?thesis
  proof (cases "set_size s")
    case (Some sz)
    obtain x w1 where t: "do_truncate op c i sz w = (x, w1)" by (rule prod.exhaust)
    with namespace_buffered(5) [of op c i sz w] u Some show ?thesis
      by (cases x) (simp_all add: fuse_setattr_def map_fs_err_def)
  qed (simp add: fuse_setattr_def u)
qed

lemma open_namespace: "namespace_of (snd (fuse_open op c i flags w)) = namespace_of w"
proof -
  obtain fh w1 where o: "do_open c i flags w = (fh, w1)" by (rule prod.exhaust)
  obtain x w2 where t: "do_truncate op c i 0 w1 = (x, w2)" by (rule prod.exhaust)
  have "namespace_of w1 = namespace_of w" "namespace_of w2 = namespace_of w1"
    using namespace_opens(1) [of c i flags w] o namespace_buffered(5) [of op c i 0 w1] t by simp_all
  with o t show ?thesis by (cases x) (simp_all add: fuse_open_def map_fs_err_def)
qed

lemma reply_namespace:
  "(\<And>a w1. \<exists>b. k a w1 = (Inr b, w1)) \<Longrightarrow> namespace_of (snd (and_then (map_fs_err r) k)) = namespace_of (snd r)"
  by (cases r; cases "fst r") (auto simp: map_fs_err_def, metis snd_conv)

lemma quiet_handlers:
  "namespace_of (snd (fuse_getattr op c i w)) = namespace_of w" "namespace_of (snd (fuse_write op c i fh off d w)) = namespace_of w"
  "namespace_of (snd (fuse_destroy op w)) = namespace_of w" "namespace_of (snd (fuse_opendir c i flags w)) = namespace_of w"
proof -
  show "namespace_of (snd (fuse_getattr op c i w)) = namespace_of w" "namespace_of (snd (fuse_write op c i fh off d w)) = namespace_of w"
    unfolding fuse_getattr_def fuse_write_def by (subst reply_namespace; simp add: namespace_getattr namespace_write)+
  show "namespace_of (snd (fuse_destroy op w)) = namespace_of w"
    using namespace_buffered(4) [of op w] by (auto simp: fuse_destroy_def split: prod.splits sum.splits abort.splits)
  show "namespace_of (snd (fuse_opendir c i flags w)) = namespace_of w"
    using namespace_opens(2) [of c i flags w] by (auto simp: fuse_opendir_def split: prod.splits)
qed


lemma handle_implements:
  assumes "world_ok w" "admissible op req w"
  shows "implements (ns_step req) w (fuse_handle op c req w)"
proof -
  have q: "implements (\<lambda>ns ns'. ns' = ns) w r" if "namespace_of (snd r) = namespace_of w" for r :: "fuse_reply fs_result \<times> 'a world"
    using that by (rule implements_quiet) simp
  show ?thesis
  proof (cases req)
    case (ReqLookup parent name)
    have "implements (bind_child parent name) (w\<lparr>w_metrics := inc_lookup_ops (w_metrics w)\<rparr>)
        (do_lookup op c parent name (w\<lparr>w_metrics := inc_lookup_ops (w_metrics w)\<rparr>))"
      using assms ReqLookup by (intro lookup_implements) simp_all
    from implements_cong [THEN iffD1, OF _ this, of w]
    have "implements (bind_child parent name) w (fuse_lookup op c parent name w)"
      unfolding fuse_lookup_def by (intro implements_reply) auto
    then show ?thesis using ReqLookup by (simp add: implements_wrap)
  next
    case (ReqReaddir i off)
    have "implements (\<subseteq>\<^sub>m) (w\<lparr>w_metrics := inc_readdir_ops (w_metrics w)\<rparr>)
        (do_readdir op c i off (w\<lparr>w_metrics := inc_readdir_ops (w_metrics w)\<rparr>))"
      using assms ReqReaddir by (intro readdir_implements) (simp_all add: room_def)
    from implements_cong [THEN iffD1, OF _ this, of w]
    have "implements (\<subseteq>\<^sub>m) w (fuse_readdir op c i off w)"
      unfolding fuse_readdir_def by (intro implements_reply) auto
    then show ?thesis using ReqReaddir by (simp add: implements_wrap)
  next
    case (ReqCreate parent name mode flags)
    then have "implements (bind_child parent name) w (fuse_create op c parent name mode flags w)"
      unfolding fuse_create_def using assms by (intro implements_reply create_implements) auto
    then show ?thesis using ReqCreate by (simp add: implements_wrap)
  next
    case (ReqMkdir parent name mode)
    then have "implements (bind_child parent name) w (fuse_mkdir op c parent name mode w)"
      unfolding fuse_mkdir_def using assms by (intro implements_reply mkdir_implements) auto
    then show ?thesis using ReqMkdir by (simp add: implements_wrap)
  qed (use assms in \<open>simp_all add: q implements_wrap unlink_implements rmdir_implements rename_implements quiet_handlers
      fuse_unlink_def fuse_rmdir_def fuse_rename_def setattr_namespace open_namespace fuse_read_def namespace_read
      fuse_release_def fuse_fsync_def fuse_flush_def fuse_access_def fuse_releasedir_def namespace_buffered namespace_opens\<close>)
qed

text \<open>C2 (the handlers refine the abstract namespace): from every reachable world, an admissible request
  that succeeds changes the map from paths to inodes exactly as specified: a lookup, a creation and a
  new directory bind the child path to the inode it has or to one that no path has, a removal
  unbinds it, a rename moves the binding, a listing only adds bindings, and every other request leaves
  the map as it is. A request that fails leaves it as it is, too.\<close>

theorem namespace_refinement:
  assumes "fuse_reachable op (core_new c0 d cfg mt s) w" "admissible op req w" "fuse_handle op c req w = (r, w')"
  shows "case r of Inr _ \<Rightarrow> ns_step req (namespace_of w) (namespace_of w') | Inl _ \<Rightarrow> namespace_of w' = namespace_of w"
proof -
  have "world_ok w" using fuse_reachable_ok [OF assms(1) core_new_ok] by simp
  from handle_implements [OF this assms(2), of c, unfolded assms(3) implements_def fst_conv snd_conv] show ?thesis .
qed

lemma namespace_refinement_witness:
  "\<exists>reply w'. fuse_handle map_operator (demo_clock 1) (ReqCreate 1 ''f'' 420 2) (demo_world []) = (Inr reply, w') \<and>
     bind_child 1 ''f'' (namespace_of (demo_world [])) (namespace_of w')"
proof -
  obtain a w' where "do_create map_operator (demo_clock 1) 1 ''f'' 420 2 (demo_world []) = (Inr (2, a, 1), w')"
    using demo_create by blast
  then obtain reply where h:
    "fuse_handle map_operator (demo_clock 1) (ReqCreate 1 ''f'' 420 2) (demo_world []) = (Inr reply, w')"
    by (simp add: fuse_create_def map_fs_err_def with_reply_def)
  have "admissible map_operator (ReqCreate 1 ''f'' 420 2) (demo_world [])"
    by (simp add: good_name_def room_def handle_room_def im_new_def im_init_root_def ROOT_INODE_def hm_new_def Let_def)
  moreover have "fuse_reachable map_operator (core_new (demo_clock 0) demo_disk demo_config metrics_new
      \<lparr>ms_objects = [], ms_broken = []\<rparr>) (demo_world [])"
    unfolding demo_world_def by (rule start)
  ultimately show ?thesis using namespace_refinement [OF _ _ h] h by fastforce
qed

end
