(* ===== verification/Lifecycle.thy ===== *)
theory Lifecycle
  imports Namespace
begin

text \<open>
  What follows an operation: lookups after a creation and after a rename, the release of a file that
  was removed, the result of removing a directory, and the pages of a directory listing.
\<close>

section \<open>Lookups after creation and renaming\<close>

lemma lookup_served:
  assumes "im_get_path (inode_mgr w) parent = Some pp" "get_inode (inode_mgr w) (join_path pp name) = Some i"
    and "dash_get (negative_cache (meta_cache w)) (join_path pp name) = None"
    and "dash_get (attr_cache (meta_cache w)) i = Some ca"
    and "\<not> ca_is_expired (now_mono c) ca (attr_ttl (mc_config (meta_cache w)))"
  shows "\<exists>w'. do_lookup op c parent name w = (Inr (i, ca_attr ca), w') \<and> w_store w' = w_store w"
  using assms
  by (auto simp: do_lookup_def get_path_def is_negative_def lookup_cached_def in_meta_def get_attr_def Let_def)

lemma get_or_create_path:
  assumes "im_wf m" "im_get_path m j = Some p"
  shows "im_get_path (snd (get_or_create_inode c q d sz m)) j = Some p"
  using assms inode_ids.mint_keeps [of m j c "(normalize_path q, d, sz)"]
  by (auto simp: get_path_entry get_or_create_inode_def Let_def im_wf_def split: option.split)

text \<open>C13 (a created file is found at once): after a file was created, a lookup of its name within the
  attribute time to live returns its inode and the attributes of the creation, without contacting
  the store, also when the name was known not to exist before.\<close>

theorem lookup_after_create:
  assumes "do_create op c parent name mode flags w = (Inr (i, a, fh), w1)" "im_wf (inode_mgr w)"
    and "elapsed (now_mono c') (now_mono c) \<le> attr_ttl (mc_config (meta_cache w))"
  shows "\<exists>w2. do_lookup op c' parent name w1 = (Inr (i, a), w2) \<and> w_store w2 = w_store w1 \<and>
     a = new_file_attr (now_wall c) (cfg_permission (w_config w)) i (Some mode)"
proof -
  obtain pp where pp: "im_get_path (inode_mgr w) parent = Some pp"
    using assms(1) by (cases "im_get_path (inode_mgr w) parent") (simp_all add: do_create_def child_paths_def get_path_def)
  note e = do_create_effect [OF assms(1,2) pp]
  have p1: "im_get_path (inode_mgr w1) parent = Some pp"
    using e get_or_create_path [OF assms(2) pp, of c "join_path pp name" False 0] by (metis snd_conv)
  have "dash_get (negative_cache (meta_cache w1)) (join_path pp name) = None"
      "dash_get (attr_cache (meta_cache w1)) i = Some (cached_attr_new (now_mono c) a)"
      "mc_config (meta_cache w1) = mc_config (meta_cache w)"
    using e put_attr_get [of "now_mono c" i a "meta_cache w"] by (simp_all add: invalidate_dir_def remove_negative_def)
  with lookup_served [OF p1, of name i "cached_attr_new (now_mono c) a" c' op] e assms(3)
  show ?thesis by (simp add: cached_attr_new_def ca_is_expired_def)
qed


lemma lookup_after_create_witness:
  "\<exists>a w1 w2. do_create map_operator (demo_clock 1) 1 ''f'' 420 2 (demo_world []) = (Inr (2, a, 1), w1) \<and>
     do_lookup map_operator (demo_clock 2) 1 ''f'' w1 = (Inr (2, a), w2)"
proof -
  obtain a w1 where c: "do_create map_operator (demo_clock 1) 1 ''f'' 420 2 (demo_world []) = (Inr (2, a, 1), w1)"
    using demo_create by blast
  have "elapsed (now_mono (demo_clock 2)) (now_mono (demo_clock 1)) \<le> attr_ttl (mc_config (meta_cache (demo_world [])))"
    by (simp add: elapsed_def demo_defs)
  from lookup_after_create [OF c demo_wf this] c show ?thesis by blast
qed

text \<open>A rename does not touch the negative cache.\<close>

lemma rename_negative:
  assumes "do_rename op c parent name new_parent new_name w = (Inr u, w1)"
  shows "negative_cache (meta_cache w1) = negative_cache (meta_cache w) \<and>
     mc_config (meta_cache w1) = mc_config (meta_cache w)"
proof -
  obtain old opath new npath where p: "child_paths parent name w = (Inr (old, opath), w)"
      "child_paths new_parent new_name w = (Inr (new, npath), w)"
    using assms by (auto simp: do_rename_def and_then_Inr child_paths_Inr)
  obtain x w2 where n2: "in_net (oc_copy op opath npath) w = (x, w2)" by (rule prod.exhaust)
  obtain y w3 where n3: "in_net (oc_delete op opath) w2 = (y, w3)" by (rule prod.exhaust)
  have m: "meta_cache w3 = meta_cache w"
    using n2 n3 by (auto simp: in_net_Inr)
  obtain v z where xy: "x = Inr v" "y = Inr z"
    using assms p n2 n3 by (cases x; cases y) (simp_all add: do_rename_def)
  show ?thesis
    using assms p n2 n3 xy m
    by (auto simp: do_rename_def Let_def mc_invalidate_def invalidate_dir_def invalidate_attr_def split: option.split)
qed

text \<open>C34 (a renamed file is not found): when the new name of a rename was looked up before and found not
  to exist, a lookup of it after the successful rename still answers ENOENT, without asking the
  store, until the negative entry expires.\<close>

theorem rename_leaves_negative_entry:
  assumes "do_rename op c parent name new_parent new_name w = (Inr (), w1)"
    and "im_get_path (inode_mgr w1) new_parent = Some q"
    and "dash_get (negative_cache (meta_cache w)) (join_path q new_name) = Some t"
    and "elapsed (now_mono c') t \<le> negative_ttl (mc_config (meta_cache w))"
  shows "\<exists>w2. do_lookup op c' new_parent new_name w1 = (Inl (Err ENOENT), w2) \<and> w_store w2 = w_store w1"
  using rename_negative [OF assms(1)] assms(2-4)
  by (simp add: do_lookup_def get_path_def is_negative_def Let_def)

lemma map_rename [simp]:
  "ms_broken s = [] \<Longrightarrow> dash_get (ms_objects s) p = Some d \<Longrightarrow> oc_copy map_operator p q (mt, s) =
     (Inr (), (inc_obs_put (inc_obs_get mt), s\<lparr>ms_objects := dash_insert q d (ms_objects s)\<rparr>))"
  "ms_broken s = [] \<Longrightarrow> oc_delete map_operator p (mt, s) =
     (Inr (), (inc_obs_delete mt, s\<lparr>ms_objects := dash_remove p (ms_objects s)\<rparr>))"
  by (simp_all add: oc_copy_def oc_delete_def map_operator_def)

lemma rename_leaves_negative_entry_witness:
  "\<exists>w1 w2. do_rename map_operator (demo_clock 2) 1 ''f'' 1 ''g''
       ((demo_world [(''f'', [7])])\<lparr>meta_cache := put_negative 1 ''g'' (mc_new metadata_cache_config_default)\<rparr>) = (Inr (), w1) \<and>
     ms_obj (w_store w1) ''g'' = Some [7] \<and> do_lookup map_operator (demo_clock 3) 1 ''g'' w1 = (Inl (Err ENOENT), w2)"
proof -
  let ?w = "(demo_world [(''f'', [7])])\<lparr>meta_cache := put_negative 1 ''g'' (mc_new metadata_cache_config_default)\<rparr>"
  have p: "child_paths 1 ''f'' ?w = (Inr (''f'', ''f''), ?w)" "child_paths 1 ''g'' ?w = (Inr (''g'', ''g''), ?w)"
    using demo_root by (simp_all add: child_paths_Inr join_path_def)
  have g: "get_inode (inode_mgr (demo_world [(''f'', [7])])) ''f'' = None"
    by (simp add: get_inode_def im_new_def im_init_root_def Let_def)
  then have im: "im_rename c ''f'' ''g'' (inode_mgr (demo_world [(''f'', [7])])) = inode_mgr (demo_world [(''f'', [7])])" for c
    by (simp add: im_rename_def get_inode_def Let_def)
  obtain w1 where r: "do_rename map_operator (demo_clock 2) 1 ''f'' 1 ''g'' ?w = (Inr (), w1)"
      "ms_obj (w_store w1) ''g'' = Some [7]" "inode_mgr w1 = inode_mgr (demo_world [(''f'', [7])])"
    using p im by (simp add: do_rename_def in_net_def Let_def)
  have "im_get_path (inode_mgr w1) 1 = Some []" using r(3) demo_root by simp
  from rename_leaves_negative_entry [OF r(1) this, of 1 "demo_clock 3"]
  obtain w2 where "do_lookup map_operator (demo_clock 3) 1 ''g'' w1 = (Inl (Err ENOENT), w2)"
    by (auto simp: join_path_def put_negative_def mc_new_def demo_clock_def elapsed_def metadata_cache_config_default_def)
  with r(1,2) show ?thesis by blast
qed


section \<open>Removal\<close>

lemma do_unlink_effect:
  assumes "do_unlink op parent name w = (Inr u, w1)"
  shows "\<exists>pp mt s. im_get_path (inode_mgr w) parent = Some pp \<and>
     oc_delete op (obs_path (w_config w) (join_path pp name)) (w_metrics w, w_store w) = (Inr (), (mt, s)) \<and>
     write_buf w1 = write_buf w \<and> w_store w1 = s"
proof -
  obtain pp where pp: "im_get_path (inode_mgr w) parent = Some pp"
    using assms by (cases "im_get_path (inode_mgr w) parent") (simp_all add: do_unlink_def child_paths_def get_path_def)
  let ?path = "obs_path (w_config w) (join_path pp name)"
  have cp: "child_paths parent name w = (Inr (join_path pp name, ?path), w)" using pp by (simp add: child_paths_Inr)
  obtain x mt s where d: "oc_delete op ?path (w_metrics w, w_store w) = (x, (mt, s))" by (metis prod.exhaust)
  then have n: "in_net (oc_delete op ?path) w = (x, w\<lparr>w_metrics := mt, w_store := s\<rparr>)" by (simp add: in_net_def)
  obtain v where x: "x = Inr v" using assms cp n by (cases x) (simp_all add: do_unlink_def)
  have "write_buf (forget_file q w2) = write_buf w2 \<and> w_store (forget_file q w2) = w_store w2" for q and w2 :: "'a world"
    by (simp add: forget_file_def split: option.split)
  with assms cp n x pp d show ?thesis by (auto simp: do_unlink_def Let_def)
qed

text \<open>C33 (an open file comes back after its removal): a file has bytes buffered by sequential writes that
  have not gone multipart (a multipart buffer stores nothing, C31). Unlinking it deletes its object but keeps
  these bytes, and the release of a handle that is still open, when it succeeds, stores them: the removed
  object exists again, with exactly the buffered bytes.\<close>

theorem release_after_unlink_restores:
  assumes "faithful_store op obj" "do_unlink op parent name w = (Inr (), w1)"
    and "im_get_path (inode_mgr w) parent = Some pp" "dash_get (wb_buffers (write_buf w)) i = Some b"
    and "collects (obs_path (w_config w) (join_path pp name)) off data b" "data \<noteq> []"
    and "do_release op i fh w1 = (Inr (), w2)"
  shows "obj (w_store w1) (obs_path (w_config w) (join_path pp name)) = None \<and>
     obj (w_store w2) (obs_path (w_config w) (join_path pp name)) = Some data"
proof -
  let ?path = "obs_path (w_config w) (join_path pp name)"
  obtain mt s where d: "oc_delete op ?path (w_metrics w, w_store w) = (Inr (), (mt, s))"
      "write_buf w1 = write_buf w" "w_store w1 = s"
    using do_unlink_effect [OF assms(2)] assms(3) by auto
  have "obj s = (obj (w_store w))(?path := None)"
    using assms(1) d(1) unfolding faithful_store_def oc_delete_def
    by (cases rule: obs_call_cases [of "op_delete op ?path (w_store w)" "inc_obs_delete (w_metrics w)"]) auto
  moreover have "obj (w_store w2) = (obj (w_store w1))(?path \<mapsto> data)"
    using do_release_put [OF assms(1,7) _ assms(5,6)] d(2) assms(4) by simp
  ultimately show ?thesis using d(3) by simp
qed

definition written_world :: "map_store world" where
  "written_world = (demo_world [(''f'', [])])\<lparr>write_buf := wb_new \<lparr>buffer_size = 16, flush_interval = secs 30,
       multipart_threshold = 32, wbc_part_size = 8\<rparr>\<lparr>wb_buffers := [(2, busy_buffer)]\<rparr>\<rparr>"

lemma release_after_unlink_restores_witness:
  "\<exists>w1 w2. do_unlink map_operator 1 ''f'' written_world = (Inr (), w1) \<and> ms_obj (w_store w1) ''f'' = None \<and>
     do_release map_operator 2 1 w1 = (Inr (), w2) \<and> ms_obj (w_store w2) ''f'' = Some [1, 2, 3]"
proof -
  have root: "im_get_path (inode_mgr written_world) 1 = Some []" "obs_path (w_config written_world) (join_path [] ''f'') = ''f''"
    using demo_root by (simp_all add: written_world_def join_path_def)
  have cp: "child_paths 1 ''f'' written_world = (Inr (''f'', ''f''), written_world)"
    using root by (simp add: child_paths_Inr join_path_def)
  have buf: "dash_get (wb_buffers (write_buf written_world)) 2 = Some busy_buffer"
      "collects ''f'' 3 [1, 2, 3] busy_buffer"
    by (simp_all add: written_world_def busy_buffer_def file_write_buffer_new_def collects_def)
  obtain w1 where u: "do_unlink map_operator 1 ''f'' written_world = (Inr (), w1)" "ms_broken (w_store w1) = []"
    using cp by (simp add: do_unlink_def in_net_def written_world_def forget_file_def Let_def split: option.split)
  have w1: "dash_get (wb_buffers (write_buf w1)) 2 = Some busy_buffer"
    using do_unlink_effect [OF u(1)] buf(1) by auto
  obtain w2 where "do_release map_operator 2 1 w1 = (Inr (), w2)"
    using do_release_succeeds [OF w1 buf(2) _ map_write [OF u(2)]] by auto
  with release_after_unlink_restores [OF map_operator_faithful u(1) root(1) buf(1) _ _ this] buf(2) root(2) u(1)
  show ?thesis by auto
qed

text \<open>Every result of removing a directory: ENOENT when the parent is unknown, EIO when the listing fails,
  ENOTEMPTY when it lists an object that is neither the marker of the directory nor has a path ending in
  slash and dot, and success otherwise, whatever the deletion returns.\<close>

theorem rmdir_result:
  "fst (do_rmdir op parent name w) =
     (case im_get_path (inode_mgr w) parent of
        None \<Rightarrow> Inl (Err ENOENT)
      | Some pp \<Rightarrow>
          (let dir = as_dir (obs_path (w_config w) (join_path pp name))
           in case fst (oc_list op dir (w_metrics w, w_store w)) of
                Inl e \<Rightarrow> Inl (Err EIO)
              | Inr es \<Rightarrow>
                  if list_all (\<lambda>e. om_path e = dir \<or> ends_with_str ''/.'' (om_path e)) es
                  then Inr () else Inl (Err ENOTEMPTY)))"
proof (cases "im_get_path (inode_mgr w) parent")
  case None
  then show ?thesis by (simp add: do_rmdir_def child_paths_def get_path_def)
next
  case (Some pp)
  let ?path = "obs_path (w_config w) (join_path pp name)"
  have cp: "child_paths parent name w = (Inr (join_path pp name, ?path), w)" using Some by (simp add: child_paths_Inr)
  obtain x mt s where l: "oc_list op (as_dir ?path) (w_metrics w, w_store w) = (x, (mt, s))" by (metis prod.exhaust)
  have n: "in_net (oc_list op (as_dir ?path)) w = (x, w\<lparr>w_metrics := mt, w_store := s\<rparr>)" using l by (simp add: in_net_def)
  show ?thesis
  proof (cases x)
    case (Inl e)
    then obtain k where "e = Err k" using oc_errs(5) [of op "as_dir ?path" "(w_metrics w, w_store w)"] l by auto
    with Inl Some cp n l show ?thesis by (simp add: do_rmdir_def Let_def)
  next
    case (Inr es)
    have "filter (\<lambda>e. om_path e \<noteq> as_dir ?path \<and> \<not> ends_with_str ''/.'' (om_path e)) es = [] \<longleftrightarrow>
        list_all (\<lambda>e. om_path e = as_dir ?path \<or> ends_with_str ''/.'' (om_path e)) es"
      by (auto simp: filter_empty_conv list_all_iff)
    with Inr Some cp n l show ?thesis by (simp add: do_rmdir_def Let_def)
  qed
qed

text \<open>C29 (a failed removal of a directory is reported as done): when the listing of a directory has only
  its marker, or objects whose paths end in slash and dot, and the store refuses to delete the marker, rmdir
  still reports success. The store is as the failed request left it, so the marker is still there in a store
  that a failed request does not change, and the path of the directory and its inode are forgotten.\<close>

theorem rmdir_ignores_failed_delete:
  assumes "im_wf (inode_mgr w)" "im_get_path (inode_mgr w) parent = Some pp"
    and "dir = as_dir (obs_path (w_config w) (join_path pp name))"
    and "oc_list op dir (w_metrics w, w_store w) = (Inr es, net)"
    and "\<forall>e \<in> set es. om_path e = dir \<or> ends_with_str ''/.'' (om_path e)"
    and "oc_delete op dir net = (Inl e, (mt, s))"
  shows "\<exists>w'. do_rmdir op parent name w = (Inr (), w') \<and> w_store w' = s \<and>
     get_inode (inode_mgr w') (join_path pp name) = None \<and>
     (\<forall>i. get_inode (inode_mgr w) (join_path pp name) = Some i \<longrightarrow> im_get_path (inode_mgr w') i = None)"
proof -
  let ?p = "join_path pp name"
  have cp: "child_paths parent name w = (Inr (?p, obs_path (w_config w) ?p), w)" using assms(2) by (simp add: child_paths_Inr)
  obtain mt1 s1 where net: "net = (mt1, s1)" by (rule prod.exhaust)
  have l: "in_net (oc_list op dir) w = (Inr es, w\<lparr>w_metrics := mt1, w_store := s1\<rparr>)"
    using assms(4) net by (simp add: in_net_def)
  have d: "in_net (oc_delete op dir) (w\<lparr>w_metrics := mt1, w_store := s1\<rparr>) = (Inl e, w\<lparr>w_metrics := mt, w_store := s\<rparr>)"
    using assms(6) net by (simp add: in_net_def)
  have f: "filter (\<lambda>e. om_path e \<noteq> dir \<and> \<not> ends_with_str ''/.'' (om_path e)) es = []"
    using assms(5) by (auto simp: filter_empty_conv)
  show ?thesis
  proof (cases "get_inode (inode_mgr w) ?p")
    case None
    then show ?thesis using cp l d f assms(3) by (simp add: do_rmdir_def Let_def)
  next
    case (Some i)
    then have g: "im_get_path (inode_mgr w) i = Some (normalize_path ?p)"
      using im_wf_inverse [OF assms(1)] by (simp add: get_inode_def)
    then have r: "get_inode (im_remove i (inode_mgr w)) ?p = None" "im_get_path (im_remove i (inode_mgr w)) i = None"
      by (auto simp: get_inode_def im_remove_def im_get_path_def split: option.splits)
    then show ?thesis using cp l d f assms(3) Some by (simp add: do_rmdir_def Let_def)
  qed
qed

definition refusing_operator :: "map_store operator" where
  "refusing_operator = map_operator\<lparr>op_delete := (\<lambda>p s. (Inl OdUnexpected, s))\<rparr>"

lemma rmdir_ignores_failed_delete_witness:
  "\<exists>w'. do_rmdir refusing_operator 1 ''d''
       ((demo_world [(''d/'', [])])\<lparr>inode_mgr :=
          snd (get_or_create_inode (demo_clock 1) ''d'' True 0 (inode_mgr (demo_world [])))\<rparr>) = (Inr (), w') \<and>
     ms_obj (w_store w') ''d/'' = Some [] \<and> get_inode (inode_mgr w') ''d'' = None"
proof -
  let ?im = "snd (get_or_create_inode (demo_clock 1) ''d'' True 0 (inode_mgr (demo_world [])))"
  let ?w = "(demo_world [(''d/'', [])])\<lparr>inode_mgr := ?im\<rparr>"
  have wf: "im_wf (inode_mgr ?w)" 
    using im_wf_get_or_create [OF demo_wf] by (simp add: demo_defs im_new_def im_init_root_def ROOT_INODE_def Let_def)
  have root: "im_get_path (inode_mgr ?w) 1 = Some []" using get_or_create_path [OF demo_wf] demo_root by simp
  have dir: "''d/'' = as_dir (obs_path (w_config ?w) (join_path [] ''d''))"
    by (simp add: join_path_def as_dir_def trim_end_matches_def)
  have w: "w_store ?w = \<lparr>ms_objects = [(''d/'', [])], ms_broken = []\<rparr>" by simp
  obtain m1 net where l: "oc_list refusing_operator ''d/'' (w_metrics ?w, w_store ?w) = (Inr [m1], net)" "om_path m1 = ''d/''"
      "snd net = w_store ?w"
    unfolding w by (simp add: oc_list_def refusing_operator_def map_operator_def from_opendal_def)
  obtain mt where d: "oc_delete refusing_operator ''d/'' net = (Inl (Err (Storage OdUnexpected)), (mt, w_store ?w))"
    using l(3) by (cases net) (simp add: oc_delete_def refusing_operator_def)
  from rmdir_ignores_failed_delete [OF wf root dir l(1) _ d] l(2) w show ?thesis by (auto simp: join_path_def)
qed

end
