(* ===== verification/Paging.thy ===== *)
theory Paging
  imports Lifecycle
begin

text \<open>
  The pages of a directory listing: \<open>do_readdir\<close> of src/src/fs/core.rs is called again with the offset
  of the last entry of the page before, and lists the directory anew each time.
\<close>

text \<open>What a page shows of an entry, the complete listing of objects with consecutive offsets, and what
  the loop of \<open>do_readdir\<close> shows of it.\<close>

type_synonym shown_entry = "string \<times> file_kind \<times> int"

definition dent_view :: "dir_entry \<Rightarrow> shown_entry" where
  "dent_view e = (dent_name e, dent_kind e, dent_offset e)"

definition shown_kind :: "object_meta \<Rightarrow> file_kind" where
  "shown_kind m = (if om_is_dir m then Directory else RegularFile)"

definition dots_view :: "shown_entry list" where
  "dots_view = [(''.'', Directory, 1), (''..'', Directory, 2)]"

fun listing_view :: "int \<Rightarrow> object_meta list \<Rightarrow> shown_entry list" where
  "listing_view k [] = []"
| "listing_view k (m # ms) =
     (if skip_name (om_name m) then listing_view k ms
      else (om_name m, shown_kind m, k) # listing_view (k + 1) ms)"

fun page_view :: "int \<Rightarrow> int \<Rightarrow> object_meta list \<Rightarrow> shown_entry list" where
  "page_view off k [] = []"
| "page_view off k (m # ms) =
     (if k \<le> off then page_view off (k + 1) ms
      else if skip_name (om_name m) then page_view off k ms
      else (om_name m, shown_kind m, k) # page_view off (k + 1) ms)"

lemma readdir_loop_view:
  "map dent_view (fst (readdir_loop c path off k ms w)) = page_view off k ms"
  by (induction ms arbitrary: k w)
    (simp_all add: dent_view_def dir_entry_new_def shown_kind_def split: prod.split, metis fst_conv)

lemma page_view_filter:
  "list_all (\<lambda>m. \<not> skip_name (om_name m)) ms \<Longrightarrow>
     page_view off k ms = filter (\<lambda>(n, t, o1). off < o1) (listing_view k ms)"
  by (induction ms arbitrary: k) simp_all

lemma listing_view_offsets:
  "(n, t, o1) \<in> set (listing_view k ms) \<Longrightarrow> k \<le> o1 \<and> o1 < k + int (length ms)"
proof (induction ms arbitrary: k)
  case (Cons m ms)
  from Cons.prems Cons.IH [of k] Cons.IH [of "k + 1"] show ?case by (auto split: if_splits)
qed simp

lemma dot_entries_view: "map dent_view (dot_entries i path off im) = filter (\<lambda>(n, t, o1). off < o1) dots_view"
  by (simp add: dot_entries_def dots_view_def dot_def dotdot_def dir_entry_new_def dent_view_def)

definition lists :: "'s operator \<Rightarrow> 's world \<Rightarrow> u64 \<Rightarrow> object_meta list \<Rightarrow> bool" where
  "lists op w i metas \<longleftrightarrow> (\<exists>path. im_get_path (inode_mgr w) i = Some path \<and>
     fst (in_net (oc_list_dir op (let p = obs_path (w_config w) path in if p = [] then [] else as_dir p)) w) = Inr metas)"

lemma do_readdir_view:
  assumes "lists op w i metas"
  shows "\<exists>es w1. do_readdir op c i off w = (Inr es, w1) \<and>
     map dent_view es = filter (\<lambda>(n, t, o1). off < o1) dots_view @ page_view off 3 metas"
proof -
  obtain path where p: "im_get_path (inode_mgr w) i = Some path"
      "fst (in_net (oc_list_dir op (let p = obs_path (w_config w) path in if p = [] then [] else as_dir p)) w) = Inr metas"
    using assms by (auto simp: lists_def)
  then obtain w1 where n: "in_net (oc_list_dir op (let p = obs_path (w_config w) path in if p = [] then [] else as_dir p)) w
      = (Inr metas, w1)" by (metis prod.collapse)
  obtain es ins w2 where l: "readdir_loop c path off 3 metas w1 = (es, ins, w2)" by (metis prod.exhaust)
  then have "map dent_view es = page_view off 3 metas" using readdir_loop_view [of c path off 3 metas w1] by simp
  then show ?thesis
    using p n l by (simp add: do_readdir_def get_path_def Let_def dot_entries_view)
qed

text \<open>C14 (the pages of a directory): when no listed object has an empty name or the name of a dot entry,
  the page after an offset is exactly the part of the complete listing, the two dot entries and then
  the objects with consecutive offsets from 3, that lies beyond the offset: resuming at the offset of
  the last entry of a page neither repeats nor loses an entry.\<close>

theorem readdir_pages:
  assumes "lists op w i metas" "list_all (\<lambda>m. \<not> skip_name (om_name m)) metas"
  shows "\<exists>es w1. do_readdir op c i off w = (Inr es, w1) \<and>
     map dent_view es = filter (\<lambda>(n, t, o1). off < o1) (dots_view @ listing_view 3 metas)"
  using do_readdir_view [OF assms(1)] page_view_filter [OF assms(2)] by simp

text \<open>A nameless object repeats an entry: when the listing starts with an object of empty name, as
  the marker of the directory is, the first page shows every other object, and resuming at the offset
  of its last entry shows that entry a second time, under the next offset.\<close>

theorem nameless_entry_repeats_last:
  assumes "lists op w i (m # ms)" "lists op w' i (m # ms)" "skip_name (om_name m)"
    and "list_all (\<lambda>m. \<not> skip_name (om_name m)) ms" "ms \<noteq> []"
  shows "\<exists>es w1 e es' w1'. do_readdir op c i 0 w = (Inr es, w1) \<and>
     map dent_view es = dots_view @ listing_view 3 ms \<and> e = last es \<and>
     do_readdir op c' i (dent_offset e) w' = (Inr es', w1') \<and>
     map dent_view es' = [(dent_name e, dent_kind e, dent_offset e + 1)]"
proof -
  obtain es w1 where 1: "do_readdir op c i 0 w = (Inr es, w1)"
      "map dent_view es = filter (\<lambda>(n, t, o1). 0 < o1) dots_view @ page_view 0 3 (m # ms)"
    using do_readdir_view [OF assms(1)] by blast
  have all: "filter (\<lambda>(n, t, o1). 0 < o1) (listing_view 3 ms) = listing_view 3 ms"
    using listing_view_offsets [of _ _ _ 3 ms] by (fastforce simp: filter_id_conv)
  have v: "map dent_view es = dots_view @ listing_view 3 ms"
    using 1(2) assms(3) page_view_filter [OF assms(4), of 0 3] all by (simp add: dots_view_def)
  obtain ys y where ms: "ms = ys @ [y]" using assms(5) by (metis append_butlast_last_id)
  have ext: "listing_view k (xs @ [y]) = listing_view k xs @ [(om_name y, shown_kind y, k + int (length xs))]"
    if "list_all (\<lambda>m. \<not> skip_name (om_name m)) xs" for k xs
    using that assms(4) ms by (induction xs arbitrary: k) (simp_all add: list_all_iff)
  have yss: "list_all (\<lambda>m. \<not> skip_name (om_name m)) ys" using assms(4) ms by (simp add: list_all_iff)
  define n where "n = 3 + int (length ys)"
  have "es \<noteq> []" "dent_view (last es) = (om_name y, shown_kind y, n)"
    using v ext [OF yss, of 3] ms by (auto simp: n_def dots_view_def) (metis last_map last_ConsR last_snoc list.map_disc_iff append_is_Nil_conv list.distinct(1))
  then have e: "dent_name (last es) = om_name y" "dent_kind (last es) = shown_kind y" "dent_offset (last es) = n"
    by (simp_all add: dent_view_def)
  obtain es' w1' where 2: "do_readdir op c' i n w' = (Inr es', w1')"
      "map dent_view es' = filter (\<lambda>(m, t, o1). n < o1) dots_view @ page_view n 3 (m # ms)"
    using do_readdir_view [OF assms(2)] by blast
  have none: "filter (\<lambda>(a, t, o1). n < o1) (listing_view 4 ys) = []"
    using listing_view_offsets [of _ _ _ 4 ys] by (fastforce simp: filter_empty_conv n_def)
  have "page_view n 3 (m # ms) = filter (\<lambda>(a, t, o1). n < o1) (listing_view 4 ms)"
    using page_view_filter [OF assms(4), of n 4] by (simp add: n_def)
  also have "\<dots> = [(om_name y, shown_kind y, n + 1)]"
    using ext [OF yss, of 4] none ms by (simp add: n_def)
  finally have "map dent_view es' = [(om_name y, shown_kind y, n + 1)]"
    using 2(2) by (simp add: dots_view_def n_def)
  then show ?thesis using 1(1) v 2(1) e by metis
qed


text \<open>Listings of the sample store.\<close>

definition demo_meta :: "string \<Rightarrow> bytes \<Rightarrow> object_meta" where
  "demo_meta p d = from_opendal p
     \<lparr>content_length = len64 d, last_modified = None, od_is_dir = ends_with slash p, content_type = None, etag = None\<rparr>"

lemma demo_lists:
  "lists map_operator (demo_world [(''f'', [7]), (''g'', [])]) 1 [demo_meta ''f'' [7], demo_meta ''g'' []]"
  "lists map_operator (demo_world [(''/'', []), (''f'', [7])]) 1 [demo_meta ''/'' [], demo_meta ''f'' [7]]"
  using demo_root
  by (simp_all add: lists_def in_net_def oc_list_dir_def map_operator_def dir_prefix_def obs_call_def demo_meta_def)

lemma demo_names:
  "om_name (demo_meta ''f'' d) = ''f''" "om_name (demo_meta ''g'' d) = ''g''" "om_name (demo_meta ''/'' d) = []"
  "shown_kind (demo_meta ''f'' d) = RegularFile" "shown_kind (demo_meta ''g'' d) = RegularFile"
  by (simp_all add: om_name_def demo_meta_def from_opendal_def trim_end_matches_def shown_kind_def ends_with_def)

lemma readdir_pages_witness:
  "\<exists>es w1. do_readdir map_operator (demo_clock 1) 1 2 (demo_world [(''f'', [7]), (''g'', [])]) = (Inr es, w1) \<and>
     map dent_view es = [(''f'', RegularFile, 3), (''g'', RegularFile, 4)]"
  using readdir_pages [OF demo_lists(1), of "demo_clock 1" 2] by (simp add: demo_names skip_name_def dots_view_def)

lemma nameless_entry_repeats_last_witness:
  "\<exists>es w1 es' w1'. do_readdir map_operator (demo_clock 1) 1 0 (demo_world [(''/'', []), (''f'', [7])]) = (Inr es, w1) \<and>
     map dent_view es = [(''.'', Directory, 1), (''..'', Directory, 2), (''f'', RegularFile, 3)] \<and>
     do_readdir map_operator (demo_clock 2) 1 3 (demo_world [(''/'', []), (''f'', [7])]) = (Inr es', w1') \<and>
     map dent_view es' = [(''f'', RegularFile, 4)]"
proof -
  obtain es w1 es' w1' where
      1: "do_readdir map_operator (demo_clock 1) 1 0 (demo_world [(''/'', []), (''f'', [7])]) = (Inr es, w1)"
      "map dent_view es = dots_view @ listing_view 3 [demo_meta ''f'' [7]]" and
      2: "do_readdir map_operator (demo_clock 2) 1 (dent_offset (last es)) (demo_world [(''/'', []), (''f'', [7])]) = (Inr es', w1')"
      "map dent_view es' = [(dent_name (last es), dent_kind (last es), dent_offset (last es) + 1)]"
    using nameless_entry_repeats_last [OF demo_lists(2) demo_lists(2), of "demo_clock 1" "demo_clock 2"]
    by (auto simp: demo_names skip_name_def)
  have es: "map dent_view es = [(''.'', Directory, 1), (''..'', Directory, 2), (''f'', RegularFile, 3)]"
    using 1(2) by (simp add: demo_names skip_name_def dots_view_def)
  then obtain x y z where "es = [x, y, z]" "dent_view z = (''f'', RegularFile, 3)" by auto
  with 1(1) 2 es show ?thesis by (auto simp: dent_view_def)
qed

end
