(* ===== verification/WinFspProps.thy ===== *)
theory WinFspProps
  imports WinFspRuns Paging
begin

text \<open>
  What holds of the WinFSP front end: every admissible call is answered, an opened path leads to its
  own inode, file times survive, directory listings resume at a marker; and where removal, file
  sizes and access rights differ from what the caller asks for.
\<close>

section \<open>Executions\<close>

definition outcome :: "'a io_result \<times> 'w \<Rightarrow> nt_status abort option \<times> 'w" where
  "outcome r = (case r of (Inl e, w) \<Rightarrow> (Some e, w) | (Inr _, w) \<Rightarrow> (None, w))"

text \<open>A call from a world, with its failure if any and the next world. The side conditions are those
  of the FUSE requests, and file times below 2 to the power 63.\<close>

inductive winfsp_call ::
  "'s operator \<Rightarrow> 's world \<Rightarrow> nt_status abort option \<times> 's world \<Rightarrow> bool" for op where
  by_name: "room (depth (winfsp_normalize_path name)) w \<Longrightarrow>
     winfsp_call op w (outcome (winfsp_get_security_by_name op c name w))"
| opened: "room (depth (winfsp_normalize_path name)) w \<Longrightarrow> handle_room w \<Longrightarrow>
     winfsp_call op w (outcome (winfsp_open op c name access w))"
| created: "split_last (winfsp_normalize_path name) = (pn, cn) \<Longrightarrow> room (depth pn + 1) w \<Longrightarrow> handle_room w \<Longrightarrow>
     good_name cn \<Longrightarrow> winfsp_call op w (outcome (winfsp_create op c name options access attrs w))"
| closed: "winfsp_call op w (outcome (winfsp_close op ctx w))"
| got: "winfsp_call op w (outcome (winfsp_read op c ctx buffer offset w))"
| written: "winfsp_call op w (outcome (winfsp_write op c ctx buffer offset w))"
| flushed: "winfsp_call op w (outcome (winfsp_flush op c ctx w))"
| info: "winfsp_call op w (outcome (winfsp_get_file_info op c ctx w))"
| basic_info: "ct < 2 ^ 63 \<Longrightarrow> la < 2 ^ 63 \<Longrightarrow> lw < 2 ^ 63 \<Longrightarrow> ch < 2 ^ 63 \<Longrightarrow>
     winfsp_call op w (outcome (winfsp_set_basic_info op c ctx ct la lw ch w))"
| resized: "winfsp_call op w (outcome (winfsp_set_file_size op c ctx n allocation w))"
| overwritten: "winfsp_call op w (outcome (winfsp_overwrite op c ctx w))"
| delete_asked: "room (listing_size op (ctx_inode ctx) w) w \<Longrightarrow>
     winfsp_call op w (outcome (winfsp_can_delete op c ctx w))"
| renamed: "win_rename_free ctx name w \<Longrightarrow> winfsp_call op w (outcome (winfsp_rename op c ctx name w))"
| listed: "room (listing_size op (ctx_inode ctx) w) w \<Longrightarrow>
     winfsp_call op w (outcome (winfsp_read_directory op c fallback add ctx marker (b :: (string \<times> file_info) list) w))"
| cleaned: "im_get_path (inode_mgr w) (ctx_inode ctx) \<noteq> Some [] \<Longrightarrow>
     winfsp_call op w (outcome (winfsp_cleanup op ctx flags w))"
| prefetched: "winfsp_call op w (None, run_prefetch op c n w)"

inductive winfsp_reachable :: "'s operator \<Rightarrow> 's world \<Rightarrow> 's world \<Rightarrow> bool" for op w0 where
  fresh: "winfsp_reachable op w0 w0"
| called: "winfsp_reachable op w0 w \<Longrightarrow> winfsp_call op w (f, w') \<Longrightarrow> winfsp_reachable op w0 w'"

definition call_ok :: "'s world \<Rightarrow> nt_status abort option \<times> 's world \<Rightarrow> bool" where
  "call_ok w x \<longleftrightarrow> world_ok (snd x) \<and> settings (snd x) = settings w \<and>
     (serves w \<longrightarrow> fst x \<in> {None, Some (Err STATUS_OBJECT_NAME_NOT_FOUND),
        Some (Err STATUS_DIRECTORY_NOT_EMPTY), Some (Err STATUS_UNSUCCESSFUL)})"

lemma outcome_ok: "win_keeps w r \<Longrightarrow> call_ok w (outcome r)"
  by (cases r; cases "fst r") (auto simp: win_keeps_def outcome_def win_answers_def call_ok_def)

lemmas win_keeps_handlers = win_keeps_security_by_name win_keeps_open win_keeps_create win_keeps_close win_keeps_data
  win_keeps_info win_keeps_basic_info win_keeps_can_delete win_keeps_rename win_keeps_read_directory win_keeps_cleanup

lemma winfsp_call_ok: "winfsp_call op w x \<Longrightarrow> world_ok w \<Longrightarrow> call_ok w x"
  by (induction rule: winfsp_call.induct)
    (blast intro: outcome_ok win_keeps_handlers | simp add: call_ok_def keeps_prefetch)+

lemma winfsp_reachable_ok:
  "winfsp_reachable op w0 w \<Longrightarrow> world_ok w0 \<Longrightarrow> world_ok w \<and> settings w = settings w0"
  by (induction rule: winfsp_reachable.induct) (use winfsp_call_ok in \<open>fastforce simp: call_ok_def\<close>)+

text \<open>C8 (every Windows call is answered): in every world that a sequence of admissible calls and
  prefetch tasks reaches from a fresh file system, with the settings of the FUSE case, a further
  admissible call returns a value or one of the statuses for a missing name, a directory that is not
  empty and an unsuccessful operation, never with a panic and never not at all, and the tables stay
  consistent: a path belongs to an inode exactly when its entry carries the path.\<close>

theorem winfsp_calls_answered:
  assumes "winfsp_reachable op (core_new c0 d cfg mt s) w" "validate cfg = Inr ()"
    and "multipart_part_size (cfg_performance cfg) \<noteq> 0" "(ucast (max_write (cfg_fuse cfg)) :: u32) \<noteq> 0"
    and "winfsp_call op w (f, w')"
  shows "f \<in> {None, Some (Err STATUS_OBJECT_NAME_NOT_FOUND), Some (Err STATUS_DIRECTORY_NOT_EMPTY),
       Some (Err STATUS_UNSUCCESSFUL)} \<and>
     (get_inode (inode_mgr w') path = Some i \<longleftrightarrow> im_get_path (inode_mgr w') i = Some (normalize_path path)) \<and>
     im_get_path (inode_mgr w') ROOT_INODE = Some []"
proof -
  have ok: "world_ok w" "settings w = settings (core_new c0 d cfg mt s)"
    using winfsp_reachable_ok [OF assms(1) core_new_ok] by simp_all
  have "serves (core_new c0 d cfg mt s)"
    using assms(2-4) by (simp add: serves_def core_new_def dc_new_def wb_new_def write_buffer_config_from_def
        validate_Inr_iff Let_def unat_gt_0)
  then have "serves w" using serves_settings [OF ok(2)] by simp
  with winfsp_call_ok [OF assms(5) ok(1)] show ?thesis
    using im_wf_get_inode [of "inode_mgr w'"] by (simp add: call_ok_def world_ok_def im_ok_def)
qed

lemma winfsp_calls_answered_witness:
  "\<exists>f w. winfsp_call map_operator served_world (f, w) \<and> f \<noteq> Some Panic \<and> im_get_path (inode_mgr w) ROOT_INODE = Some []"
proof -
  let ?x = "outcome (winfsp_flush map_operator (demo_clock 1) \<lparr>ctx_inode = 7, ctx_fh = 1, ctx_is_dir = False\<rparr> served_world)"
  obtain f w where x: "?x = (f, w)" by (rule prod.exhaust)
  have c: "winfsp_call map_operator served_world (f, w)" unfolding x [symmetric] by (rule flushed)
  have "f \<in> {None, Some (Err STATUS_OBJECT_NAME_NOT_FOUND), Some (Err STATUS_DIRECTORY_NOT_EMPTY), Some (Err STATUS_UNSUCCESSFUL)} \<and>
      (get_inode (inode_mgr w) [] = Some 1 \<longleftrightarrow> im_get_path (inode_mgr w) 1 = Some (normalize_path [])) \<and>
      im_get_path (inode_mgr w) ROOT_INODE = Some []"
    by (rule winfsp_calls_answered [OF _ served_facts(1-3) c, of "demo_clock 0" demo_disk metrics_new
          "\<lparr>ms_objects = [], ms_broken = []\<rparr>"]) (simp add: served_world_def [symmetric] fresh)
  with c show ?thesis by auto
qed

section \<open>Opening by path\<close>

lemma do_lookup_inode:
  assumes "do_lookup op c parent name w = (Inr (i, a), w')" "world_ok w" "room 1 w" "good_name name"
    and "im_get_path (inode_mgr w) parent = Some p"
  shows "im_get_path (inode_mgr w') i = Some (join_path p name)"
proof -
  let ?p = "join_path p name"
  have n: "normalize_path ?p = ?p" using im_ok_child [OF world_okD(2) [OF assms(2)] assms(5,4)] by simp
  obtain b mc where neg: "is_negative (now_mono c) ?p (meta_cache w) = (b, mc)" by (rule prod.exhaust)
  let ?w2 = "w\<lparr>meta_cache := mc\<rparr>"
  have "mc_ok mc" using mc_ok_ops(6) [OF world_okD(1) [OF assms(2)], of "now_mono c" ?p] neg by simp
  then have w2: "world_ok ?w2" using assms(2) by (simp add: world_ok_def)
  obtain x w3 where l: "lookup_cached c ?p ?w2 = (x, w3)" by (rule prod.exhaust)
  have f: "inode_mgr w3 = inode_mgr w \<and> world_ok w3 \<and> (\<forall>j a. x = Some (j, a) \<longrightarrow> get_inode (inode_mgr w) ?p = Some j)"
    using l w2 by (auto simp: lookup_cached_def dest: in_meta_get_attr split: option.splits prod.splits)
  have nb: "\<not> b" using assms(1,5) neg by (cases b) (simp_all add: do_lookup_def get_path_def)
  show ?thesis
  proof (cases x)
    case (Some y)
    then have "get_inode (inode_mgr w) ?p = Some i" "w' = w3"
      using assms(1,5) neg nb l f by (auto simp: do_lookup_def get_path_def Let_def)
    then show ?thesis
      using im_wf_get_inode [of "inode_mgr w" ?p i] world_okD(2) [OF assms(2)] n f by (simp add: im_ok_def)
  next
    case None
    then have lr: "lookup_remote op c ?p w3 = (Inr (i, a), w')"
      using assms(1,5) neg nb l by (simp add: do_lookup_def get_path_def Let_def)
    have rem: "im_get_path (inode_mgr w') i = Some ?p"
      if "remember c ?p d sz g v = ((i, a), w')" "world_ok v" "inode_mgr v = inode_mgr w" "\<And>j. fa_ino (g j) = j" for d sz g v
      using remember_keeps [OF that(1,2) _ that(4)] that(3) assms(3) n by (simp add: room_def)
    obtain r1 v1 where n1: "in_net (oc_stat op (obs_path (w_config w3) ?p)) w3 = (r1, v1)" by (rule prod.exhaust)
    obtain r2 v2 where n2: "in_net (oc_stat op (as_dir (obs_path (w_config w3) ?p))) v1 = (r2, v2)" by (rule prod.exhaust)
    obtain r3 v3 where n3: "in_net (oc_list op (as_dir (obs_path (w_config w3) ?p))) v2 = (r3, v3)" by (rule prod.exhaust)
    have v: "world_ok v1" "inode_mgr v1 = inode_mgr w" "world_ok v2" "inode_mgr v2 = inode_mgr w" "world_ok v3" "inode_mgr v3 = inode_mgr w"
      using in_net_keeps [OF n1] in_net_keeps [OF n2] in_net_keeps [OF n3] f by simp_all
    show ?thesis
      using lr n1 n2 n3
      by (cases r1; cases r2; cases r3)
        (auto simp: lookup_remote_def Let_def split: prod.splits list.splits
          intro: rem [OF _ v(1,2)] rem [OF _ v(3,4)] rem [OF _ v(5,6)])
  qed
qed

lemma walk_path:
  assumes "walk op c i parts w = (Inr j, w')" "world_ok w" "room (length parts) w" "list_all good_name parts"
    and "im_get_path (inode_mgr w) i = Some p"
  shows "im_get_path (inode_mgr w') j = Some (foldl join_path p parts)"
  using assms
proof (induction parts arbitrary: i w p)
  case (Cons part parts)
  obtain x w1 where l: "do_lookup op c i part w = (x, w1)" by (rule prod.exhaust)
  obtain k a where x: "x = Inr (k, a)" using Cons.prems(1) l by (cases x) auto
  have r: "room 1 w" "room (Suc (length parts)) w" using Cons.prems(3) by (simp_all add: room_def)
  have "world_ok w1" using keeps_lookup [OF Cons.prems(2) r(1), of op c i part] l by (simp add: keeps_def)
  moreover have "room (length parts) w1" using do_lookup_room [OF l r(2)] by simp
  moreover have "im_get_path (inode_mgr w1) k = Some (join_path p part)"
    using do_lookup_inode [OF l [unfolded x] Cons.prems(2) r(1) _ Cons.prems(5)] Cons.prems(4) by simp
  ultimately show ?case using Cons.IH [of k w1 "join_path p part"] Cons.prems(1,4) l x by simp
qed simp

lemma join_path_good:
  "list_all good_name (parts @ [n]) \<Longrightarrow> foldl join_path [] (parts @ [n]) = join_with [slash] (parts @ [n])"
proof (induction parts arbitrary: n rule: rev_induct)
  case (snoc q parts)
  then have e: "foldl join_path [] (parts @ [q]) = join_with [slash] (parts @ [q])" by (simp add: list_all_iff)
  have q: "q \<noteq> []" "\<not> ends_with slash q"
    using snoc.prems by (auto simp: good_name_def ends_with_def list_all_iff) (metis last_in_set)
  have "join_with [slash] (parts @ [q]) \<noteq> [] \<and> \<not> ends_with slash (join_with [slash] (parts @ [q]))"
    using q by (cases "parts = []") (auto simp: join_with_snoc ends_with_def)
  then have "join_path (join_with [slash] (parts @ [q])) n = join_with [slash] (parts @ [q]) @ [slash] @ n"
    by (simp add: join_path_def trim_end_no_end)
  also have "\<dots> = join_with [slash] ((parts @ [q]) @ [n])" by (subst join_with_snoc) simp_all
  finally show ?case using e by (simp only: foldl_append foldl.simps)
qed (simp add: join_path_def)

lemma path_parts_good: "list_all good_name (path_parts path)"
  using split_on_pieces [of _ slash path] by (auto simp: path_parts_def good_name_def list_all_iff)

lemma find_path_resolves:
  assumes "find_path op c path w = (Inr i, w')" "world_ok w" "room (depth path) w"
  shows "im_get_path (inode_mgr w') i = Some (join_with [slash] (path_parts path))"
proof -
  have root: "im_get_path (inode_mgr w) ROOT_INODE = Some []" using world_okD(2) [OF assms(2)] by (simp add: im_ok_def)
  have "foldl join_path [] (path_parts path) = join_with [slash] (path_parts path)"
    using join_path_good path_parts_good [of path] by (cases "path_parts path" rule: rev_cases) auto
  moreover have "im_get_path (inode_mgr w') i = Some (foldl join_path [] (path_parts path))"
  proof (cases "path = []")
    case True
    with assms(1) root show ?thesis by (simp add: find_path_def path_parts_def)
  next
    case False
    with walk_path [of op c ROOT_INODE "path_parts path" w i w' "[]"] assms root path_parts_good show ?thesis
      by (simp add: find_path_def depth_def)
  qed
  ultimately show ?thesis by simp
qed

text \<open>C9 (an opened path leads to its own file): a successful open of a Windows path, in every reachable
  world with room for the inodes of the path, yields a context whose inode carries exactly the path asked
  for, with forward slashes and without empty components, and whose handle is in the table with the open
  flags that the code derives from the granted access: read only whenever the read bit is set, also when the
  write bit is set with it (not read and write, see the findings), write only for the write bit alone, and
  read and write for neither.\<close>

theorem winfsp_open_resolves:
  assumes "winfsp_reachable op (core_new c0 d cfg mt s) w"
    and "room (depth (winfsp_normalize_path name)) w"
    and "winfsp_open op c name access w = (Inr ofi, w')"
  shows "im_get_path (inode_mgr w') (ctx_inode (ofi_context ofi)) =
       Some (join_with [slash] (path_parts (winfsp_normalize_path name))) \<and>
     hm_get (handle_mgr w') (ctx_fh (ofi_context ofi)) =
       Some (handle_state_new (now_mono c) (ctx_inode (ofi_context ofi))
         (if access AND 0x80000000 \<noteq> 0 then O_RDONLY else if access AND 0x40000000 \<noteq> 0 then O_WRONLY else O_RDWR)
         (ctx_is_dir (ofi_context ofi)))"
proof -
  have ok: "world_ok w" using winfsp_reachable_ok [OF assms(1) core_new_ok] by simp
  obtain x w1 where f: "find_path op c (winfsp_normalize_path name) w = (x, w1)" by (rule prod.exhaust)
  obtain i where x: "x = Inr i" using assms(3) f by (cases x) (simp_all add: winfsp_open_def)
  obtain y w2 where g: "do_getattr op c i w1 = (y, w2)" by (rule prod.exhaust)
  obtain a where y: "y = Inr a" using assms(3) f x g by (cases y) (simp_all add: winfsp_open_def)
  have p: "im_get_path (inode_mgr w2) i = Some (join_with [slash] (path_parts (winfsp_normalize_path name)))"
    using find_path_resolves [OF f [unfolded x] ok assms(2)] do_getattr_frame [OF g] by simp
  show ?thesis
    using assms(3) f x g y p
    by (auto simp: winfsp_open_def do_open_def do_opendir_def hm_open_def hm_get_def access_flags_def Let_def split: if_splits)
qed

section \<open>File times\<close>

text \<open>What a file time becomes: zero leaves the old one, and a time before 1970 becomes 1970.\<close>

definition kept_time :: "u64 \<Rightarrow> u64 \<Rightarrow> u64" where
  "kept_time t old = (if t = 0 then old else max EPOCH_DIFF t)"

lemma set_filetime_shown:
  assumes "t < 2 ^ 63"
  shows "t \<noteq> 0 \<Longrightarrow> \<exists>st. system_time_of_timestamp_win (from_filetime t) = Some st \<and> filetime_of st = max EPOCH_DIFF t"
proof (cases "t < EPOCH_DIFF")
  case True
  have "filetime_of 0 = EPOCH_DIFF" using filetime_of_hundreds [of 0] by (simp add: EPOCH_DIFF_def)
  with True show ?thesis by (simp add: system_time_of_early_filetime max_def not_le [symmetric])
next
  case False
  then have e: "EPOCH_DIFF \<le> t" by simp
  have b: "116444736000000000 \<le> unat t" using e by (simp add: word_le_nat_alt epoch_diff)
  have "unat t < 2 ^ 63" using assms by (simp add: word_less_nat_alt)
  then have "system_time_of_timestamp_win (from_filetime t) = Some (int ((unat t - 116444736000000000) * 100))"
    using system_time_of_filetime [OF e] by simp
  moreover have "filetime_of (int ((unat t - 116444736000000000) * 100)) = of_nat (unat t)"
    using filetime_of_hundreds [of "unat t - 116444736000000000"] b unat_u64_bound [of t] by simp
  ultimately show ?thesis using e by (simp add: max_def)
qed

lemma late_filetime:
  assumes "2 ^ 63 \<le> t" shows "system_time_of_timestamp_win (from_filetime t) = None"
proof -
  have u: "2 ^ 63 \<le> unat t" using assms by (simp add: word_le_nat_alt)
  then have "EPOCH_DIFF \<le> t" by (simp add: word_le_nat_alt epoch_diff)
  with u show ?thesis by (simp add: system_time_of_filetime)
qed

lemma set_filetime_cases:
  "set_filetime t f a =
     (if t = 0 then Some a else if 2 ^ 63 \<le> t then None
      else Some (f (the (system_time_of_timestamp_win (from_filetime t))) a))"
  using late_filetime [of t] set_filetime_shown [of t] by (auto simp: set_filetime_def not_le)

lemma kept_time_shown:
  "t \<noteq> 0 \<Longrightarrow> \<not> 2 ^ 63 \<le> t \<Longrightarrow> filetime_of (the (system_time_of_timestamp_win (from_filetime t))) = kept_time t old"
  using set_filetime_shown [of t] by (auto simp: kept_time_def not_le)

lemma apply_basic_info_cases:
  "apply_basic_info ct la lw ch a =
     (if 2 ^ 63 \<le> ct \<or> 2 ^ 63 \<le> la \<or> 2 ^ 63 \<le> lw \<or> 2 ^ 63 \<le> ch then None
      else Some (a\<lparr>fa_crtime := if ct = 0 then fa_crtime a else the (system_time_of_timestamp_win (from_filetime ct)),
                   fa_atime := if la = 0 then fa_atime a else the (system_time_of_timestamp_win (from_filetime la)),
                   fa_mtime := if lw = 0 then fa_mtime a else the (system_time_of_timestamp_win (from_filetime lw)),
                   fa_ctime := if ch = 0 then fa_ctime a else the (system_time_of_timestamp_win (from_filetime ch))\<rparr>))"
  by (simp add: apply_basic_info_def set_filetime_cases)

text \<open>C16 (file times survive): setting the times of a file with cached attributes panics when one of them
  is 2 to the power 63 or more. Otherwise the answer shows the old information with every time that is
  not zero replaced by exactly the time given, or by the start of 1970 when it is earlier, and asking
  again within the time to live shows the same.\<close>

theorem set_basic_info_times:
  assumes "in_meta (get_attr (now_mono c) (ctx_inode ctx)) w = (Some a, w0)"
  shows "(if 2 ^ 63 \<le> ct \<or> 2 ^ 63 \<le> la \<or> 2 ^ 63 \<le> lw \<or> 2 ^ 63 \<le> ch
     then winfsp_set_basic_info op c ctx ct la lw ch w = (Inl Panic, w0)
     else \<exists>w1. winfsp_set_basic_info op c ctx ct la lw ch w =
         (Inr ((build_file_info a)\<lparr>fi_creation_time := kept_time ct (fi_creation_time (build_file_info a)),
                 fi_last_access_time := kept_time la (fi_last_access_time (build_file_info a)),
                 fi_last_write_time := kept_time lw (fi_last_write_time (build_file_info a)),
                 fi_change_time := kept_time ch (fi_change_time (build_file_info a))\<rparr>), w1) \<and>
       (elapsed (now_mono c') (now_mono c) \<le> attr_ttl (mc_config (meta_cache w0)) \<longrightarrow>
          fst (winfsp_get_file_info op c' ctx w1) = fst (winfsp_set_basic_info op c ctx ct la lw ch w)))"
proof (cases "2 ^ 63 \<le> ct \<or> 2 ^ 63 \<le> la \<or> 2 ^ 63 \<le> lw \<or> 2 ^ 63 \<le> ch")
  case True
  then have "apply_basic_info ct la lw ch a = None" by (simp add: apply_basic_info_cases)
  with True assms show ?thesis by (simp add: winfsp_set_basic_info_def)
next
  case False
  define a1 where "a1 = a\<lparr>fa_crtime := if ct = 0 then fa_crtime a else the (system_time_of_timestamp_win (from_filetime ct)),
                   fa_atime := if la = 0 then fa_atime a else the (system_time_of_timestamp_win (from_filetime la)),
                   fa_mtime := if lw = 0 then fa_mtime a else the (system_time_of_timestamp_win (from_filetime lw)),
                   fa_ctime := if ch = 0 then fa_ctime a else the (system_time_of_timestamp_win (from_filetime ch))\<rparr>"
  have ap: "apply_basic_info ct la lw ch a = Some a1" using False by (simp add: apply_basic_info_cases a1_def)
  have z: "kept_time 0 old = old" for old by (simp add: kept_time_def)
  have info: "build_file_info a1 = (build_file_info a)\<lparr>fi_creation_time := kept_time ct (fi_creation_time (build_file_info a)),
                 fi_last_access_time := kept_time la (fi_last_access_time (build_file_info a)),
                 fi_last_write_time := kept_time lw (fi_last_write_time (build_file_info a)),
                 fi_change_time := kept_time ch (fi_change_time (build_file_info a))\<rparr>"
    using False by (simp add: build_file_info_def a1_def z kept_time_shown)
  let ?w1 = "w0\<lparr>meta_cache := put_attr (now_mono c) (ctx_inode ctx) a1 (meta_cache w0)\<rparr>"
  have s: "winfsp_set_basic_info op c ctx ct la lw ch w = (Inr (build_file_info a1), ?w1)"
    using assms ap by (simp add: winfsp_set_basic_info_def)
  have "fst (winfsp_get_file_info op c' ctx ?w1) = Inr (build_file_info a1)"
    if "elapsed (now_mono c') (now_mono c) \<le> attr_ttl (mc_config (meta_cache w0))"
    using put_attr_get [of "now_mono c" "ctx_inode ctx" a1 "meta_cache w0"] that
    by (simp add: winfsp_get_file_info_def do_getattr_def in_meta_def get_attr_def cached_attr_new_def ca_is_expired_def Let_def)
  with False s info show ?thesis by auto
qed

section \<open>Sizes\<close>

lemma do_truncate_meta: "do_truncate op c i n w = (r, w1) \<Longrightarrow> meta_cache w1 = meta_cache w"
  by (auto simp: do_truncate_def and_then_def or_errno_def get_path_def in_wb_def split: sum.splits prod.splits option.splits)

text \<open>A resized file shows its old size: setting the size of a file whose attributes are cached, or
  overwriting it, answers with the cached information, so with the old size, whatever the new one is.\<close>

theorem resize_reports_old_size:
  assumes "fst (get_attr (now_mono c) (ctx_inode ctx) (meta_cache w, mt)) = Some a"
    and "fst (do_truncate op c (ctx_inode ctx) n w) = Inr ()" "fst (do_truncate op c (ctx_inode ctx) 0 w) = Inr ()"
  shows "fst (winfsp_set_file_size op c ctx n allocation w) = Inr (build_file_info a) \<and>
     fst (winfsp_overwrite op c ctx w) = Inr (build_file_info a)"
proof -
  have hit: "fst (winfsp_get_file_info op c ctx w1) = Inr (build_file_info a)" if "meta_cache w1 = meta_cache w" for w1 :: "'a world"
    using assms(1) that
    by (auto simp: winfsp_get_file_info_def do_getattr_def in_meta_def get_attr_def Let_def split: option.splits if_splits)
  obtain w1 w2 where t: "do_truncate op c (ctx_inode ctx) n w = (Inr (), w1)" "do_truncate op c (ctx_inode ctx) 0 w = (Inr (), w2)"
    using assms(2,3) by (metis prod.collapse)
  show ?thesis
    using hit [OF do_truncate_meta [OF t(1)]] hit [OF do_truncate_meta [OF t(2)]] hit [OF refl] t
    by (simp add: winfsp_set_file_size_def winfsp_overwrite_def)
qed

section \<open>Directories\<close>

text \<open>The listing of a directory is the plain listing of its prefix.\<close>

lemma list_dir_as_dir: "oc_list_dir op (as_dir p) = oc_list op (as_dir p)"
  by (simp add: oc_list_dir_def oc_list_def as_dir_def dir_prefix_def ends_with_def)

lemma can_delete_listed:
  assumes "ctx_is_dir ctx" "lists op w (ctx_inode ctx) metas" "m \<in> set metas" "\<not> skip_name (om_name m)"
  shows "fst (winfsp_can_delete op c ctx w) = Inl (Err STATUS_DIRECTORY_NOT_EMPTY)"
proof -
  obtain es w1 where r: "do_readdir op c (ctx_inode ctx) 0 w = (Inr es, w1)"
      "map dent_view es = filter (\<lambda>(n, t, o1). 0 < o1) dots_view @ page_view 0 3 metas"
    using do_readdir_view [OF assms(2)] by blast
  have v: "\<exists>t o1. (om_name m, t, o1) \<in> set (page_view 0 k metas)" if "0 < k" for k
    using assms(3,4) that
  proof (induction metas arbitrary: k)
    case (Cons a metas)
    have "m \<in> set metas \<Longrightarrow> \<exists>t o1. (om_name m, t, o1) \<in> set (page_view 0 j metas)" if "0 < j" for j
      using Cons.IH [OF _ Cons.prems(2) that] by blast
    from this [of k] this [of "k + 1"] Cons.prems show ?case by auto
  qed simp
  have "\<exists>t o1. (om_name m, t, o1) \<in> set (map dent_view es)" unfolding r(2) using v [of 3] by auto
  then obtain t o1 where "(om_name m, t, o1) \<in> set (map dent_view es)" by blast
  then obtain e where "e \<in> set es" "dent_name e = om_name m" by (auto simp: dent_view_def)
  with assms(4) have "filter (\<lambda>e. dent_name e \<noteq> ''.'' \<and> dent_name e \<noteq> ''..'') es \<noteq> []"
    unfolding filter_empty_conv skip_name_def by metis
  with assms(1) r show ?thesis by (simp add: winfsp_can_delete_def Let_def)
qed

lemma rmdir_markers:
  assumes "im_get_path (inode_mgr w) parent = Some pp" "dir = as_dir (obs_path (w_config w) (join_path pp name))"
    and "fst (oc_list op dir (w_metrics w, w_store w)) = Inr metas" "list_all (\<lambda>m. om_path m = dir) metas"
  shows "fst (do_rmdir op parent name w) = Inr ()"
proof -
  let ?path = "obs_path (w_config w) (join_path pp name)"
  have cp: "child_paths parent name w = (Inr (join_path pp name, ?path), w)" using assms(1) by (simp add: child_paths_Inr)
  obtain mt s where l: "oc_list op dir (w_metrics w, w_store w) = (Inr metas, (mt, s))" using assms(3) by (metis prod.collapse)
  have "filter (\<lambda>e. om_path e \<noteq> dir \<and> \<not> ends_with_str ''/.'' (om_path e)) metas = []"
    using assms(4) by (auto simp: filter_empty_conv list_all_iff)
  with cp l assms(2) show ?thesis by (simp add: do_rmdir_def in_net_def Let_def)
qed

lemma om_name_dir:
  assumes "om_path m = as_dir q" "trim_end_matches slash q = q"
  shows "om_name m = last (split_on slash q)"
proof -
  have "trim_end_matches slash (q @ [slash]) = trim_end_matches slash q" by (simp add: trim_end_matches_def)
  with assms show ?thesis by (simp add: om_name_def as_dir_def)
qed

text \<open>C30 (an empty directory cannot be deleted): with no object prefix configured, a directory whose listing consists of its own marker
  object, as after its creation, can be removed by the core, but the Windows front end reports it as
  not empty: the marker is listed as an entry with the directory's own name.\<close>

theorem marker_blocks_delete:
  assumes "im_get_path (inode_mgr w) parent = Some pp" "im_get_path (inode_mgr w) (ctx_inode ctx) = Some (join_path pp name)"
    and "ctx_is_dir ctx" "good_name name" "name \<noteq> ''.''" "name \<noteq> ''..''" "obs_prefix (cfg_obs (w_config w)) = None"
    and "fst (oc_list op (as_dir (join_path pp name)) (w_metrics w, w_store w)) = Inr metas"
    and "metas \<noteq> []" "list_all (\<lambda>m. om_path m = as_dir (join_path pp name)) metas"
  shows "fst (do_rmdir op parent name w) = Inr () \<and>
     fst (winfsp_can_delete op c ctx w) = Inl (Err STATUS_DIRECTORY_NOT_EMPTY)"
proof -
  let ?q = "join_path pp name"
  have path: "obs_path (w_config w) ?q = ?q" using assms(7) by (simp add: obs_path_def)
  have name: "slash \<notin> set name" "name \<noteq> []" using assms(4) by (simp_all add: good_name_def)
  have last: "last (split_on slash ?q) = name" using name(1) by (simp add: join_path_def split_on_append split_on_no_sep)
  have "last name \<noteq> slash" using name by (metis last_in_set)
  then have "\<not> ends_with slash ?q" using name(2) by (simp add: join_path_def ends_with_def)
  then have trim: "trim_end_matches slash ?q = ?q" by (rule trim_end_no_end)
  have "?q \<noteq> []" using name(2) by (simp add: join_path_def)
  then have "lists op w (ctx_inode ctx) metas"
    using assms(2,8) path by (simp add: lists_def list_dir_as_dir in_net_fst Let_def)
  moreover obtain m where m: "m \<in> set metas" using assms(9) by (cases metas) auto
  moreover have "om_name m = name" using om_name_dir [OF _ trim, of m] m assms(10) last by (simp add: list_all_iff)
  ultimately show ?thesis
    using can_delete_listed [OF assms(3), of op w metas m c] rmdir_markers [where name = name and op = op, OF assms(1) refl, of metas] assms path name
    by (simp add: skip_name_def)
qed

text \<open>The directory loop with a callback that takes every entry.\<close>

definition take_all :: "(string \<times> file_info) list \<Rightarrow> string \<times> file_info \<Rightarrow> (string \<times> file_info) list \<times> bool" where
  "take_all b x = (b @ [x], True)"

lemma do_getattr_returns: "\<not> (\<exists>e. fst (do_getattr op c i w) = Inl e \<and> (\<forall>k. e \<noteq> Err k))"
proof -
  obtain x w1 where m: "in_meta (get_attr (now_mono c) i) (w\<lparr>w_metrics := inc_getattr_ops (w_metrics w)\<rparr>) = (x, w1)"
    by (rule prod.exhaust)
  show ?thesis
  proof (cases x)
    case None
    show ?thesis
    proof (cases "im_get_path (inode_mgr w1) i")
      case (Some p)
      obtain y mt s where s: "oc_stat op (obs_path (w_config w1) p) (w_metrics w1, w_store w1) = (y, (mt, s))" by (metis prod.exhaust)
      have "errs_only y" using oc_errs(1) [of op "obs_path (w_config w1) p" "(w_metrics w1, w_store w1)"] s by simp
      with None Some m s show ?thesis
        by (cases y) (auto simp: do_getattr_def get_path_def in_net_def Let_def errs_only_def stat_errno_def)
    qed (use m None in \<open>simp add: do_getattr_def get_path_def\<close>)
  qed (use m in \<open>simp add: do_getattr_def\<close>)
qed

lemma directory_loop_names:
  "\<exists>b' w'. directory_loop op c fallback take_all marker past es b w = (Inr b', w') \<and>
     map fst b' = map fst b @ (if past then map dent_name es
       else case marker of None \<Rightarrow> [] | Some m \<Rightarrow> tl (dropWhile (\<lambda>n. n \<noteq> m) (map dent_name es)))"
proof (induction es arbitrary: past b w)
  case Nil
  then show ?case by (auto split: option.split)
next
  case (Cons e es)
  show ?case
  proof (cases past)
    case False
    then have l: "directory_loop op c fallback take_all marker past (e # es) b w =
        directory_loop op c fallback take_all marker (marker = Some (dent_name e)) es b w" by simp
    show ?thesis
      unfolding l using Cons.IH [of "marker = Some (dent_name e)" b w] False by (auto split: option.splits)
  next
    case True
    obtain r w1 where g: "do_getattr op c (dent_inode e) w = (r, w1)" by (rule prod.exhaust)
    obtain attr where a: "(case or_status (do_getattr op c (dent_inode e) w) of
        (Inl (Err _), w1) \<Rightarrow> (Inr fallback, w1) | r \<Rightarrow> r) = (Inr attr, w1)"
    proof (cases r)
      case (Inl x)
      then obtain k where "x = Err k" using do_getattr_returns [of op c "dent_inode e" w] g by auto
      with Inl g that [of fallback] show ?thesis by simp
    qed (use g that in simp)
    from Cons.IH [of True "b @ [(dent_name e, build_file_info attr)]" w1] a True show ?thesis
      by (simp add: take_all_def)
  qed
qed

text \<open>C15 (a directory read resumes at its marker): a directory read that takes every entry returns, when
  the listing succeeds, exactly the names of the complete listing after the first occurrence of the
  marker, all of them without a marker, and none when no entry has the marker's name, whatever
  happens to the attributes of the entries.\<close>

theorem read_directory_resumes:
  assumes "lists op w (ctx_inode ctx) metas" "list_all (\<lambda>m. \<not> skip_name (om_name m)) metas"
  shows "\<exists>b w'. winfsp_read_directory op c fallback take_all ctx marker [] w = (Inr b, w') \<and>
     map fst b = (let names = [''.'', ''..''] @ map om_name metas
                  in case marker of None \<Rightarrow> names | Some m \<Rightarrow> tl (dropWhile (\<lambda>n. n \<noteq> m) names))"
proof -
  obtain es w1 where r: "do_readdir op c (ctx_inode ctx) 0 w = (Inr es, w1)"
      "map dent_view es = filter (\<lambda>(n, t, o1). 0 < o1) dots_view @ page_view 0 3 metas"
    using do_readdir_view [OF assms(1)] by blast
  have "map fst (page_view 0 k metas) = map om_name metas" if "0 < k" for k
    using assms(2) that by (induction metas arbitrary: k) simp_all
  then have "map fst (map dent_view es) = [''.'', ''..''] @ map om_name metas"
    unfolding r(2) by (simp add: dots_view_def)
  then have names: "map dent_name es = [''.'', ''..''] @ map om_name metas" by (simp add: dent_view_def o_def)
  from directory_loop_names [of op c fallback marker "marker = None" es "[]" w1] r(1) names show ?thesis
    by (auto simp: winfsp_read_directory_def Let_def split: option.splits)
qed

section \<open>Witnesses\<close>

definition file_ctx :: file_context where
  "file_ctx = \<lparr>ctx_inode = 2, ctx_fh = 1, ctx_is_dir = False\<rparr>"

definition demo_attr :: file_attr where
  "demo_attr = fa_file 0 2 5 420 0 0"

text \<open>The sample world with the file f or the directory d in its tables.\<close>

definition known_world :: "string \<Rightarrow> (string \<times> bytes) list \<Rightarrow> map_store world" where
  "known_world p objs = (demo_world objs)
     \<lparr>inode_mgr := snd (get_or_create_inode (demo_clock 0) p False 5 (inode_mgr (demo_world []))),
      meta_cache := put_attr 0 2 demo_attr (mc_new metadata_cache_config_default)\<rparr>"

lemma known_world_facts:
  "im_get_path (inode_mgr (known_world ''f'' objs)) 2 = Some ''f''"
  "fst (get_attr 0 2 (meta_cache (known_world p objs), mt)) = Some demo_attr"
  "mc_config (meta_cache (known_world p objs)) = metadata_cache_config_default"
  "w_store (known_world p objs) = \<lparr>ms_objects = objs, ms_broken = []\<rparr>" "obs_path (w_config (known_world p objs)) q = q"
proof -
  show "im_get_path (inode_mgr (known_world ''f'' objs)) 2 = Some ''f''"
    by (simp add: known_world_def get_or_create_inode_def im_create_def im_new_def im_init_root_def
        ROOT_INODE_def Let_def im_get_path_def new_entry_def)
  show "fst (get_attr 0 2 (meta_cache (known_world p objs), mt)) = Some demo_attr"
      "mc_config (meta_cache (known_world p objs)) = metadata_cache_config_default"
    using put_attr_get [of 0 2 demo_attr "mc_new metadata_cache_config_default"]
    by (simp_all add: known_world_def get_attr_def cached_attr_new_def ca_is_expired_def elapsed_def Let_def mc_new_def)
qed (simp_all add: known_world_def)

lemma resize_reports_old_size_witness:
  "fst (winfsp_set_file_size map_operator (demo_clock 0) file_ctx 9 False (known_world ''f'' [(''f'', [1])])) =
     Inr (build_file_info demo_attr) \<and> fi_file_size (build_file_info demo_attr) = 5"
proof -
  have "fst (do_truncate map_operator (demo_clock 0) 2 9 (known_world ''f'' [(''f'', [1])])) = Inr ()"
      "fst (do_truncate map_operator (demo_clock 0) 2 0 (known_world ''f'' [(''f'', [1])])) = Inr ()"
    using known_world_facts(1) [of "[(''f'', [1])]"]
    by (simp_all add: do_truncate_def get_path_def in_wb_def wb_truncate_def get_or_create_def truncate_locked_def
        known_world_facts Let_def split: prod.split)
  with resize_reports_old_size [of "demo_clock 0" file_ctx "known_world ''f'' [(''f'', [1])]" metrics_new demo_attr map_operator 9 False]
  show ?thesis by (simp add: file_ctx_def known_world_facts demo_clock_def) (simp add: build_file_info_def demo_attr_def fa_file_def)
qed

lemma set_basic_info_times_witness:
  "\<exists>w1. winfsp_set_basic_info map_operator (demo_clock 0) file_ctx 0 0 132000000000000000 0 (known_world ''f'' []) =
     (Inr ((build_file_info demo_attr)\<lparr>fi_last_write_time := 132000000000000000\<rparr>), w1)"
proof -
  obtain mc mt where "get_attr 0 2 (meta_cache (known_world ''f'' []), w_metrics (known_world ''f'' [])) = (Some demo_attr, (mc, mt))"
    using known_world_facts(2) by (metis prod.collapse)
  then have "in_meta (get_attr (now_mono (demo_clock 0)) (ctx_inode file_ctx)) (known_world ''f'' []) =
      (Some demo_attr, (known_world ''f'' [])\<lparr>meta_cache := mc, w_metrics := mt\<rparr>)"
    by (simp add: in_meta_def file_ctx_def demo_clock_def)
  from set_basic_info_times [OF this, of 0 0 132000000000000000 0 map_operator "demo_clock 0"]
  show ?thesis by (auto simp: kept_time_def EPOCH_DIFF_def max_def)
qed

lemma read_directory_resumes_witness:
  "\<exists>b w'. winfsp_read_directory map_operator (demo_clock 1) demo_attr take_all \<lparr>ctx_inode = 1, ctx_fh = 1, ctx_is_dir = True\<rparr>
       (Some ''f'') [] (demo_world [(''f'', [7]), (''g'', [])]) = (Inr b, w') \<and> map fst b = [''g'']"
  using read_directory_resumes [of map_operator "demo_world [(''f'', [7]), (''g'', [])]"
      "\<lparr>ctx_inode = 1, ctx_fh = 1, ctx_is_dir = True\<rparr>" "[demo_meta ''f'' [7], demo_meta ''g'' []]" "demo_clock 1" demo_attr "Some ''f''"]
    demo_lists(1)
  by (simp add: demo_names skip_name_def)

lemma marker_blocks_delete_witness:
  "let w = known_world ''d'' [(''d/'', [])]; ctx = \<lparr>ctx_inode = 2, ctx_fh = 1, ctx_is_dir = True\<rparr>
   in fst (do_rmdir map_operator 1 ''d'' w) = Inr () \<and>
      fst (winfsp_can_delete map_operator (demo_clock 1) ctx w) = Inl (Err STATUS_DIRECTORY_NOT_EMPTY)"
proof -
  let ?w = "known_world ''d'' [(''d/'', [])]"
  have n: "normalize_path ''d'' = ''d''" "as_dir ''d'' = ''d/''"
    by (simp_all add: normalize_path_def as_dir_def trim_matches_def trim_start_matches_def trim_end_matches_def)
  have p: "im_get_path (inode_mgr ?w) 1 = Some []" "im_get_path (inode_mgr ?w) 2 = Some ''d''"
    by (simp_all add: known_world_def get_or_create_inode_def im_create_def im_new_def im_init_root_def n
        ROOT_INODE_def Let_def im_get_path_def new_entry_def)
  have l: "fst (oc_list map_operator ''d/'' (w_metrics ?w, w_store ?w)) = Inr [demo_meta ''d/'' []]"
    by (simp add: known_world_facts oc_list_def map_operator_def obs_call_def demo_meta_def)
  from marker_blocks_delete [of ?w 1 "[]" "\<lparr>ctx_inode = 2, ctx_fh = 1, ctx_is_dir = True\<rparr>" "''d''" map_operator _ "demo_clock 1"] p l n
  show ?thesis
    by (simp add: join_path_def good_name_def demo_meta_def from_opendal_def known_world_def demo_defs)
qed

lemma getattr_stored:
  assumes "im_get_path (inode_mgr w) i = Some p" "obs_path (w_config w) p = p" "ms_obj (w_store w) p = Some d"
  shows "\<exists>a w1. do_getattr map_operator c i w = (Inr a, w1)"
proof -
  obtain x mc mt where g: "get_attr (now_mono c) i (meta_cache w, inc_getattr_ops (w_metrics w)) = (x, (mc, mt))"
    by (metis prod.exhaust)
  show ?thesis
    using g assms
    by (cases x) (auto simp: do_getattr_def in_meta_def get_path_def in_net_def oc_stat_def map_operator_def obs_call_def Let_def)
qed

lemma winfsp_open_resolves_witness:
  "\<exists>ofi w'. winfsp_open map_operator (demo_clock 1) [CHR 0x5C, CHR ''f''] 0xC0000000 (demo_world [(''f'', [7])]) = (Inr ofi, w') \<and>
     im_get_path (inode_mgr w') (ctx_inode (ofi_context ofi)) = Some ''f'' \<and>
     map_option hs_flags (hm_get (handle_mgr w') (ctx_fh (ofi_context ofi))) = Some O_RDONLY"
proof -
  let ?w = "demo_world [(''f'', [7])]"
  have n: "winfsp_normalize_path [CHR 0x5C, CHR ''f''] = ''f''"
    by (simp add: winfsp_normalize_path_def trim_start_matches_def replace_char_def)
  have parts: "path_parts ''f'' = [''f'']" by (simp add: path_parts_def)
  have r: "room (depth (winfsp_normalize_path [CHR 0x5C, CHR ''f''])) ?w"
    by (simp add: n depth_def parts room_def im_new_def im_init_root_def ROOT_INODE_def Let_def)
  obtain i a w1 where l: "do_lookup map_operator (demo_clock 1) 1 ''f'' ?w = (Inr (i, a), w1)"
      "w_store w1 = w_store ?w" "w_config w1 = w_config ?w"
    using demo_lookup by blast
  have ok: "world_ok ?w" using core_new_ok by (simp add: demo_world_def)
  have rm: "room 1 ?w" by (simp add: room_def im_new_def im_init_root_def ROOT_INODE_def Let_def)
  have "im_get_path (inode_mgr w1) i = Some ''f''"
    using do_lookup_inode [OF l(1) ok rm _ demo_root] by (simp add: join_path_def good_name_def)
  then obtain b w2 where g: "do_getattr map_operator (demo_clock 1) i w1 = (Inr b, w2)"
    using getattr_stored [of w1 i "''f''" "[7]" "demo_clock 1"] l(2,3) by auto
  have "\<exists>ofi w'. winfsp_open map_operator (demo_clock 1) [CHR 0x5C, CHR ''f''] 0xC0000000 ?w = (Inr ofi, w')"
    using l(1) g by (simp add: winfsp_open_def n find_path_def parts ROOT_INODE_def Let_def split: prod.split)
  then obtain ofi w' where o: "winfsp_open map_operator (demo_clock 1) [CHR 0x5C, CHR ''f''] 0xC0000000 ?w = (Inr ofi, w')" by blast
  have "winfsp_reachable map_operator (core_new (demo_clock 0) demo_disk demo_config metrics_new
      \<lparr>ms_objects = [(''f'', [7])], ms_broken = []\<rparr>) ?w"
    by (simp add: demo_world_def fresh)
  from winfsp_open_resolves [OF this r o] o show ?thesis by (simp add: n parts handle_state_new_def)
qed

end
