(* ===== verification/Replies.thy ===== *)
theory Replies
  imports FuseProps Paging
begin

text \<open>
  The typing of replies: which reply of the FUSE front end (src/src/fs/fuse_impl.rs) fits a request,
  given the worlds before and after it, and that every successful reply of a reachable world fits.
\<close>

section \<open>Which reply fits a request\<close>

definition names_child :: "'s world \<Rightarrow> 's world \<Rightarrow> u64 \<Rightarrow> string \<Rightarrow> u64 \<Rightarrow> bool" where
  "names_child w w' parent name i \<longleftrightarrow> (\<exists>p. im_get_path (inode_mgr w) parent = Some p \<and>
     im_get_path (inode_mgr w') i = Some (join_path p name))"

definition opened_on :: "'s world \<Rightarrow> u64 \<Rightarrow> u64 \<Rightarrow> u32 \<Rightarrow> bool \<Rightarrow> bool" where
  "opened_on w fh i flags is_dir \<longleftrightarrow> (\<exists>h. hm_get (handle_mgr w) fh = Some h \<and>
     hs_inode h = i \<and> hs_flags h = flags \<and> hs_is_dir h = is_dir)"

definition offsets_ascend :: "int \<Rightarrow> int list \<Rightarrow> bool" where
  "offsets_ascend offset os \<longleftrightarrow> sorted_wrt (<) os \<and> (\<forall>k\<in>set os. offset < k)"

definition follows_request :: "set_attr \<Rightarrow> fuse_attr \<Rightarrow> bool" where
  "follows_request s a \<longleftrightarrow>
     (\<forall>m. set_mode s = Some m \<longrightarrow> fu_perm a = perm_bits m) \<and> (\<forall>u. set_uid s = Some u \<longrightarrow> fu_uid a = u) \<and>
     (\<forall>g. set_gid s = Some g \<longrightarrow> fu_gid a = g) \<and> (\<forall>n. set_size s = Some n \<longrightarrow> fu_size a = n)"

fun reply_fits :: "fuse_request \<Rightarrow> fuse_reply \<Rightarrow> 's world \<Rightarrow> 's world \<Rightarrow> bool" where
  "reply_fits ReqInit y w w' = (\<exists>n. y = ReplyInit n \<and> n \<noteq> 0)"
| "reply_fits (ReqLookup parent name) y w w' =
     (\<exists>e. y = ReplyEntry e \<and> names_child w w' parent name (fu_ino (re_attr e)))"
| "reply_fits (ReqGetattr i) y w w' = (\<exists>a. y = ReplyAttr a \<and> fu_ino (rp_attr a) = i)"
| "reply_fits (ReqSetattr i s) y w w' =
     (\<exists>a. y = ReplyAttr a \<and> fu_ino (rp_attr a) = i \<and> follows_request s (rp_attr a))"
| "reply_fits (ReqOpen i flags) y w w' = (\<exists>r. y = ReplyOpen r \<and> opened_on w' (ro_fh r) i flags False)"
| "reply_fits (ReqOpendir i flags) y w w' = (\<exists>r. y = ReplyOpen r \<and> opened_on w' (ro_fh r) i flags True)"
| "reply_fits (ReqRead i fh off sz) y w w' = (\<exists>d. y = ReplyData d)"
| "reply_fits (ReqWrite i fh off d) y w w' = (y = ReplyWrite (of_nat (length d)))"
| "reply_fits (ReqReaddir i off) y w w' = (\<exists>es. y = ReplyDirectory es \<and> offsets_ascend off (map fd_offset es))"
| "reply_fits (ReqCreate parent name mode flags) y w w' =
     (\<exists>r. y = ReplyCreated r \<and> names_child w w' parent name (fu_ino (rc_attr r)) \<and>
        fu_kind (rc_attr r) = kind_to_fuse RegularFile \<and>
        opened_on w' (rc_fh r) (fu_ino (rc_attr r)) flags False)"
| "reply_fits (ReqMkdir parent name mode) y w w' =
     (\<exists>e. y = ReplyEntry e \<and> names_child w w' parent name (fu_ino (re_attr e)) \<and>
        fu_kind (re_attr e) = kind_to_fuse Directory)"
| "reply_fits ReqStatfs y w w' = (\<exists>s. y = ReplyStatFs s)"
| "reply_fits req y w w' = (y = ReplyNone)"

section \<open>Successful runs of the combinators\<close>

lemma map_fs_err_Inr: "map_fs_err r = (Inr a, w) \<longleftrightarrow> r = (Inr a, w)"
  by (auto simp: map_fs_err_def split: prod.splits sum.splits)

lemma with_reply_Inr: "with_reply f r = (Inr x, w) \<longleftrightarrow> (\<exists>a. r = (Inr a, w) \<and> x = f a)"
  by (auto simp: with_reply_def split: prod.splits sum.splits)

lemmas runs_Inr = and_then_Inr map_fs_err_Inr with_reply_Inr

section \<open>Attributes\<close>

lemma to_fuse3_sel [simp]:
  "fu_ino (to_fuse3 a) = fa_ino a" "fu_perm (to_fuse3 a) = fa_perm a" "fu_uid (to_fuse3 a) = fa_uid a"
  "fu_gid (to_fuse3 a) = fa_gid a" "fu_size (to_fuse3 a) = fa_size a" "fu_kind (to_fuse3 a) = kind_to_fuse (fa_kind a)"
  by (simp_all add: to_fuse3_def)

lemma lookup_remote_names:
  assumes "lookup_remote op c q w = (Inr (i, a), w')" "world_ok w" "room 1 w"
  shows "fa_ino a = i \<and> im_get_path (inode_mgr w') i = Some (normalize_path q)"
proof -
  have rem: "fa_ino a = i \<and> im_get_path (inode_mgr w') i = Some (normalize_path q)"
    if "remember c q d sz f w1 = ((i, a), w')" "world_ok w1" "inode_mgr w1 = inode_mgr w" "\<And>i. fa_ino (f i) = i"
    for d sz f w1
    using remember_keeps [OF that(1,2) _ that(4)] assms(3) that(3,4) by (simp add: room_def)
  obtain r1 w1 where n1: "in_net (oc_stat op (obs_path (w_config w) q)) w = (r1, w1)" by (rule prod.exhaust)
  obtain r2 w2 where n2: "in_net (oc_stat op (as_dir (obs_path (w_config w) q))) w1 = (r2, w2)" by (rule prod.exhaust)
  obtain r3 w3 where n3: "in_net (oc_list op (as_dir (obs_path (w_config w) q))) w2 = (r3, w3)" by (rule prod.exhaust)
  note k1 = in_net_keeps [OF n1 assms(2)]
  have k2: "world_ok w2" "inode_mgr w2 = inode_mgr w" using in_net_keeps [OF n2] k1 by auto
  have k3: "world_ok w3" "inode_mgr w3 = inode_mgr w" using in_net_keeps [OF n3] k2 by auto
  show ?thesis
  proof (cases r1)
    case (Inr meta)
    then show ?thesis using assms(1) n1 k1
      by (auto simp: lookup_remote_def Let_def split: prod.splits dest!: rem)
  next
    case 1: (Inl e)
    show ?thesis
    proof (cases r2)
      case (Inr meta)
      then show ?thesis using assms(1) n1 n2 1 k2
        by (auto simp: lookup_remote_def Let_def split: prod.splits dest!: rem)
    next
      case 2: (Inl e2)
      then show ?thesis using assms(1) n1 n2 n3 1 k3
        by (auto simp: lookup_remote_def Let_def split: prod.splits sum.splits list.splits dest!: rem)
    qed
  qed
qed


lemma lookup_names:
  assumes "do_lookup op c parent name w = (Inr (i, a), w')" "world_ok w" "good_name name" "room 1 w"
  shows "fa_ino a = i \<and> names_child w w' parent name i"
proof -
  obtain p where p: "im_get_path (inode_mgr w) parent = Some p"
    using assms(1) by (auto simp: do_lookup_def get_path_def split: option.splits)
  let ?q = "join_path p name"
  have q: "normalize_path ?q = ?q"
    using im_ok_child [OF world_okD(2) [OF assms(2)] p assms(3)] by simp
  obtain b mc where n: "is_negative (now_mono c) ?q (meta_cache w) = (b, mc)" by (rule prod.exhaust)
  let ?w1 = "w\<lparr>meta_cache := mc\<rparr>"
  have "mc_ok mc" using mc_ok_ops(6) [OF world_okD(1) [OF assms(2)], of "now_mono c" ?q] n by simp
  then have w1: "world_ok ?w1" using assms(2) by (simp add: world_ok_def)
  obtain r w2 where l: "lookup_cached c ?q ?w1 = (r, w2)" by (rule prod.exhaust)
  have b: "\<not> b" using assms(1) p n by (auto simp: do_lookup_def get_path_def)
  have k: "world_ok w2 \<and> inode_mgr w2 = inode_mgr w \<and>
      (\<forall>j x. r = Some (j, x) \<longrightarrow> fa_ino x = j \<and> get_inode (inode_mgr w) ?q = Some j)"
  proof (cases "get_inode (inode_mgr w) ?q")
    case None
    with l w1 show ?thesis by (auto simp: lookup_cached_def)
  next
    case (Some j)
    obtain x w3 where g: "in_meta (get_attr (now_mono c) j) ?w1 = (x, w3)" by (rule prod.exhaust)
    from in_meta_get_attr [OF g w1] l Some g show ?thesis by (cases x) (auto simp: lookup_cached_def)
  qed
  have "fa_ino a = i \<and> im_get_path (inode_mgr w') i = Some ?q"
  proof (cases r)
    case None
    then have "lookup_remote op c ?q w2 = (Inr (i, a), w')"
      using assms(1) p n b l by (simp add: do_lookup_def get_path_def)
    moreover have "room 1 w2" using assms(4) k by (simp add: room_def)
    ultimately show ?thesis using lookup_remote_names k q by fastforce
  next
    case (Some y)
    then have "y = (i, a)" "w' = w2" using assms(1) p n b l by (auto simp: do_lookup_def get_path_def)
    with k Some show ?thesis using im_wf_get_inode [of "inode_mgr w" ?q i] world_okD(2) [OF assms(2)] q
      by (simp add: im_ok_def)
  qed
  with p show ?thesis by (simp add: names_child_def)
qed

lemma getattr_names:
  assumes "do_getattr op c i w = (Inr a, w')" "world_ok w"
  shows "fa_ino a = i"
proof -
  obtain r w1 where g: "in_meta (get_attr (now_mono c) i) (w\<lparr>w_metrics := inc_getattr_ops (w_metrics w)\<rparr>) = (r, w1)"
    by (rule prod.exhaust)
  have k: "\<forall>a. r = Some a \<longrightarrow> fa_ino a = i" using in_meta_get_attr [OF g] assms(2) by simp
  show ?thesis
  proof (cases r)
    case None
    then obtain path where p: "im_get_path (inode_mgr w1) i = Some path"
      using assms(1) g by (auto simp: do_getattr_def get_path_def split: option.splits)
    obtain x w2 where n: "in_net (oc_stat op (obs_path (w_config w1) path)) w1 = (x, w2)" by (rule prod.exhaust)
    with assms(1) g p None show ?thesis by (cases x) (auto simp: do_getattr_def get_path_def Let_def)
  qed (use assms(1) g k in \<open>simp add: do_getattr_def\<close>)
qed

lemma set_attr_basic_follows: "follows_request s (to_fuse3 (set_attr_basic s a))"
  by (cases "set_mode s"; cases "set_uid s"; cases "set_gid s"; cases "set_size s")
    (simp_all add: follows_request_def set_attr_basic_def)

lemma set_attr_cached_follows:
  assumes "set_attr_cached s a = Some a'"
  shows "follows_request s (to_fuse3 a') \<and> fa_ino a' = fa_ino a"
proof -
  let ?b = "set_attr_basic s a"
  have e: "fa_ino a' = fa_ino ?b \<and> fa_perm a' = fa_perm ?b \<and> fa_uid a' = fa_uid ?b \<and> fa_gid a' = fa_gid ?b \<and>
      fa_size a' = fa_size ?b"
    using assms by (auto simp: set_attr_cached_def set_attr_time_def bind_eq_Some_conv split: option.splits)
  then have "follows_request s (to_fuse3 a') = follows_request s (to_fuse3 ?b)"
    by (simp add: follows_request_def)
  with e set_attr_basic_follows [of s a] show ?thesis by simp
qed

lemma setattr_update_fits:
  assumes "setattr_update c i s w = (Inr y, w')" "world_ok w"
  shows "fu_ino (rp_attr y) = i \<and> follows_request s (rp_attr y)"
proof -
  obtain r w1 where g: "in_meta (get_attr (now_mono c) i) w = (r, w1)" by (rule prod.exhaust)
  note k = in_meta_get_attr [OF g assms(2)]
  show ?thesis
  proof (cases r)
    case (Some a)
    have u: "(case set_attr_cached s a of None \<Rightarrow> (Inl Panic, w1)
        | Some a1 \<Rightarrow> store_attr c i a1 w1) = (Inr y, w')"
      using assms(1) unfolding setattr_update_def g Some prod.case option.case .
    then obtain a1 where a1: "set_attr_cached s a = Some a1" by (cases "set_attr_cached s a") simp_all
    with u have "rp_attr y = to_fuse3 a1" by (simp add: store_attr_def) (metis reply_attr.select_convs(2))
    with set_attr_cached_follows [OF a1] k Some show ?thesis by simp
  next
    case None
    then obtain e where e: "get_entry (inode_mgr w1) i = Some e" "rp_attr y = to_fuse3 (set_attr_basic s (ie_attr e))"
      using assms(1) g by (auto simp: setattr_update_def store_attr_def split: option.splits)
    have "im_wf (inode_mgr w1)" using k world_okD(2) [of w1] by (simp add: im_ok_def)
    then have "fa_ino (ie_attr e) = i" using im_wf_entry e(1) by fastforce
    with e(2) set_attr_basic_follows show ?thesis by simp
  qed
qed


section \<open>Handles, written lengths and listings\<close>

lemma opened_on_new:
  "hm_open now i flags is_dir m = (fh, handle_mgr w) \<Longrightarrow> opened_on w fh i flags is_dir"
  by (auto simp: hm_open_def opened_on_def hm_get_def handle_state_new_def Let_def dest!: sym [of _ "handle_mgr w"])

lemma create_fits:
  assumes "do_create op c parent name mode flags w = (Inr (i, a, fh), w')" "world_ok w" "good_name name"
  shows "names_child w w' parent name i \<and> fa_ino a = i \<and> fa_kind a = RegularFile \<and> opened_on w' fh i flags False"
proof -
  obtain p where p: "im_get_path (inode_mgr w) parent = Some p"
    using assms(1) by (auto simp: do_create_def and_then_Inr child_paths_Inr)
  have im: "im_wf (inode_mgr w)" using world_okD(2) [OF assms(2)] by (simp add: im_ok_def)
  have "normalize_path (join_path p name) = join_path p name"
    using im_ok_child [OF world_okD(2) [OF assms(2)] p assms(3)] by simp
  with do_create_effect [OF assms(1) im p] p show ?thesis
    by (auto simp: names_child_def new_file_attr_def attr_defs intro: opened_on_new)
qed

lemma mkdir_fits:
  assumes "do_mkdir op c parent name mode w = (Inr (i, a), w')" "world_ok w" "good_name name" "room 1 w"
  shows "names_child w w' parent name i \<and> fa_ino a = i \<and> fa_kind a = Directory"
proof -
  let ?f = "\<lambda>(w1 :: 'a world) i. new_directory_attr (now_wall c) (cfg_permission (w_config w1)) i (Some mode)"
  obtain p where p: "im_get_path (inode_mgr w) parent = Some p"
    using assms(1) by (auto simp: do_mkdir_def and_then_Inr child_paths_Inr)
  obtain x w1 where n: "in_net (oc_create_dir op (obs_path (w_config w) (join_path p name))) w = (x, w1)"
    by (rule prod.exhaust)
  have cp: "child_paths parent name w = (Inr (join_path p name, obs_path (w_config w) (join_path p name)), w)"
    using p by (simp add: child_paths_Inr)
  obtain u where x: "x = Inr u" using assms(1) n cp by (cases x) (simp_all add: do_mkdir_def)
  obtain r w2 where r: "remember c (join_path p name) True 0 (?f w1) w1 = (r, w2)" by (rule prod.exhaust)
  have e: "r = (i, a)" "inode_mgr w' = inode_mgr w2"
    using assms(1) n cp x r by (auto simp: do_mkdir_def)
  have "normalize_path (join_path p name) = join_path p name"
    using im_ok_child [OF world_okD(2) [OF assms(2)] p assms(3)] by simp
  moreover have "room 1 w1" "world_ok w1" using in_net_keeps [OF n assms(2)] assms(4) by (simp_all add: room_def)
  ultimately show ?thesis
    using remember_keeps [OF r [unfolded e(1)]] p e(2)
    by (auto simp: names_child_def new_directory_attr_def attr_defs)
qed

lemma fuse_open_fits:
  assumes "fuse_open op c i flags w = (Inr y, w')"
  shows "opened_on w' (ro_fh y) i flags False"
proof -
  obtain fh w1 where o: "do_open c i flags w = (fh, w1)" by (rule prod.exhaust)
  have "opened_on w1 fh i flags False"
    using o by (auto simp: do_open_def intro: opened_on_new split: prod.splits)
  moreover have "handle_mgr w' = handle_mgr w1 \<and> ro_fh y = fh"
    using assms o do_truncate_handles [of op c i 0 w1]
    by (auto simp: fuse_open_def runs_Inr split: if_splits)
  ultimately show ?thesis by (simp add: opened_on_def)
qed

lemma fuse_opendir_fits:
  "fuse_opendir c i flags w = (Inr y, w') \<Longrightarrow> opened_on w' (ro_fh y) i flags True"
  by (auto simp: fuse_opendir_def do_opendir_def intro: opened_on_new split: prod.splits)

lemma write_locked_length:
  "write_locked op cfg now path off d st = (Inr n, st1) \<Longrightarrow> n = length d"
  by (auto simp: write_locked_def write_direct_def write_append_def Let_def split: prod.splits sum.splits if_splits)

lemma do_write_length:
  assumes "do_write op c i fh off d w = (Inr n, w')" shows "n = length d"
proof -
  let ?w0 = "w\<lparr>w_metrics := inc_write_ops (w_metrics w)\<rparr>"
  obtain cached w1 where g: "in_meta (get_attr (now_mono c) i) ?w0 = (cached, w1)" by (rule prod.exhaust)
  obtain m path sz w2 where wr: "in_wb (wb_write op (now_mono c) i path off d sz) w1 = (Inr m, w2)" and "m = n"
    using assms g by (auto simp: do_write_def and_then_Inr Let_def split: option.splits)
  moreover have "m = length d"
    using wr by (auto simp: in_wb_Inr wb_write_def dest: write_locked_length split: prod.splits)
  ultimately show ?thesis by simp
qed

lemma page_view_ascends:
  "sorted_wrt (<) (map (\<lambda>(n, t, k). k) (page_view off k ms)) \<and>
     (\<forall>(n, t, j)\<in>set (page_view off k ms). off < j \<and> k \<le> j)"
proof (induction ms arbitrary: k)
  case (Cons m ms)
  have "\<forall>(n, t, j)\<in>set (page_view off (k + 1) ms). off < j \<and> k < j" using Cons.IH [of "k + 1"] by auto
  with Cons.IH [of k] Cons.IH [of "k + 1"] show ?case by (auto simp: less_imp_le)
qed simp

lemma do_readdir_ascends:
  assumes "do_readdir op c i off w = (Inr es, w')"
  shows "offsets_ascend off (map dent_offset es)"
proof -
  obtain metas where m: "lists op w i metas"
    using assms by (auto simp: do_readdir_def and_then_Inr lists_def Let_def)
  then have v: "map dent_view es = filter (\<lambda>(n, t, k). off < k) dots_view @ page_view off 3 metas"
    using do_readdir_view [OF m, of c off] assms by auto
  have "map dent_offset es = map (\<lambda>(n, t, k). k) (map dent_view es)" by (simp add: dent_view_def)
  then show ?thesis
    unfolding v using page_view_ascends [of off 3 metas]
    by (auto simp: offsets_ascend_def dots_view_def sorted_wrt_append)
qed


section \<open>Every successful reply fits\<close>

lemma fuse_setattr_fits:
  assumes "fuse_setattr op c i s w = (Inr y, w')" "world_ok w"
  shows "fu_ino (rp_attr y) = i \<and> follows_request s (rp_attr y)"
proof (cases "set_size s")
  case None
  with assms show ?thesis using setattr_update_fits by (simp add: fuse_setattr_def)
next
  case (Some sz)
  obtain u w1 where t: "do_truncate op c i sz w = (Inr u, w1)" "setattr_update c i s w1 = (Inr y, w')"
    using assms(1) Some by (auto simp: fuse_setattr_def runs_Inr)
  have "world_ok w1" using keeps_truncate [OF assms(2), of op c i sz] t(1) by (simp add: keeps_def)
  with t(2) show ?thesis by (rule setattr_update_fits)
qed

lemma fuse_handle_fits:
  assumes "fuse_handle op c req w = (Inr y, w')" "world_ok w" "admissible op req w"
  shows "reply_fits req y w w'"
proof (cases req)
  case ReqInit
  with assms(1) show ?thesis by (auto simp: with_reply_Inr fuse_init_def Let_def split: if_splits)
next
  case (ReqLookup parent name)
  let ?w0 = "w\<lparr>w_metrics := inc_lookup_ops (w_metrics w)\<rparr>"
  obtain i a e where l: "do_lookup op c parent name ?w0 = (Inr (i, a), w')" "y = ReplyEntry e" "re_attr e = to_fuse3 a"
    using assms(1) ReqLookup by (auto simp: runs_Inr fuse_lookup_def)
  have "good_name name" "room 1 ?w0" "world_ok ?w0" using assms(2,3) ReqLookup by (simp_all add: room_def)
  with lookup_names [OF l(1)] have "fa_ino a = i \<and> names_child ?w0 w' parent name i" by blast
  with l ReqLookup show ?thesis by (simp add: names_child_def)
next
  case (ReqGetattr i)
  with assms(1,2) show ?thesis by (auto simp: runs_Inr fuse_getattr_def dest: getattr_names)
next
  case (ReqSetattr i s)
  with assms(1,2) show ?thesis by (auto simp: with_reply_Inr dest: fuse_setattr_fits)
next
  case (ReqOpen i flags)
  with assms(1) show ?thesis by (auto simp: with_reply_Inr intro: fuse_open_fits)
next
  case (ReqOpendir i flags)
  with assms(1) show ?thesis by (auto simp: with_reply_Inr intro: fuse_opendir_fits)
next
  case (ReqWrite i fh off d)
  with assms(1) show ?thesis by (auto simp: runs_Inr fuse_write_def dest: do_write_length)
next
  case (ReqReaddir i off)
  with assms(1) show ?thesis
    by (auto simp: runs_Inr fuse_readdir_def fuse_dir_entry_def o_def dest: do_readdir_ascends)
next
  case (ReqCreate parent name mode flags)
  with assms show ?thesis by (auto simp: runs_Inr fuse_create_def dest: create_fits)
next
  case (ReqMkdir parent name mode)
  with assms show ?thesis by (auto simp: runs_Inr fuse_mkdir_def dest: mkdir_fits)
qed (use assms(1) in \<open>auto simp: with_reply_Inr\<close>)

text \<open>C7 (replies fit their requests): in every reachable world a successful reply to an admissible request
  is of the kind that belongs to the request and speaks of what was asked for. The attributes of a
  getattr or setattr carry the inode asked for, and after a setattr the mode, owner, group and size
  asked for; a lookup, create or mkdir names an inode whose path is that of the child, of the right kind
  for a create and a mkdir; an open handle refers to the inode with the flags it was opened with; a
  write reports the length of its data; the offsets of a listing ascend beyond the offset asked for.\<close>

theorem replies_fit_requests:
  assumes "fuse_reachable op (core_new c0 d cfg mt s) w" "admissible op req w"
    and "fuse_handle op c req w = (Inr reply, w')"
  shows "reply_fits req reply w w'"
  using fuse_handle_fits [OF assms(3)] fuse_reachable_ok [OF assms(1) core_new_ok] assms(2) by blast

lemma replies_fit_requests_witness:
  "\<exists>reply w'. fuse_handle map_operator (demo_clock 1) (ReqOpendir 1 0) served_world = (Inr reply, w') \<and>
     reply_fits (ReqOpendir 1 0) reply served_world w'"
proof -
  have r: "fuse_reachable map_operator (core_new (demo_clock 0) demo_disk served_config metrics_new
      \<lparr>ms_objects = [], ms_broken = []\<rparr>) served_world"
    by (simp add: served_world_def start)
  have "handle_mgr served_world = hm_new" by (simp add: served_world_def core_new_def)
  then have a: "admissible map_operator (ReqOpendir 1 0) served_world" by (simp add: handle_room_def hm_new_def)
  obtain fh w' where h: "do_opendir (demo_clock 1) 1 0 served_world = (fh, w')" by (rule prod.exhaust)
  then have f: "fuse_handle map_operator (demo_clock 1) (ReqOpendir 1 0) served_world =
      (Inr (ReplyOpen \<lparr>ro_fh = fh, ro_flags = 0\<rparr>), w')"
    by (simp add: fuse_opendir_def with_reply_def)
  from f replies_fit_requests [OF r a f] show ?thesis by blast
qed

end
