(* ===== verification/Interleave.thy ===== *)
theory Interleave
  imports Inode
begin

text \<open>
  Concurrent calls of \<open>get_or_create_inode\<close> (src/src/fs/inode.rs). Each access to one of
  the two concurrent maps or to the atomic counter is a step of its own; a schedule says which call
  makes the next step and when.
\<close>

section \<open>The steps of a call\<close>

text \<open>Where a call stands: before the lookup of its path, before the fetch of a number, before the
  insertion into the path map, before the insertion into the entry map, or returned.\<close>

datatype goc_pc =
  Check | Mint | AddPath u64 inode_entry | AddEntry u64 inode_entry | Returned u64

record goc_call =
  gc_path :: string
  gc_is_dir :: bool
  gc_size :: u64
  gc_pc :: goc_pc

definition goc_start :: "string \<times> bool \<times> u64 \<Rightarrow> goc_call" where
  "goc_start = (\<lambda>(path, is_dir, sz).
     \<lparr>gc_path = normalize_path path, gc_is_dir = is_dir, gc_size = sz, gc_pc = Check\<rparr>)"

definition goc_step :: "clock \<Rightarrow> goc_call \<times> inode_manager \<Rightarrow> goc_call \<times> inode_manager" where
  "goc_step c = (\<lambda>(t, m).
     (case gc_pc t of
        Check \<Rightarrow>
          (case dash_get (path_to_inode m) (gc_path t) of
             Some inode \<Rightarrow> (t\<lparr>gc_pc := Returned inode\<rparr>, m)
           | None \<Rightarrow> (t\<lparr>gc_pc := Mint\<rparr>, m))
      | Mint \<Rightarrow>
          (let inode = next_inode m
           in (t\<lparr>gc_pc := AddPath inode
                   (new_entry c (im_permission m) (gc_path t) (gc_is_dir t) (gc_size t) inode)\<rparr>,
               m\<lparr>next_inode := inode + 1\<rparr>))
      | AddPath inode entry \<Rightarrow>
          (t\<lparr>gc_pc := AddEntry inode entry\<rparr>, m\<lparr>path_to_inode := dash_insert (gc_path t) inode (path_to_inode m)\<rparr>)
      | AddEntry inode entry \<Rightarrow>
          (t\<lparr>gc_pc := Returned inode\<rparr>, m\<lparr>inode_to_entry := dash_insert inode entry (inode_to_entry m)\<rparr>)
      | Returned inode \<Rightarrow> (t, m)))"

text \<open>A schedule is a list of the number of a call and the time of its step.\<close>

fun goc_run ::
  "(nat \<times> clock) list \<Rightarrow> goc_call list \<times> inode_manager \<Rightarrow> goc_call list \<times> inode_manager" where
  "goc_run [] s = s"
| "goc_run ((k, c) # sched) (ts, m) =
     (if k < length ts
      then (case goc_step c (ts ! k, m) of (t, m1) \<Rightarrow> goc_run sched (ts[k := t], m1))
      else goc_run sched (ts, m))"

text \<open>A call that runs alone is \<open>get_or_create_inode\<close>.\<close>

lemma run_alone:
  "goc_run (replicate 4 (0, c)) ([goc_start (path, is_dir, sz)], m) =
     (case get_or_create_inode c path is_dir sz m of
        (inode, m1) \<Rightarrow> ([(goc_start (path, is_dir, sz))\<lparr>gc_pc := Returned inode\<rparr>], m1))"
  by (cases "dash_get (path_to_inode m) (normalize_path path)")
    (simp_all add: goc_start_def goc_step_def get_or_create_inode_def im_create_def Let_def numeral_eq_Suc)

section \<open>Every call returns\<close>

fun steps_left :: "goc_pc \<Rightarrow> nat" where
  "steps_left Check = 4"
| "steps_left Mint = 3"
| "steps_left (AddPath _ _) = 2"
| "steps_left (AddEntry _ _) = 1"
| "steps_left (Returned _) = 0"

lemma goc_step_progress:
  "goc_step c (t, m) = (t1, m1) \<Longrightarrow>
     steps_left (gc_pc t1) \<le> steps_left (gc_pc t) - 1 \<and> gc_path t1 = gc_path t"
  by (auto simp: goc_step_def Let_def split: goc_pc.splits option.splits)

lemma goc_run_progress:
  assumes "goc_run sched (ts, m) = (ts1, m1)" "k < length ts"
  shows "length ts1 = length ts \<and> gc_path (ts1 ! k) = gc_path (ts ! k) \<and>
     steps_left (gc_pc (ts1 ! k)) \<le> steps_left (gc_pc (ts ! k)) - count_list (map fst sched) k"
  using assms
proof (induction sched "(ts, m)" arbitrary: ts m rule: goc_run.induct)
  case (2 j c sched ts m)
  show ?case
  proof (cases "j < length ts")
    case True
    obtain t m2 where s: "goc_step c (ts ! j, m) = (t, m2)" by (rule prod.exhaust)
    have "goc_run sched (ts[j := t], m2) = (ts1, m1)" using "2.prems"(1) True s by simp
    from "2.hyps"(1) [OF True s [symmetric] this] "2.prems"(2) goc_step_progress [OF s]
    show ?thesis by (cases "k = j") auto
  next
    case False
    with "2.prems" "2.hyps"(2) [OF False] show ?thesis by auto
  qed
qed simp


lemma goc_run_length: "goc_run sched (ts, m) = (ts1, m1) \<Longrightarrow> length ts1 = length ts"
  by (induction sched "(ts, m)" arbitrary: ts m rule: goc_run.induct) (auto split: if_splits prod.splits)

section \<open>What holds at every moment\<close>

fun held :: "goc_pc \<Rightarrow> u64 option" where
  "held (AddPath i _) = Some i"
| "held (AddEntry i _) = Some i"
| "held _ = None"

fun entry_of :: "goc_pc \<Rightarrow> inode_entry option" where
  "entry_of (AddPath _ e) = Some e"
| "entry_of (AddEntry _ e) = Some e"
| "entry_of _ = None"

abbreviation pc_at :: "goc_call list \<Rightarrow> nat \<Rightarrow> goc_pc" where
  "pc_at ts k \<equiv> gc_pc (ts ! k)"

text \<open>A number belongs to a path when its entry says so, or a call is about to insert that entry.\<close>

definition settled :: "goc_call list \<Rightarrow> inode_manager \<Rightarrow> string \<Rightarrow> u64 \<Rightarrow> bool" where
  "settled ts m p i \<longleftrightarrow> im_get_path m i = Some p \<or>
     (\<exists>k<length ts. \<exists>e. pc_at ts k = AddEntry i e \<and> ie_path e = p)"

definition goc_ok :: "goc_call list \<Rightarrow> inode_manager \<Rightarrow> bool" where
  "goc_ok ts m \<longleftrightarrow>
     inode_ids.bounded m \<and>
     (\<forall>k<length ts. \<forall>i. held (pc_at ts k) = Some i \<longrightarrow> i < next_inode m \<and> get_entry m i = None \<and>
        (\<forall>j<length ts. held (pc_at ts j) = Some i \<longrightarrow> j = k)) \<and>
     (\<forall>k<length ts. \<forall>e. entry_of (pc_at ts k) = Some e \<longrightarrow> ie_path e = gc_path (ts ! k)) \<and>
     (\<forall>p i. dash_get (path_to_inode m) p = Some i \<longrightarrow> settled ts m p i) \<and>
     (\<forall>k<length ts. \<forall>i. pc_at ts k = Returned i \<longrightarrow> settled ts m (gc_path (ts ! k)) i) \<and>
     (\<forall>k<length ts. steps_left (pc_at ts k) \<le> 1 \<longrightarrow> dash_get (path_to_inode m) (gc_path (ts ! k)) \<noteq> None)"

lemma goc_okI:
  assumes "inode_ids.bounded m"
    and "\<And>k i. k < length ts \<Longrightarrow> held (pc_at ts k) = Some i \<Longrightarrow> i < next_inode m \<and> get_entry m i = None"
    and "\<And>j k i. j < length ts \<Longrightarrow> k < length ts \<Longrightarrow> held (pc_at ts j) = Some i \<Longrightarrow> held (pc_at ts k) = Some i \<Longrightarrow> j = k"
    and "\<And>k e. k < length ts \<Longrightarrow> entry_of (pc_at ts k) = Some e \<Longrightarrow> ie_path e = gc_path (ts ! k)"
    and "\<And>p i. dash_get (path_to_inode m) p = Some i \<Longrightarrow> settled ts m p i"
    and "\<And>k i. k < length ts \<Longrightarrow> pc_at ts k = Returned i \<Longrightarrow> settled ts m (gc_path (ts ! k)) i"
    and "\<And>k. k < length ts \<Longrightarrow> steps_left (pc_at ts k) \<le> 1 \<Longrightarrow> dash_get (path_to_inode m) (gc_path (ts ! k)) \<noteq> None"
  shows "goc_ok ts m"
  using assms unfolding goc_ok_def by blast

lemma goc_okD:
  assumes "goc_ok ts m"
  shows "inode_ids.bounded m"
    and "k < length ts \<Longrightarrow> held (pc_at ts k) = Some i \<Longrightarrow> i < next_inode m \<and> get_entry m i = None"
    and "j < length ts \<Longrightarrow> k < length ts \<Longrightarrow> held (pc_at ts j) = Some i \<Longrightarrow> held (pc_at ts k) = Some i \<Longrightarrow> j = k"
    and "k < length ts \<Longrightarrow> entry_of (pc_at ts k) = Some e \<Longrightarrow> ie_path e = gc_path (ts ! k)"
    and "dash_get (path_to_inode m) p = Some i \<Longrightarrow> settled ts m p i"
    and "k < length ts \<Longrightarrow> pc_at ts k = Returned i \<Longrightarrow> settled ts m (gc_path (ts ! k)) i"
    and "k < length ts \<Longrightarrow> steps_left (pc_at ts k) \<le> 1 \<Longrightarrow> dash_get (path_to_inode m) (gc_path (ts ! k)) \<noteq> None"
  using assms unfolding goc_ok_def by blast+

lemma goc_ok_start:
  assumes "im_wf m" shows "goc_ok (map goc_start calls) m"
  using assms im_wf_inverse [OF assms]
  by (auto simp: goc_ok_def settled_def im_wf_def goc_start_def split: prod.splits)

text \<open>A step of a call that leaves the entries alone keeps what is settled, unless it was about to insert.\<close>

lemma settled_keep:
  assumes "settled ts m p i" "\<And>e. gc_pc (ts ! k) \<noteq> AddEntry i e" "inode_to_entry m1 = inode_to_entry m"
  shows "settled (ts[k := t]) m1 p i"
proof (cases "im_get_path m i = Some p")
  case False
  then obtain j e where j: "j < length ts" "pc_at ts j = AddEntry i e" "ie_path e = p"
    using assms(1) by (auto simp: settled_def)
  then have "j \<noteq> k" using assms(2) by auto
  with j show ?thesis by (auto simp: settled_def intro!: exI [of _ j])
qed (use assms(3) in \<open>simp add: settled_def im_get_path_def\<close>)

lemma goc_step_check:
  assumes "goc_ok ts m" "k < length ts" "pc_at ts k = Check" "goc_step c (ts ! k, m) = (t, m1)"
  shows "goc_ok (ts[k := t]) m1 \<and> m1 = m"
proof (cases "dash_get (path_to_inode m) (gc_path (ts ! k))")
  case None
  with assms(3,4) have t: "t = (ts ! k)\<lparr>gc_pc := Mint\<rparr>" "m1 = m" by (auto simp: goc_step_def)
  have keep: "settled ts m p i \<Longrightarrow> settled (ts[k := t]) m p i" for p i
    using settled_keep [of ts m p i k m t] assms(3) by simp
  show ?thesis using assms(1,2,3) keep unfolding t(2) goc_ok_def
    by (simp add: nth_list_update t(1))
next
  case (Some i)
  with assms(3,4) have t: "t = (ts ! k)\<lparr>gc_pc := Returned i\<rparr>" "m1 = m" by (auto simp: goc_step_def)
  have keep: "settled ts m p i \<Longrightarrow> settled (ts[k := t]) m p i" for p i
    using settled_keep [of ts m p i k m t] assms(3) by simp
  have "settled ts m (gc_path (ts ! k)) i" using assms(1) Some by (simp add: goc_ok_def)
  then show ?thesis using assms(1,2,3) keep Some unfolding t(2) goc_ok_def
    by (simp add: nth_list_update t(1))
qed


lemma goc_step_mint:
  assumes "goc_ok ts m" "k < length ts" "pc_at ts k = Mint" "goc_step c (ts ! k, m) = (t, m1)"
    and "unat (next_inode m) + 1 < 2 ^ 64"
  shows "goc_ok (ts[k := t]) m1 \<and> inode_to_entry m1 = inode_to_entry m"
proof -
  let ?i = "next_inode m"
  let ?e = "new_entry c (im_permission m) (gc_path (ts ! k)) (gc_is_dir (ts ! k)) (gc_size (ts ! k)) ?i"
  have t: "t = (ts ! k)\<lparr>gc_pc := AddPath ?i ?e\<rparr>" "m1 = m\<lparr>next_inode := ?i + 1\<rparr>"
    using assms(3,4) by (auto simp: goc_step_def Let_def)
  have path: "ie_path ?e = gc_path (ts ! k)" by (simp add: new_entry_def Let_def)
  have lt: "i < ?i + 1" if "i \<le> ?i" for i
    using that assms(5) by (simp add: word_less_nat_alt word_le_nat_alt inode_ids.next_unat)
  have keep: "settled ts m p i \<Longrightarrow> settled (ts[k := t]) m1 p i" for p i
    using settled_keep [of ts m p i k m1 t] assms(3) t(2) by simp
  note ok = goc_okD [OF assms(1)]
  have new: "get_entry m ?i = None" using ok(1) by (auto simp: inode_ids.bounded_def)
  have ent: "get_entry m1 = get_entry m" by (simp add: t(2) get_entry_def fun_eq_iff)
  have "goc_ok (ts[k := t]) m1"
  proof (rule goc_okI, goal_cases)
    case 1
    show ?case using ok(1) lt by (auto simp: inode_ids.bounded_def ent) (auto simp: t(2) dest: less_imp_le)
  next
    case (2 j i)
    with ok(2) [of j i] lt new show ?case by (cases "j = k") (auto simp: t ent [unfolded t(2)] less_imp_le)
  next
    case (3 j l i)
    with ok(2) [of j i] ok(2) [of l i] ok(3) [of j l i] show ?case
      by (cases "j = k"; cases "l = k") (auto simp: t(1))
  next
    case (4 j e)
    with ok(4) [of j e] path show ?case by (cases "j = k") (auto simp: t(1))
  next
    case (5 p i)
    with ok(5) [of p i] keep show ?case by (simp add: t(2))
  next
    case (6 j i)
    with ok(6) [of j i] keep show ?case by (cases "j = k") (auto simp: t(1))
  next
    case (7 j)
    with ok(7) [of j] show ?case by (cases "j = k") (auto simp: t)
  qed
  then show ?thesis by (simp add: t(2))
qed

lemma goc_step_add_path:
  assumes "goc_ok ts m" "k < length ts" "pc_at ts k = AddPath i e" "goc_step c (ts ! k, m) = (t, m1)"
  shows "goc_ok (ts[k := t]) m1 \<and> inode_to_entry m1 = inode_to_entry m"
proof -
  let ?p = "gc_path (ts ! k)"
  have t: "t = (ts ! k)\<lparr>gc_pc := AddEntry i e\<rparr>" "m1 = m\<lparr>path_to_inode := dash_insert ?p i (path_to_inode m)\<rparr>"
    using assms(3,4) by (auto simp: goc_step_def)
  have keep: "settled ts m p j \<Longrightarrow> settled (ts[k := t]) m1 p j" for p j
    using settled_keep [of ts m p j k m1 t] assms(3) t(2) by simp
  have "ie_path e = ?p" using assms(1-3) by (auto simp: goc_ok_def)
  then have mine: "settled (ts[k := t]) m1 ?p i"
    using assms(2) by (auto simp: settled_def t(1) intro!: exI [of _ k])
  have "inode_ids.bounded m1" using assms(1) by (simp add: goc_ok_def inode_ids.bounded_def t(2) get_entry_def)
  moreover have "get_entry m1 j = get_entry m j" for j by (simp add: t(2) get_entry_def)
  ultimately show ?thesis using assms(1,2,3) keep mine unfolding goc_ok_def
    by (auto simp: nth_list_update t split: if_splits)
qed

lemma goc_step_add_entry:
  assumes "goc_ok ts m" "k < length ts" "pc_at ts k = AddEntry i e" "goc_step c (ts ! k, m) = (t, m1)"
  shows "goc_ok (ts[k := t]) m1 \<and> get_entry m i = None \<and>
     inode_to_entry m1 = dash_insert i e (inode_to_entry m)"
proof -
  let ?p = "gc_path (ts ! k)"
  have t: "t = (ts ! k)\<lparr>gc_pc := Returned i\<rparr>" "m1 = m\<lparr>inode_to_entry := dash_insert i e (inode_to_entry m)\<rparr>"
    using assms(3,4) by (auto simp: goc_step_def)
  have i: "i < next_inode m" "get_entry m i = None" "ie_path e = ?p"
      "\<And>j. j < length ts \<Longrightarrow> held (pc_at ts j) = Some i \<Longrightarrow> j = k"
    using assms(1-3) by (auto simp: goc_ok_def)
  have ent: "get_entry m1 j = (if j = i then Some e else get_entry m j)" for j by (simp add: t(2) get_entry_def)
  have keep: "settled (ts[k := t]) m1 p j" if s: "settled ts m p j" for p j
  proof (cases "j = i")
    case True
    have "im_get_path m i = None" using i(2) by (simp add: im_get_path_def get_entry_def)
    with s True obtain l e' where l: "l < length ts" "pc_at ts l = AddEntry i e'" "ie_path e' = p" by (auto simp: settled_def)
    with i(4) [of l] assms(3) have "p = ie_path e" by simp
    with True show ?thesis by (simp add: settled_def t(2) im_get_path_def)
  next
    case False
    show ?thesis
    proof (cases "im_get_path m j = Some p")
      case True
      with False show ?thesis by (simp add: settled_def t(2) im_get_path_def)
    next
      case f: False
      with s obtain l e' where l: "l < length ts" "pc_at ts l = AddEntry j e'" "ie_path e' = p" by (auto simp: settled_def)
      with assms(3) False have "l \<noteq> k" by auto
      with l show ?thesis by (auto simp: settled_def intro!: exI [of _ l])
    qed
  qed
  have mine: "settled (ts[k := t]) m1 ?p i" using i(3) by (simp add: settled_def t(2) im_get_path_def)
  note ok = goc_okD [OF assms(1)]
  have "goc_ok (ts[k := t]) m1"
  proof (rule goc_okI, goal_cases)
    case 1
    show ?case using ok(1) i(1) by (auto simp: inode_ids.bounded_def ent) (auto simp: t(2))
  next
    case (2 j l)
    then have j: "j \<noteq> k" by (auto simp: t(1))
    with 2 have h: "j < length ts" "held (pc_at ts j) = Some l" by simp_all
    with i(4) [of j] j have "l \<noteq> i" by blast
    with ok(2) [OF h] show ?case by (simp add: ent) (simp add: t(2))
  next
    case (3 j l n)
    with ok(3) [of j l n] show ?case by (cases "j = k"; cases "l = k") (simp_all add: t(1))
  next
    case (4 j x)
    with ok(4) [of j x] show ?case by (cases "j = k") (auto simp: t(1))
  next
    case (5 p j)
    with ok(5) [of p j] keep show ?case by (simp add: t(2))
  next
    case (6 j l)
    with ok(6) [of j l] keep mine show ?case by (cases "j = k") (auto simp: t(1))
  next
    case (7 j)
    with ok(7) [of j] ok(7) [of k] assms(2,3) show ?case by (cases "j = k") (auto simp: t)
  qed
  with i(2) show ?thesis by (simp add: t(2))
qed


text \<open>One step of any call keeps the invariant, removes no entry and takes at most one number.\<close>

lemma goc_step_ok:
  assumes "goc_ok ts m" "k < length ts" "goc_step c (ts ! k, m) = (t, m1)" "unat (next_inode m) + 1 < 2 ^ 64"
  shows "goc_ok (ts[k := t]) m1 \<and> (\<forall>i. get_entry m i \<noteq> None \<longrightarrow> get_entry m1 i = get_entry m i) \<and>
     unat (next_inode m1) \<le> unat (next_inode m) + 1"
proof (cases "pc_at ts k")
  case Check
  with goc_step_check [OF assms(1,2) Check assms(3)] show ?thesis by auto
next
  case Mint
  with goc_step_mint [OF assms(1,2) Mint assms(3,4)] assms(3,4) show ?thesis
    by (auto simp: get_entry_def goc_step_def Let_def inode_ids.next_unat)
next
  case (AddPath i e)
  with goc_step_add_path [OF assms(1,2) AddPath assms(3)] assms(3) show ?thesis
    by (auto simp: get_entry_def goc_step_def)
next
  case (AddEntry i e)
  with goc_step_add_entry [OF assms(1,2) AddEntry assms(3)] assms(3) show ?thesis
    by (auto simp: get_entry_def goc_step_def)
next
  case (Returned i)
  with assms(1,3) show ?thesis by (auto simp: goc_step_def)
qed

lemma goc_run_ok:
  assumes "goc_run sched (ts, m) = (ts1, m1)" "goc_ok ts m" "unat (next_inode m) + length sched < 2 ^ 64"
  shows "goc_ok ts1 m1 \<and> (\<forall>i. get_entry m i \<noteq> None \<longrightarrow> get_entry m1 i = get_entry m i)"
  using assms
proof (induction sched "(ts, m)" arbitrary: ts m rule: goc_run.induct)
  case (2 k c sched ts m)
  show ?case
  proof (cases "k < length ts")
    case True
    obtain t m2 where s: "goc_step c (ts ! k, m) = (t, m2)" by (rule prod.exhaust)
    have st: "goc_ok (ts[k := t]) m2 \<and> (\<forall>i. get_entry m i \<noteq> None \<longrightarrow> get_entry m2 i = get_entry m i) \<and>
        unat (next_inode m2) \<le> unat (next_inode m) + 1"
      using goc_step_ok [OF "2.prems"(2) True s] "2.prems"(3) by simp
    have r: "goc_run sched (ts[k := t], m2) = (ts1, m1)" using "2.prems"(1) True s by simp
    have room: "unat (next_inode m2) + length sched < 2 ^ 64" using st "2.prems"(3) by simp
    from "2.hyps"(1) [OF True s [symmetric] r conjunct1 [OF st] room] st show ?thesis by auto
  next
    case False
    with "2.prems" "2.hyps"(2) [OF False] show ?thesis by auto
  qed
qed simp

section \<open>Concurrent creations\<close>

text \<open>C11 (concurrent calls leave a usable table): however the steps of several concurrent calls of
  get_or_create_inode interleave, a call returns after four steps of its own. Once all have returned, the
  number that each one got has an entry with the path it asked for, that path is known, every known path
  leads to an entry that carries it, and the entries from before are untouched.\<close>

theorem concurrent_creates_usable:
  assumes "im_wf m" "unat (next_inode m) + length sched < 2 ^ 64"
    and "list_all (\<lambda>k. 4 \<le> count_list (map fst sched) k) [0..<length calls]"
    and "goc_run sched (map goc_start calls, m) = (ts, m1)"
  shows "list_all2 (\<lambda>call t. \<exists>i. gc_pc t = Returned i \<and>
         im_get_path m1 i = Some (normalize_path (fst call)) \<and> get_inode m1 (fst call) \<noteq> None) calls ts \<and>
     (\<forall>p. case dash_get (path_to_inode m1) p of None \<Rightarrow> True | Some i \<Rightarrow> im_get_path m1 i = Some p) \<and>
     (\<forall>i. get_entry m i = None \<or> get_entry m1 i = get_entry m i)"
proof -
  let ?ts = "map goc_start calls"
  have ok: "goc_ok ts m1" "\<forall>i. get_entry m i \<noteq> None \<longrightarrow> get_entry m1 i = get_entry m i"
    using goc_run_ok [OF assms(4) goc_ok_start [OF assms(1)] assms(2)] by simp_all
  have len: "length ts = length calls" using goc_run_length [OF assms(4)] by simp
  have ret: "\<exists>i. pc_at ts k = Returned i \<and> gc_path (ts ! k) = gc_path (goc_start (calls ! k))" if k: "k < length calls" for k
  proof -
    have "steps_left (pc_at ?ts k) = 4" using k by (simp add: goc_start_def split: prod.splits)
    moreover have "4 \<le> count_list (map fst sched) k" using assms(3) k by (simp add: list_all_iff)
    ultimately have "steps_left (pc_at ts k) = 0" "gc_path (ts ! k) = gc_path (?ts ! k)"
      using goc_run_progress [OF assms(4), of k] k by simp_all
    then show ?thesis using k by (cases "pc_at ts k") simp_all
  qed
  have own: "im_get_path m1 i = Some p" if s: "settled ts m1 p i" for p i
  proof (rule ccontr)
    assume "im_get_path m1 i \<noteq> Some p"
    with s len obtain k e where "k < length calls" "pc_at ts k = AddEntry i e" by (auto simp: settled_def)
    with ret [of k] show False by simp
  qed
  have "list_all2 (\<lambda>call t. \<exists>i. gc_pc t = Returned i \<and>
      im_get_path m1 i = Some (normalize_path (fst call)) \<and> get_inode m1 (fst call) \<noteq> None) calls ts"
  proof (rule list_all2_all_nthI)
    fix k assume k: "k < length calls"
    obtain i where i: "pc_at ts k = Returned i" "gc_path (ts ! k) = gc_path (goc_start (calls ! k))" using ret [OF k] by blast
    have "im_get_path m1 i = Some (gc_path (ts ! k))" using own goc_okD(6) [OF ok(1), of k i] i k len by simp
    moreover have "dash_get (path_to_inode m1) (gc_path (ts ! k)) \<noteq> None" using goc_okD(7) [OF ok(1), of k] i k len by simp
    ultimately show "\<exists>i. gc_pc (ts ! k) = Returned i \<and>
        im_get_path m1 i = Some (normalize_path (fst (calls ! k))) \<and> get_inode m1 (fst (calls ! k)) \<noteq> None"
      using i by (auto simp: goc_start_def get_inode_def split: prod.splits)
  qed (simp add: len)
  moreover have "\<forall>p. case dash_get (path_to_inode m1) p of None \<Rightarrow> True | Some i \<Rightarrow> im_get_path m1 i = Some p"
    using own goc_okD(5) [OF ok(1)] by (auto split: option.splits)
  ultimately show ?thesis using ok(2) by blast
qed

text \<open>C36 (two concurrent calls for one new path get two inodes): when two calls for the same unknown path
  both look it up before either inserts it, they return different numbers. Both numbers have an entry
  with the path, but the path leads to the second only, so the two maps are no longer inverse to each
  other.\<close>

theorem concurrent_creates_alias:
  assumes "get_inode m path = None"
  shows "\<exists>ts m1. goc_run (map (\<lambda>k. (k, c)) [0, 1, 0, 1, 0, 1, 0, 1])
         ([goc_start (path, d1, n1), goc_start (path, d2, n2)], m) = (ts, m1) \<and>
     map gc_pc ts = [Returned (next_inode m), Returned (next_inode m + 1)] \<and>
     im_get_path m1 (next_inode m) = Some (normalize_path path) \<and>
     im_get_path m1 (next_inode m + 1) = Some (normalize_path path) \<and>
     get_inode m1 path = Some (next_inode m + 1) \<and> \<not> im_wf m1"
proof -
  obtain ts m1 where r: "goc_run (map (\<lambda>k. (k, c)) [0, 1, 0, 1, 0, 1, 0, 1])
      ([goc_start (path, d1, n1), goc_start (path, d2, n2)], m) = (ts, m1)" by (rule prod.exhaust)
  have ne: "next_inode m + 1 \<noteq> next_inode m" by simp
  have u: "map gc_pc ts = [Returned (next_inode m), Returned (next_inode m + 1)]"
      "im_get_path m1 (next_inode m) = Some (normalize_path path)"
      "im_get_path m1 (next_inode m + 1) = Some (normalize_path path)"
      "get_inode m1 path = Some (next_inode m + 1)"
    using r assms ne
    by (auto simp: goc_start_def goc_step_def get_inode_def im_get_path_def Let_def new_entry_def)
  have "\<not> im_wf m1"
  proof
    assume "im_wf m1"
    then have "get_inode m1 path = Some (next_inode m)" using im_wf_get_inode u(2) by blast
    with u(4) ne show False by simp
  qed
  with r u show ?thesis by (intro exI conjI)
qed


text \<open>Two concurrent calls for the file f in a fresh table, whose steps alternate.\<close>

lemma fresh_table:
  "im_wf (im_new \<lparr>now_mono = 0, now_wall = 0\<rparr> (permission_config_default 0 0))"
  "next_inode (im_new \<lparr>now_mono = 0, now_wall = 0\<rparr> (permission_config_default 0 0)) = 2"
  "get_inode (im_new \<lparr>now_mono = 0, now_wall = 0\<rparr> (permission_config_default 0 0)) ''f'' = None"
  by (rule im_wf_new)
    (simp_all add: im_new_def im_init_root_def ROOT_INODE_def Let_def get_inode_def normalize_path_def
      trim_matches_def trim_start_matches_def trim_end_matches_def)

lemma concurrent_creates_usable_witness:
  "let m = im_new \<lparr>now_mono = 0, now_wall = 0\<rparr> (permission_config_default 0 0);
       r = goc_run (map (\<lambda>k. (k, \<lparr>now_mono = 1, now_wall = 1\<rparr>)) [0, 1, 0, 1, 0, 1, 0, 1])
             (map goc_start [(''f'', False, 1), (''f'', False, 1)], m)
   in list_all (\<lambda>t. \<exists>i. gc_pc t = Returned i \<and> im_get_path (snd r) i = Some ''f'') (fst r)"
proof -
  let ?m = "im_new \<lparr>now_mono = 0, now_wall = 0\<rparr> (permission_config_default 0 0)"
  let ?s = "map (\<lambda>k. (k, \<lparr>now_mono = 1, now_wall = 1\<rparr>)) [0, 1, 0, 1, 0, 1, 0, 1 :: nat]"
  let ?calls = "[(''f'', False, 1 :: u64), (''f'', False, 1)]"
  obtain ts m1 where r: "goc_run ?s (map goc_start ?calls, ?m) = (ts, m1)" by (rule prod.exhaust)
  have n: "normalize_path ''f'' = ''f''"
    by (simp add: normalize_path_def trim_matches_def trim_start_matches_def trim_end_matches_def)
  have room: "unat (next_inode ?m) + length ?s < 2 ^ 64" by (simp add: fresh_table(2))
  have steps: "list_all (\<lambda>k. 4 \<le> count_list (map fst ?s) k) [0..<length ?calls]" by (simp add: upt_rec)
  have "list_all2 (\<lambda>call t. \<exists>i. gc_pc t = Returned i \<and>
      im_get_path m1 i = Some (normalize_path (fst call)) \<and> get_inode m1 (fst call) \<noteq> None) ?calls ts"
    using concurrent_creates_usable [OF fresh_table(1) room steps r] by (rule conjunct1)
  with r n show ?thesis by (auto simp: list_all2_Cons1 Let_def)
qed

lemma concurrent_creates_alias_witness:
  "\<exists>ts m1. goc_run (map (\<lambda>k. (k, \<lparr>now_mono = 1, now_wall = 1\<rparr>)) [0, 1, 0, 1, 0, 1, 0, 1])
       ([goc_start (''f'', False, 1), goc_start (''f'', False, 1)],
        im_new \<lparr>now_mono = 0, now_wall = 0\<rparr> (permission_config_default 0 0)) = (ts, m1) \<and>
     map gc_pc ts = [Returned 2, Returned 3] \<and> get_inode m1 ''f'' = Some 3"
  using concurrent_creates_alias [OF fresh_table(3), of "\<lparr>now_mono = 1, now_wall = 1\<rparr>" False 1 False 1] fresh_table(2)
  by auto

end
