(* ===== verification/Contents.thy ===== *)
theory Contents
  imports DataCacheProps
begin

text \<open>
  What the blocks of the data cache (src/src/cache/data.rs) contain. The contract is a predicate on a
  block's key and bytes that is closed under taking a prefix, since a failing write to the disk cache
  leaves a prefix in the file. Every operation of the cache keeps it for all blocks, in memory and on
  disk, and a hit returns bytes that satisfy it.
\<close>

section \<open>Blocks that satisfy a predicate\<close>

definition disk_holds :: "(block_key \<Rightarrow> bytes \<Rightarrow> bool) \<Rightarrow> disk_cache \<Rightarrow> bool" where
  "disk_holds P dk \<longleftrightarrow> (\<forall>k e. dash_get (dk_entries dk) k = Some e \<longrightarrow>
     de_path e = path_join (dk_dir dk) (block_file_name k) \<and>
     (\<forall>d. dash_get (d_files (dk_disk dk)) (de_path e) = Some d \<longrightarrow> P k d))"

definition cache_holds :: "(block_key \<Rightarrow> bytes \<Rightarrow> bool) \<Rightarrow> data_cache \<Rightarrow> bool" where
  "cache_holds P dc \<longleftrightarrow>
     (\<forall>k b. dash_get (memory_cache dc) k = Some b \<longrightarrow> P k (cb_data b)) \<and>
     (\<forall>dk. dc_disk_cache dc = Some dk \<longrightarrow> disk_holds P dk)"

lemma block_path_inj: "path_join dir (block_file_name k) = path_join dir (block_file_name k') \<longleftrightarrow> k = k'"
proof -
  have "\<not> starts_with slash (block_file_name j)" for j
  proof -
    obtain x xs where d: "decimal (unat (bk_inode j)) = x # xs"
      using decimal_nonempty by (cases "decimal (unat (bk_inode j))") auto
    then have "x \<noteq> slash" using decimal_no_char [of slash "unat (bk_inode j)"] by auto
    with d show ?thesis by (simp add: block_file_name_def starts_with_def)
  qed
  then show ?thesis using block_file_name_inj by (auto simp: path_join_def)
qed

lemma cache_holds_mono:
  "cache_holds P dc \<Longrightarrow> (\<And>k d. P k d \<Longrightarrow> Q k d) \<Longrightarrow> cache_holds Q dc"
  unfolding cache_holds_def disk_holds_def by blast

lemma cache_holds_new: "cache_holds P (dc_new d cfg)"
  by (auto simp: cache_holds_def disk_holds_def dc_new_def dk_new_def)

section \<open>The operations keep it\<close>

locale block_contents =
  fixes P :: "block_key \<Rightarrow> bytes \<Rightarrow> bool"
  assumes prefix: "P k d \<Longrightarrow> P k (take n d)"
begin

lemma dk_get_holds:
  assumes "dk_get now k dk = (r, dk')" "disk_holds P dk"
  shows "disk_holds P dk' \<and> (\<forall>d. r = Some d \<longrightarrow> P k d)"
  using assms by (auto simp: dk_get_def disk_holds_def fs_read_def split: option.splits if_splits)

lemma dk_evict_holds:
  assumes "dk_evict_one dk = Some dk'" "disk_holds P dk"
  shows "disk_holds P (dk'\<lparr>dk_current_size := n\<rparr>) \<and> dk_dir dk' = dk_dir dk"
  using assms by (auto simp: dk_evict_one_def disk_holds_def fs_remove_def split: option.splits if_splits)

lemma dk_make_room_holds:
  "dk_make_room sz dk = (r, dk') \<Longrightarrow> disk_holds P dk \<Longrightarrow> disk_holds P dk' \<and> dk_dir dk' = dk_dir dk"
proof (induction sz dk arbitrary: r dk' rule: dk_make_room.induct)
  case (1 sz dk)
  show ?case
  proof (cases "dk_current_size dk + sz > dk_size_limit dk")
    case True
    show ?thesis
    proof (cases "dk_evict_one dk")
      case None
      with True 1 show ?thesis by (simp add: dk_make_room.simps [of sz dk])
    next
      case (Some dk1)
      have "dk_make_room sz (dk1\<lparr>dk_current_size := dk_calculate_size dk1\<rparr>) = (r, dk')"
        using "1.prems"(1) True Some by (simp add: dk_make_room.simps [of sz dk])
      from "1.IH" [OF True Some this] dk_evict_holds [OF Some "1.prems"(2)] show ?thesis by simp
    qed
  next
    case False
    with 1 show ?thesis by (auto simp: dk_make_room.simps [of sz dk])
  qed
qed

lemma fs_write_files:
  "fs_write d path data = (ok, d') \<Longrightarrow> P k data \<Longrightarrow>
     (\<forall>q. q \<noteq> path \<longrightarrow> dash_get (d_files d') q = dash_get (d_files d) q) \<and>
     (\<forall>x. dash_get (d_files d') path = Some x \<longrightarrow> P k x \<or> \<not> ok \<and> dash_get (d_files d) path = Some x)"
  using prefix by (auto simp: fs_write_def split: write_fault.splits)

lemma dk_put_holds:
  assumes "disk_holds P dk" "P k data"
  shows "disk_holds P (dk_put now k data dk)"
proof -
  obtain r dk1 where mr: "dk_make_room (len64 data) dk = (r, dk1)" by (rule prod.exhaust)
  note h = dk_make_room_holds [OF mr assms(1)]
  let ?path = "path_join (dk_dir dk) (block_file_name k)"
  obtain ok d' where w: "fs_write (dk_disk dk1) ?path data = (ok, d')" by (rule prod.exhaust)
  note f = fs_write_files [OF w assms(2)]
  show ?thesis
  proof (cases r)
    case False
    with mr h show ?thesis by (simp add: dk_put_def)
  next
    case True
    have same: "P j x" if "dash_get (dk_entries dk1) j = Some e" "dash_get (d_files d') (de_path e) = Some x" for j e x
    proof (cases "j = k")
      case True
      with that h f show ?thesis by (auto simp: disk_holds_def)
    next
      case False
      with that(1) h have "de_path e \<noteq> ?path" using block_path_inj by (auto simp: disk_holds_def)
      with that h f show ?thesis by (auto simp: disk_holds_def)
    qed
    have "disk_holds P (dk1\<lparr>dk_disk := d', dk_entries := dash_insert k \<lparr>de_path = ?path, de_size = n, de_last_access = now\<rparr>
        (dk_entries dk1), dk_current_size := m\<rparr>)" if ok for n m
      using same f that h unfolding disk_holds_def by (auto split: if_splits)
    moreover have "disk_holds P (dk1\<lparr>dk_disk := d'\<rparr>)" using same h unfolding disk_holds_def by auto
    ultimately show ?thesis using True mr w h by (cases ok) (simp_all add: dk_put_def Let_def)
  qed
qed

lemma evict_one_holds:
  assumes "evict_one now dc = Some (n, dc')" "cache_holds P dc"
  shows "cache_holds P (dc'\<lparr>memory_usage := u\<rparr>)"
proof -
  obtain k b where e: "dash_get (memory_cache dc) k = Some b" "memory_cache dc' = dash_remove k (memory_cache dc)"
      "dc_disk_cache dc' = map_option (dk_put now k (cb_data b)) (dc_disk_cache dc)"
    using evict_one_effect [OF assms(1)] by auto
  then have "P k (cb_data b)" using assms(2) by (simp add: cache_holds_def)
  with e assms(2) dk_put_holds show ?thesis by (auto simp: cache_holds_def)
qed

lemma evict_loop_holds: "cache_holds P dc \<Longrightarrow> cache_holds P (evict_loop now sz dc)"
proof (induction now sz dc rule: evict_loop.induct)
  case (1 now sz dc)
  show ?case
  proof (cases "memory_usage dc + sz > memory_limit dc \<and> memory_cache dc \<noteq> []")
    case True
    show ?thesis
    proof (cases "evict_one now dc")
      case None
      with True "1.prems" show ?thesis by (simp add: evict_loop.simps [of now sz dc])
    next
      case (Some r)
      obtain n dc' where e: "evict_one now dc = Some (n, dc')" using Some by (cases r) simp
      from "1.IH" [OF True e refl evict_one_holds [OF e "1.prems"]] True e
      show ?thesis by (simp add: evict_loop.simps [of now sz dc])
    qed
  next
    case False
    with "1.prems" show ?thesis by (auto simp: evict_loop.simps [of now sz dc])
  qed
qed

lemma put_memory_holds: "cache_holds P dc \<Longrightarrow> P k d \<Longrightarrow> cache_holds P (put_memory now k d dc)"
  using evict_loop_holds [of dc now "len64 d"] by (auto simp: cache_holds_def put_memory_def Let_def cached_block_new_def)

lemma dc_put_holds:
  "dc_put now i off d dc = Some dc' \<Longrightarrow> cache_holds P dc \<Longrightarrow>
     (\<And>k. block_key_new i off (dc_block_size dc) = Some k \<Longrightarrow> P k d) \<Longrightarrow> cache_holds P dc'"
  by (auto simp: dc_put_def intro: put_memory_holds)

lemma dc_get_holds:
  assumes "dc_get now i off (dc, mt) = Some (r, (dc', mt'))" "cache_holds P dc"
  shows "cache_holds P dc' \<and> (\<forall>d k. r = Some d \<longrightarrow> block_key_new i off (dc_block_size dc) = Some k \<longrightarrow> P k d)"
proof -
  obtain k where k: "block_key_new i off (dc_block_size dc) = Some k"
    using assms(1) by (cases "block_key_new i off (dc_block_size dc)") (auto simp: dc_get_def)
  show ?thesis
  proof (cases "dash_get (memory_cache dc) k")
    case (Some b)
    with assms k show ?thesis by (auto simp: dc_get_def cache_holds_def cb_touch_def split: if_splits)
  next
    case n: None
    show ?thesis
    proof (cases "dc_disk_cache dc")
      case None
      with n assms k show ?thesis by (auto simp: dc_get_def)
    next
      case (Some dk)
      obtain x dk' where g: "dk_get now k dk = (x, dk')" by (rule prod.exhaust)
      have h: "disk_holds P dk' \<and> (\<forall>d. x = Some d \<longrightarrow> P k d)"
        using dk_get_holds [OF g] assms(2) Some by (simp add: cache_holds_def)
      then have "cache_holds P (dc\<lparr>dc_disk_cache := Some dk'\<rparr>)" using assms(2) by (simp add: cache_holds_def)
      with n g h k Some assms(1) put_memory_holds show ?thesis by (cases x) (auto simp: dc_get_def)
    qed
  qed
qed

end

section \<open>Blocks of the files\<close>

text \<open>\<open>content i\<close> are the bytes of the file with inode \<open>i\<close>. A part of them from an offset may be shorter
  than what the file has there.\<close>

definition part_of :: "(u64 \<Rightarrow> bytes option) \<Rightarrow> u64 \<Rightarrow> nat \<Rightarrow> bytes \<Rightarrow> bool" where
  "part_of content i off d \<longleftrightarrow> (\<exists>x n. content i = Some x \<and> d = take n (drop off x))"

definition block_part :: "(u64 \<Rightarrow> bytes option) \<Rightarrow> block_key \<Rightarrow> bytes \<Rightarrow> bool" where
  "block_part content k d \<longleftrightarrow> part_of content (bk_inode k) (unat (bk_offset k)) d"

lemma part_of_take: "part_of content i off d \<Longrightarrow> part_of content i off (take m d)"
  by (auto simp: part_of_def)

lemma part_of_drop: "part_of content i off d \<Longrightarrow> part_of content i (off + m) (drop m d)"
  by (auto simp: part_of_def drop_take add.commute)

lemma part_of_mono: "part_of content i off d \<Longrightarrow> content \<subseteq>\<^sub>m content' \<Longrightarrow> part_of content' i off d"
  by (fastforce simp: part_of_def map_le_def dom_def)

interpretation file_blocks: block_contents "block_part content" for content
  by unfold_locales (simp add: block_part_def part_of_take)

lemma file_blocks_mono:
  "cache_holds (block_part content) dc \<Longrightarrow> content \<subseteq>\<^sub>m content' \<Longrightarrow> cache_holds (block_part content') dc"
  using cache_holds_mono part_of_mono by (metis block_part_def)

end
