(* ===== verification/InFlight.thy ===== *)
theory InFlight
  imports CoreRuns
begin

text \<open>
  Reads that are suspended while the store answers. \<open>do_read\<close> (src/src/fs/core.rs) and the prefetch task
  (src/src/cache/readahead.rs) await one call of the client each, and other requests run meanwhile. Here
  both are split there: what happens before the call, the call, and what happens with its answer. The
  parts in sequence are the operations of the core.
\<close>

section \<open>The parts of a read\<close>

text \<open>A read is answered from the caches or asks the store for a path.\<close>

datatype read_start = Answered "bytes fs_result" | Asks string

definition read_begin ::
  "clock \<Rightarrow> u64 \<Rightarrow> u64 \<Rightarrow> u64 \<Rightarrow> u32 \<Rightarrow> 's world \<Rightarrow> read_start \<times> 's world" where
  "read_begin c inode fh offset sz w =
     (case get_path inode (w\<lparr>w_metrics := inc_read_ops (w_metrics w)\<rparr>) of
        (Inl e, w) \<Rightarrow> (Answered (Inl e), w)
      | (Inr path, w) \<Rightarrow>
          (let path0 = obs_path (w_config w) path;
               w0 = w\<lparr>handle_mgr := hm_update fh (update_position (now_mono c) offset (ucast sz)) (handle_mgr w)\<rparr>
           in case get_prefetched (now_mono c) \<lparr>pk_inode = inode, pk_offset = offset\<rparr> (ra_mgr w0) of
                (Some data, ra) \<Rightarrow> (Answered (Inr (slice 0 (min (unat sz) (length data)) data)), w0\<lparr>ra_mgr := ra\<rparr>)
              | (None, ra) \<Rightarrow>
                  (let w1 = w0\<lparr>ra_mgr := ra\<rparr>
                   in case dc_get (now_mono c) inode offset (block_cache w1, w_metrics w1) of
                        None \<Rightarrow> (Answered (Inl Panic), w1)
                      | Some (cached, (dc, mt)) \<Rightarrow>
                          (let w2 = w1\<lparr>block_cache := dc, w_metrics := mt\<rparr>
                           in case cached of
                                None \<Rightarrow> (Asks path0, w2)
                              | Some data \<Rightarrow>
                                  (let start = unat (offset mod dc_block_size dc)
                                   in if start < length data
                                      then (Answered (Inr (slice start (min (start + unat sz) (length data)) data)), w2)
                                      else (Asks path0, w2))))))"

definition read_finish ::
  "clock \<Rightarrow> u64 \<Rightarrow> u64 \<Rightarrow> u32 \<Rightarrow> string \<Rightarrow> bytes \<Rightarrow> 's world \<Rightarrow> bytes fs_result \<times> 's world" where
  "read_finish c inode offset sz path data w =
     (case dc_put (now_mono c) inode offset data (block_cache w) of
        None \<Rightarrow> (Inl Panic, w)
      | Some dc \<Rightarrow>
          (case record_read (now_mono c) inode offset (ucast sz) (ra_mgr w) of
             (request, ra) \<Rightarrow>
               (Inr data,
                w\<lparr>block_cache := dc, ra_mgr := ra,
                  w_prefetches := w_prefetches w @ (case request of Some p \<Rightarrow> [(path, p)] | None \<Rightarrow> []),
                  w_metrics := add_read_bytes (len64 data) (w_metrics w)\<rparr>)))"

lemma read_remote_split:
  "read_remote op c i path off sz w =
     and_then (or_errno EIO (in_net (oc_read_range op path off (ucast sz)) w)) (read_finish c i off sz path)"
  unfolding read_remote_def read_finish_def by (rule refl)

lemma do_read_split:
  "do_read op c i fh off sz w =
     (case read_begin c i fh off sz w of
        (Answered r, w1) \<Rightarrow> (r, w1)
      | (Asks path, w1) \<Rightarrow> read_remote op c i path off sz w1)"
  by (cases "im_get_path (inode_mgr w) i")
    (auto simp: do_read_def read_begin_def get_path_def Let_def split: prod.split option.split)

section \<open>The parts of a prefetch\<close>

definition prefetch_begin :: "nat \<Rightarrow> 's world \<Rightarrow> (string \<times> prefetch_request) option \<times> 's world" where
  "prefetch_begin n w =
     (if n < length (w_prefetches w)
      then let w1 = w\<lparr>w_prefetches := take n (w_prefetches w) @ drop (Suc n) (w_prefetches w)\<rparr>
           in case try_acquire_permit (ra_mgr w) of
                None \<Rightarrow> (None, w1)
              | Some ra \<Rightarrow> (Some (w_prefetches w ! n), w1\<lparr>ra_mgr := ra\<rparr>)
      else (None, w))"

definition prefetch_finish :: "clock \<Rightarrow> prefetch_request \<Rightarrow> bytes result \<Rightarrow> 's world \<Rightarrow> 's world" where
  "prefetch_finish c p r w =
     (case r of
        Inr data \<Rightarrow>
          w\<lparr>ra_mgr := release_permit (store_prefetched (now_mono c)
              \<lparr>pk_inode = pr_inode p, pk_offset = pr_offset p\<rparr> data (ra_mgr w))\<rparr>
      | Inl e \<Rightarrow> w\<lparr>ra_mgr := release_permit (ra_mgr w)\<rparr>)"

lemma run_prefetch_split:
  "run_prefetch op c n w =
     (case prefetch_begin n w of
        (None, w1) \<Rightarrow> w1
      | (Some (path, p), w1) \<Rightarrow>
          (case in_net (oc_read_range op path (pr_offset p) (pr_size p)) w1 of (r, w2) \<Rightarrow> prefetch_finish c p r w2))"
proof (cases "n < length (w_prefetches w)")
  case True
  obtain path p where "w_prefetches w ! n = (path, p)" by (rule prod.exhaust)
  with True show ?thesis
    by (auto simp: run_prefetch_def prefetch_begin_def prefetch_finish_def prefetch_task_def in_net_def Let_def
        split: option.split prod.split sum.split)
qed (simp add: run_prefetch_def prefetch_begin_def)

section \<open>The parts keep the invariant of the world\<close>

lemma read_begin_keeps:
  assumes "read_begin c i fh off sz w = (x, w1)" "world_ok w"
  shows "world_ok w1 \<and> settings w1 = settings w"
proof (cases "im_get_path (inode_mgr w) i")
  case (Some p)
  obtain y ra where g: "get_prefetched (now_mono c) \<lparr>pk_inode = i, pk_offset = off\<rparr> (ra_mgr w) = (y, ra)"
    by (rule prod.exhaust)
  have h: "hm_ok (hm_update fh (update_position (now_mono c) off (ucast sz)) (handle_mgr w))"
    by (rule hm_ok_ops(1) [OF world_okD(3) [OF assms(2)]])
  let ?mt = "inc_read_ops (w_metrics w)"
  show ?thesis
  proof (cases "dc_get (now_mono c) i off (block_cache w, ?mt)")
    case None
    with assms g h Some show ?thesis
      by (cases y) (auto simp: read_begin_def get_path_def Let_def world_ok_def settings_def)
  next
    case (Some z)
    obtain cached dc mt where z: "z = (cached, (dc, mt))" by (metis prod.exhaust)
    have "dc_block_size dc = dc_block_size (block_cache w)" using dc_get_keeps Some z by blast
    with assms g h Some z \<open>im_get_path (inode_mgr w) i = Some p\<close> show ?thesis
      by (cases y; cases cached) (auto simp: read_begin_def get_path_def Let_def world_ok_def settings_def split: if_splits)
  qed
qed (use assms in \<open>auto simp: read_begin_def get_path_def\<close>)

lemma read_finish_keeps:
  assumes "read_finish c i off sz path d w = (r, w1)" "world_ok w"
  shows "world_ok w1 \<and> settings w1 = settings w"
  using assms dc_put_block_size [of "now_mono c" i off d "block_cache w"]
  by (auto simp: read_finish_def world_ok_def settings_def split: option.splits prod.splits)

lemma prefetch_parts_keep:
  "prefetch_begin n w = (x, w1) \<Longrightarrow> world_ok w \<Longrightarrow> world_ok w1 \<and> settings w1 = settings w"
  "world_ok w \<Longrightarrow> world_ok (prefetch_finish c p r w) \<and> settings (prefetch_finish c p r w) = settings w"
  by (auto simp: prefetch_begin_def prefetch_finish_def Let_def split: option.splits if_splits sum.splits)

text \<open>What asking leaves alone, and what it asks for.\<close>

lemma read_begin_asks:
  assumes "read_begin c i fh off sz w = (Asks path, w1)"
  shows "inode_mgr w1 = inode_mgr w \<and> w_config w1 = w_config w \<and> w_store w1 = w_store w \<and>
     dc_block_size (block_cache w1) = dc_block_size (block_cache w) \<and>
     (\<exists>p. im_get_path (inode_mgr w) i = Some p \<and> path = obs_path (w_config w) p)"
proof -
  obtain p where p: "im_get_path (inode_mgr w) i = Some p"
    using assms by (cases "im_get_path (inode_mgr w) i") (simp_all add: read_begin_def get_path_def)
  obtain y ra where g: "get_prefetched (now_mono c) \<lparr>pk_inode = i, pk_offset = off\<rparr> (ra_mgr w) = (y, ra)"
    by (rule prod.exhaust)
  obtain z where z: "dc_get (now_mono c) i off (block_cache w, inc_read_ops (w_metrics w)) = Some z"
    using assms p g
    by (cases "dc_get (now_mono c) i off (block_cache w, inc_read_ops (w_metrics w))"; cases y)
      (auto simp: read_begin_def get_path_def Let_def)
  obtain cached dc mt where c: "z = (cached, (dc, mt))" by (metis prod.exhaust)
  have "dc_block_size dc = dc_block_size (block_cache w)" using dc_get_keeps z c by blast
  with assms p g z c show ?thesis
    by (cases y; cases cached) (auto simp: read_begin_def get_path_def Let_def split: if_splits)
qed

end
