(* ===== verification/Coherence.thy ===== *)
theory Coherence
  imports Replies Contents InFlight
begin

text \<open>
  What a read returns when nothing is written. A read takes its bytes from the prefetch buffer, from
  memory, from the disk cache or from the store (src/src/fs/core.rs, \<open>do_read\<close>). On a workload of
  requests that only read, with reads that miss the caches at multiples of the block size, all four
  hold parts of the objects, so every read returns bytes of the object of its file, at its offset.
\<close>

section \<open>Requests that only read\<close>

fun reading :: "fuse_request \<Rightarrow> u64 \<Rightarrow> bool" where
  "reading (ReqSetattr inode s) bs = (set_size s = None)"
| "reading (ReqOpen inode flags) bs = (flags AND O_TRUNC = 0)"
| "reading (ReqRead inode fh offset sz) bs = (offset mod bs = 0)"
| "reading (ReqWrite inode fh offset data) bs = False"
| "reading (ReqCreate parent name mode flags) bs = False"
| "reading (ReqMkdir parent name mode) bs = False"
| "reading (ReqUnlink parent name) bs = False"
| "reading (ReqRmdir parent name) bs = False"
| "reading (ReqRename parent name new_parent new_name) bs = False"
| "reading _ bs = True"

inductive read_reachable :: "'s operator \<Rightarrow> 's world \<Rightarrow> 's world \<Rightarrow> bool" for op w0 where
  initial: "read_reachable op w0 w0"
| reads: "read_reachable op w0 w \<Longrightarrow> admissible op req w \<Longrightarrow> reading req (dc_block_size (block_cache w)) \<Longrightarrow>
    fuse_handle op c req w = (r, w') \<Longrightarrow> read_reachable op w0 w'"
| prefetches: "read_reachable op w0 w \<Longrightarrow> read_reachable op w0 (run_prefetch op c n w)"

lemma read_reachable_fuse: "read_reachable op w0 w \<Longrightarrow> fuse_reachable op w0 w"
  by (induction rule: read_reachable.induct) (auto intro: fuse_reachable.intros fuse_step.intros)

text \<open>The documented behaviour of a store that its objects do not change by being looked at, whether
  the call succeeds or fails.\<close>

definition calm_store :: "'s operator \<Rightarrow> ('s \<Rightarrow> string \<Rightarrow> bytes option) \<Rightarrow> bool" where
  "calm_store op obj \<longleftrightarrow>
     (\<forall>p s. obj (snd (op_stat op p s)) = obj s) \<and> (\<forall>p s. obj (snd (op_list op p s)) = obj s) \<and>
     (\<forall>p a b s. obj (snd (op_read_range op p a b s)) = obj s)"

section \<open>What a read can see\<close>

text \<open>The object of an inode, and the invariant: blocks, prefetched ranges and pending prefetches agree with
  the objects \<open>objs\<close>, and nothing waits to be written.\<close>

definition content_of :: "(string \<Rightarrow> bytes option) \<Rightarrow> 's world \<Rightarrow> u64 \<Rightarrow> bytes option" where
  "content_of objs w i = Option.bind (im_get_path (inode_mgr w) i) (\<lambda>p. objs (obs_path (w_config w) p))"

definition coherent ::
  "('s \<Rightarrow> string \<Rightarrow> bytes option) \<Rightarrow> (string \<Rightarrow> bytes option) \<Rightarrow> 's world \<Rightarrow> bool" where
  "coherent obj objs w \<longleftrightarrow> obj (w_store w) = objs \<and>
     cache_holds (block_part (content_of objs w)) (block_cache w) \<and>
     (\<forall>k e. dash_get (prefetch_buffer (ra_mgr w)) k = Some e \<longrightarrow>
        part_of (content_of objs w) (pk_inode k) (unat (pk_offset k)) (pd_data e)) \<and>
     (\<forall>path p. (path, p) \<in> set (w_prefetches w) \<longrightarrow>
        (\<exists>q. im_get_path (inode_mgr w) (pr_inode p) = Some q \<and> path = obs_path (w_config w) q)) \<and>
     wb_buffers (write_buf w) = []"

lemma coherentD:
  "coherent obj objs w \<Longrightarrow> dash_get (prefetch_buffer (ra_mgr w)) \<lparr>pk_inode = i, pk_offset = off\<rparr> = Some e \<Longrightarrow>
     part_of (content_of objs w) i (unat off) (pd_data e)"
  "coherent obj objs w \<Longrightarrow> (path, p) \<in> set (w_prefetches w) \<Longrightarrow>
     \<exists>q. im_get_path (inode_mgr w) (pr_inode p) = Some q \<and> path = obs_path (w_config w) q"
  by (force simp: coherent_def)+

text \<open>Steps that leave all of it alone, and at most learn of new inodes.\<close>

definition same_view :: "('s \<Rightarrow> string \<Rightarrow> bytes option) \<Rightarrow> 's world \<Rightarrow> 's world \<Rightarrow> bool" where
  "same_view obj w w' \<longleftrightarrow> obj (w_store w') = obj (w_store w) \<and> block_cache w' = block_cache w \<and>
     ra_mgr w' = ra_mgr w \<and> w_prefetches w' = w_prefetches w \<and> w_config w' = w_config w \<and>
     write_buf w' = write_buf w \<and>
     (\<forall>i p. im_get_path (inode_mgr w) i = Some p \<longrightarrow> im_get_path (inode_mgr w') i = Some p)"

lemma same_view_refl [simp]: "same_view obj w w"
  by (simp add: same_view_def)

lemma same_view_trans: "same_view obj w w1 \<Longrightarrow> same_view obj w1 w2 \<Longrightarrow> same_view obj w w2"
  by (simp add: same_view_def)

lemma same_view_fields [simp]:
  "same_view obj w (w'\<lparr>w_metrics := mt\<rparr>) = same_view obj w w'"
  "same_view obj w (w'\<lparr>meta_cache := mc\<rparr>) = same_view obj w w'"
  "same_view obj w (w'\<lparr>handle_mgr := hm\<rparr>) = same_view obj w w'"
  "same_view obj (w\<lparr>w_metrics := mt\<rparr>) w' = same_view obj w w'"
  "same_view obj (w\<lparr>meta_cache := mc\<rparr>) w' = same_view obj w w'"
  "same_view obj (w\<lparr>handle_mgr := hm\<rparr>) w' = same_view obj w w'"
  by (simp_all add: same_view_def)

lemma content_of_mono: "same_view obj w w' \<Longrightarrow> content_of objs w \<subseteq>\<^sub>m content_of objs w'"
  by (auto simp: same_view_def content_of_def map_le_def bind_eq_Some_conv)

lemma coherent_view:
  assumes "coherent obj objs w" "same_view obj w w'" shows "coherent obj objs w'"
  using assms file_blocks_mono [OF _ content_of_mono [OF assms(2), of objs]]
    part_of_mono [OF _ content_of_mono [OF assms(2), of objs]]
  unfolding coherent_def same_view_def by metis

section \<open>Lookups, attributes and listings leave it alone\<close>

lemma in_net_view:
  "in_net f w = (r, w1) \<Longrightarrow> (\<And>n. obj (snd (snd (f n))) = obj (snd n)) \<Longrightarrow> same_view obj w w1"
  by (auto simp: in_net_Inr same_view_def) (metis snd_conv)

lemma stat_entries_calm:
  "calm_store op obj \<Longrightarrow> obj (snd (snd (stat_entries op ps rs net))) = obj (snd net)"
proof (induction op ps rs net rule: stat_entries.induct)
  case (2 op p ps rs mt s)
  then have s: "obj (snd (op_stat op p s)) = obj s" by (simp add: calm_store_def)
  show ?case
    by (rule obs_call_cases [of "op_stat op p s" mt]) (use 2 s in auto)
qed simp

lemma calm_calls:
  assumes "calm_store op obj"
  shows "obj (snd (snd (oc_stat op p n))) = obj (snd n)" "obj (snd (snd (oc_list op p n))) = obj (snd n)"
    "obj (snd (snd (oc_list_dir op p n))) = obj (snd n)" "obj (snd (snd (oc_read_range op p a b n))) = obj (snd n)"
proof -
  obtain mt s where n: "n = (mt, s)" by (rule prod.exhaust)
  note c = stat_entries_calm [OF assms]
  have o: "op_stat op q s = (r1, s') \<Longrightarrow> obj s' = obj s" "op_list op q s = (r2, s') \<Longrightarrow> obj s' = obj s"
      "op_read_range op q a b' s = (r3, s') \<Longrightarrow> obj s' = obj s" for q b' r1 r2 r3 s'
    using assms unfolding calm_store_def by (metis snd_conv)+
  show "obj (snd (snd (oc_stat op p n))) = obj (snd n)"
    by (rule obs_call_cases [of "op_stat op p s" "inc_obs_get mt"]) (auto simp: oc_stat_def n dest: o)
  show "obj (snd (snd (oc_list op p n))) = obj (snd n)"
    by (rule obs_call_cases [of "op_list op p s" "inc_obs_list mt"]) (auto simp: oc_list_def n c dest: o)
  show "obj (snd (snd (oc_list_dir op p n))) = obj (snd n)"
    by (rule obs_call_cases [of "op_list op (dir_prefix p) s" "inc_obs_list mt"])
      (auto simp: oc_list_dir_def n c dest: o)
  show "obj (snd (snd (oc_read_range op p a b n))) = obj (snd n)"
    by (rule obs_call_cases [of "op_read_range op p a (a + b) s" "inc_obs_get mt"])
      (auto simp: oc_read_range_def n dest: o)
qed

lemma calm_net:
  assumes "calm_store op obj"
  shows "in_net (oc_stat op p) w = (r, w1) \<Longrightarrow> same_view obj w w1"
    "in_net (oc_list op p) w = (r', w1) \<Longrightarrow> same_view obj w w1"
    "in_net (oc_list_dir op p) w = (r', w1) \<Longrightarrow> same_view obj w w1"
    "in_net (oc_read_range op p a b) w = (r'', w1) \<Longrightarrow> same_view obj w w1"
  by (erule in_net_view, rule calm_calls [OF assms])+

lemma meta_view: "in_meta (get_attr t i) w = (r, w1) \<Longrightarrow> same_view obj w w1"
  by (auto simp: in_meta_def split: prod.splits)

lemma remember_view:
  "remember c p d sz f w = (r, w1) \<Longrightarrow> world_ok w \<Longrightarrow> same_view obj w w1"
  using get_or_create_path [of "inode_mgr w" _ _ c p d sz] world_okD(2) [of w]
  by (auto simp: remember_def same_view_def im_ok_def split: prod.splits)

lemma lookup_remote_view:
  assumes "calm_store op obj" "lookup_remote op c q w = (r, w')" "world_ok w"
  shows "same_view obj w w'"
proof -
  obtain r1 w1 where n1: "in_net (oc_stat op (obs_path (w_config w) q)) w = (r1, w1)" by (rule prod.exhaust)
  obtain r2 w2 where n2: "in_net (oc_stat op (as_dir (obs_path (w_config w) q))) w1 = (r2, w2)" by (rule prod.exhaust)
  obtain r3 w3 where n3: "in_net (oc_list op (as_dir (obs_path (w_config w) q))) w2 = (r3, w3)" by (rule prod.exhaust)
  have k: "world_ok w1" "world_ok w2" "world_ok w3" using in_net_keeps n1 n2 n3 assms(3) by metis+
  note v1 = calm_net(1) [OF assms(1) n1] and v2 = same_view_trans [OF calm_net(1) [OF assms(1) n1] calm_net(1) [OF assms(1) n2]]
  note v3 = same_view_trans [OF v2 calm_net(2) [OF assms(1) n3]]
  note rem = remember_view [where obj = obj, THEN same_view_trans [rotated]]
  show ?thesis
  proof (cases r1)
    case (Inr meta)
    with assms(2) n1 rem [OF _ k(1) v1] show ?thesis by (auto simp: lookup_remote_def Let_def split: prod.splits)
  next
    case 1: (Inl e)
    show ?thesis
    proof (cases r2)
      case (Inr meta)
      with 1 assms(2) n1 n2 rem [OF _ k(2) v2] show ?thesis by (auto simp: lookup_remote_def Let_def split: prod.splits)
    next
      case (Inl e2)
      with 1 assms(2) n1 n2 n3 v3 rem [OF _ k(3) v3] show ?thesis
        by (auto simp: lookup_remote_def Let_def split: prod.splits sum.splits list.splits)
    qed
  qed
qed

lemma do_lookup_same_view:
  assumes "calm_store op obj" "do_lookup op c parent name w = (r, w')" "world_ok w"
  shows "same_view obj w w'"
proof (cases "im_get_path (inode_mgr w) parent")
  case (Some p)
  let ?q = "join_path p name"
  obtain b mc where n: "is_negative (now_mono c) ?q (meta_cache w) = (b, mc)" by (rule prod.exhaust)
  let ?w1 = "w\<lparr>meta_cache := mc\<rparr>"
  have w1: "world_ok ?w1"
    using mc_ok_ops(6) [OF world_okD(1) [OF assms(3)], of "now_mono c" ?q] n assms(3) by (simp add: world_ok_def)
  obtain x w2 where l: "lookup_cached c ?q ?w1 = (x, w2)" by (rule prod.exhaust)
  have k: "world_ok w2 \<and> same_view obj ?w1 w2"
  proof (cases "get_inode (inode_mgr w) ?q")
    case (Some j)
    obtain y w3 where g: "in_meta (get_attr (now_mono c) j) ?w1 = (y, w3)" by (rule prod.exhaust)
    from in_meta_get_attr [OF g w1] meta_view [OF g] l Some g show ?thesis by (cases y) (auto simp: lookup_cached_def)
  qed (use l w1 in \<open>auto simp: lookup_cached_def\<close>)
  show ?thesis
  proof (cases "b \<or> x \<noteq> None")
    case True
    with assms(2) Some n l k show ?thesis by (cases b) (auto simp: do_lookup_def get_path_def)
  next
    case False
    with assms(2) Some n l have "lookup_remote op c ?q w2 = (r, w')" by (cases x) (auto simp: do_lookup_def get_path_def)
    with lookup_remote_view [OF assms(1)] k show ?thesis using same_view_trans by fastforce
  qed
qed (use assms(2) in \<open>simp add: do_lookup_def get_path_def\<close>)

lemma do_getattr_same_view:
  assumes "calm_store op obj" "do_getattr op c i w = (r, w')" shows "same_view obj w w'"
proof -
  obtain x w1 where g: "in_meta (get_attr (now_mono c) i) (w\<lparr>w_metrics := inc_getattr_ops (w_metrics w)\<rparr>) = (x, w1)"
    by (rule prod.exhaust)
  have v: "same_view obj w w1" using meta_view [OF g, of obj] by simp
  show ?thesis
  proof (cases "x = None \<and> im_get_path (inode_mgr w1) i \<noteq> None")
    case True
    then obtain p where p: "im_get_path (inode_mgr w1) i = Some p" by blast
    obtain y w2 where n: "in_net (oc_stat op (obs_path (w_config w1) p)) w1 = (y, w2)" by (rule prod.exhaust)
    have "same_view obj w w2" using same_view_trans [OF v calm_net(1) [OF assms(1) n]] .
    with True assms(2) g p n show ?thesis by (cases y) (auto simp: do_getattr_def get_path_def Let_def)
  next
    case False
    with assms(2) g v show ?thesis by (cases x) (auto simp: do_getattr_def get_path_def)
  qed
qed

lemma readdir_loop_same_view:
  assumes "readdir_loop c path off eo metas w = (es, is, w1)" "world_ok w" "room (length metas) w"
  shows "same_view obj w w1"
  using assms
proof (induction c path off eo metas w arbitrary: es "is" w1 rule: readdir_loop.induct)
  case (2 c path off eo meta metas w)
  show ?case
  proof (cases "eo \<le> off \<or> skip_name (om_name meta)")
    case True
    with 2 show ?thesis by (auto simp: room_def split: if_splits)
  next
    case f: False
    let ?attr = "\<lambda>i. from_object_meta (now_wall c) (cfg_permission (w_config w)) i meta"
    obtain i a w2 where r:
      "remember c (join_path path (om_name meta)) (om_is_dir meta) (om_size meta) ?attr w = ((i, a), w2)"
      by (metis prod.exhaust)
    obtain es2 is2 w3 where l: "readdir_loop c path off (eo + 1) metas w2 = (es2, is2, w3)" by (metis prod.exhaust)
    have "room 1 w" using "2.prems"(3) by (simp add: room_def)
    note k = remember_keeps [OF r "2.prems"(2) this]
    then have "room (length metas) w2" "world_ok w2" using "2.prems"(3) by (simp_all add: room_def)
    with "2.IH"(3) [OF _ _ r [symmetric] refl l] f have "same_view obj w2 w3" by simp
    with remember_view [OF r "2.prems"(2)] have "same_view obj w w3" by (rule same_view_trans)
    with "2.prems"(1) f r l show ?thesis by simp
  qed
qed simp

lemma do_readdir_same_view:
  assumes "calm_store op obj" "do_readdir op c i off w = (r, w')" "world_ok w" "room (listing_size op i w) w"
  shows "same_view obj w w'"
proof (cases "im_get_path (inode_mgr w) i")
  case (Some path)
  let ?p0 = "obs_path (w_config w) path"
  let ?pre = "if ?p0 = [] then [] else as_dir ?p0"
  obtain x w1 where n: "in_net (oc_list_dir op ?pre) w = (x, w1)" by (rule prod.exhaust)
  note k = in_net_keeps [OF n assms(3)] and v = calm_net(3) [OF assms(1) n]
  show ?thesis
  proof (cases x)
    case (Inl e)
    with assms(2) n v Some show ?thesis by (simp add: do_readdir_def get_path_def Let_def)
  next
    case (Inr metas)
    obtain es ins w2 where l: "readdir_loop c path off 3 metas w1 = (es, ins, w2)" by (metis prod.exhaust)
    have "room (length metas) w1"
      using assms(4) Some n Inr k by (simp add: listing_size_def room_def Let_def)
    then have "same_view obj w w2" using readdir_loop_same_view [OF l] k same_view_trans [OF v] by blast
    moreover have "w' = w2\<lparr>inode_mgr := set_children c i ins (inode_mgr w2)\<rparr>"
      using assms(2) Some n Inr l by (simp add: do_readdir_def get_path_def Let_def)
    ultimately show ?thesis by (simp add: same_view_def set_children_def modify_entry_path)
  qed
qed (use assms(2) in \<open>simp add: do_readdir_def get_path_def\<close>)

section \<open>Reads and prefetches keep it\<close>

lemma content_of_fields [simp]:
  "content_of objs (w\<lparr>w_metrics := mt\<rparr>) = content_of objs w" "content_of objs (w\<lparr>w_store := s\<rparr>) = content_of objs w"
  "content_of objs (w\<lparr>block_cache := dc\<rparr>) = content_of objs w" "content_of objs (w\<lparr>ra_mgr := ra\<rparr>) = content_of objs w"
  "content_of objs (w\<lparr>handle_mgr := hm\<rparr>) = content_of objs w" "content_of objs (w\<lparr>w_prefetches := ps\<rparr>) = content_of objs w"
  "content_of objs (w\<lparr>write_buf := wb\<rparr>) = content_of objs w"
  by (simp_all add: content_of_def fun_eq_iff)

lemma range_part:
  assumes "faithful_store op obj" "in_net (oc_read_range op path off sz) w = (Inr d, w1)"
    and "im_get_path (inode_mgr w) i = Some p" "path = obs_path (w_config w) p"
  shows "part_of (content_of (obj (w_store w)) w) i (unat off) d \<and> length d \<le> unat sz"
proof -
  obtain mt s where r: "oc_read_range op path off sz (w_metrics w, w_store w) = (Inr d, (mt, s))"
    using assms(2) by (auto simp: in_net_Inr)
  obtain y s1 where y: "op_read_range op path off (off + sz) (w_store w) = (y, s1)" by (rule prod.exhaust)
  with r have "y = Inr d" by (cases y) (auto simp: oc_read_range_def)
  then obtain x where x: "obj (w_store w) path = Some x" "d = take (unat (off + sz) - unat off) (drop (unat off) x)"
    using assms(1) y unfolding faithful_store_def by metis
  have "unat (off + sz) \<le> unat off + unat sz" by (simp add: unat_word_ariths)
  then have "length d \<le> unat sz" using x(2) by simp
  with x assms(3,4) show ?thesis by (auto simp: part_of_def content_of_def)
qed

lemma record_read_effect:
  "record_read now i off sz ra = (request, ra') \<Longrightarrow>
     prefetch_buffer ra' = prefetch_buffer ra \<and> (\<forall>p. request = Some p \<longrightarrow> pr_inode p = i)"
  by (auto simp: record_read_def Let_def split: if_splits prod.splits)

lemma aligned_key:
  assumes "off mod bs = 0" "block_key_new i off bs = Some k"
  shows "k = \<lparr>bk_inode = i, bk_offset = off\<rparr>"
  using assms div_mult_mod_eq [of off bs] by (auto simp: block_key_new_def split: if_splits)

lemma read_finish_coherent:
  assumes "coherent obj objs w" "im_get_path (inode_mgr w) i = Some p" "path = obs_path (w_config w) p"
    and "part_of (content_of objs w) i (unat off) d" "off mod dc_block_size (block_cache w) = 0"
    and "read_finish c i off sz path d w = (r, w')"
  shows "coherent obj objs w'"
proof (cases "dc_put (now_mono c) i off d (block_cache w)")
  case None
  with assms(1,6) show ?thesis by (simp add: read_finish_def)
next
  case (Some dc)
  obtain request ra where rr: "record_read (now_mono c) i off (ucast sz) (ra_mgr w) = (request, ra)" by (rule prod.exhaust)
  have "cache_holds (block_part (content_of objs w)) dc"
  proof (rule file_blocks.dc_put_holds [OF Some])
    show "cache_holds (block_part (content_of objs w)) (block_cache w)" using assms(1) by (simp add: coherent_def)
    show "block_part (content_of objs w) k d" if "block_key_new i off (dc_block_size (block_cache w)) = Some k" for k
      using aligned_key [OF assms(5) that] assms(4) by (simp add: block_part_def)
  qed
  with Some rr record_read_effect [OF rr] assms(1-3,6) show ?thesis
    by (auto simp: read_finish_def coherent_def split: option.splits)
qed

lemma get_prefetched_part:
  assumes "get_prefetched now k ra = (r, ra')"
  shows "(\<forall>j e. dash_get (prefetch_buffer ra') j = Some e \<longrightarrow> dash_get (prefetch_buffer ra) j = Some e) \<and>
     (\<forall>d. r = Some d \<longrightarrow> (\<exists>e. dash_get (prefetch_buffer ra) k = Some e \<and> pd_data e = d))"
  using assms by (auto simp: get_prefetched_def split: option.splits if_splits)

lemma slice_part:
  assumes "part_of content i (unat off - unat (off mod bs)) d"
  shows "part_of content i (unat off) (slice (unat (off mod bs)) (min (unat (off mod bs) + n) (length d)) d)"
proof -
  have "unat (off mod bs) \<le> unat off" by (simp add: unat_mod)
  with part_of_take [OF part_of_drop [OF assms, of "unat (off mod bs)"]] show ?thesis by (simp add: slice_def)
qed

lemma block_offset:
  assumes "block_key_new i off bs = Some k"
  shows "bk_inode k = i \<and> unat (bk_offset k) = unat off - unat (off mod bs)"
proof -
  have "(off div bs) * bs = off - off mod bs" by (simp add: minus_mod_eq_div_mult)
  moreover have "off mod bs \<le> off" by (simp add: word_le_nat_alt unat_mod)
  ultimately show ?thesis
    using assms by (auto simp: block_key_new_def unat_sub split: if_splits)
qed

text \<open>The first part of a read, in the order in which the code looks: the prefetch buffer, the cache.\<close>

lemma read_begin_coherent:
  assumes "coherent obj objs w" "read_begin c i fh off sz w = (x, w')"
  shows "coherent obj objs w' \<and> inode_mgr w' = inode_mgr w \<and> w_config w' = w_config w \<and>
     dc_block_size (block_cache w') = dc_block_size (block_cache w)"
    and "x = Answered (Inr d) \<Longrightarrow> part_of (content_of objs w) i (unat off) d \<and> length d \<le> unat sz"
    and "x = Asks path \<Longrightarrow> \<exists>p. im_get_path (inode_mgr w) i = Some p \<and> path = obs_path (w_config w) p"
proof -
  let ?bs = "dc_block_size (block_cache w)"
  let ?good = "(coherent obj objs w' \<and> inode_mgr w' = inode_mgr w \<and> w_config w' = w_config w \<and>
       dc_block_size (block_cache w') = ?bs) \<and>
     (\<forall>d. x = Answered (Inr d) \<longrightarrow> part_of (content_of objs w) i (unat off) d \<and> length d \<le> unat sz) \<and>
     (\<forall>path. x = Asks path \<longrightarrow> (\<exists>p. im_get_path (inode_mgr w) i = Some p \<and> path = obs_path (w_config w) p))"
  have ?good
  proof (cases "im_get_path (inode_mgr w) i")
    case None
    with assms show ?thesis by (auto simp: read_begin_def get_path_def coherent_def content_of_def)
  next
    case p: (Some p)
    define w0 where "w0 = w\<lparr>w_metrics := inc_read_ops (w_metrics w),
        handle_mgr := hm_update fh (update_position (now_mono c) off (ucast sz)) (handle_mgr w)\<rparr>"
    obtain y ra where g: "get_prefetched (now_mono c) \<lparr>pk_inode = i, pk_offset = off\<rparr> (ra_mgr w) = (y, ra)"
      by (rule prod.exhaust)
    note pf = get_prefetched_part [OF g]
    let ?w1 = "w0\<lparr>ra_mgr := ra\<rparr>"
    have w1: "coherent obj objs ?w1" "content_of objs ?w1 = content_of objs w"
      using assms(1) pf by (auto simp: coherent_def w0_def content_of_def)
    show ?thesis
    proof (cases y)
      case (Some e)
      then have "part_of (content_of objs w) i (unat off) e" using pf coherentD(1) [OF assms(1)] by auto
      moreover have "x = Answered (Inr (slice 0 (min (unat sz) (length e)) e)) \<and> w' = ?w1"
        using assms(2) Some g p by (auto simp: read_begin_def get_path_def Let_def w0_def)
      ultimately show ?thesis using w1(1) by (auto simp: slice_def w0_def intro: part_of_take)
    next
      case y: None
      show ?thesis
      proof (cases "dc_get (now_mono c) i off (block_cache w, w_metrics ?w1)")
        case None
        then have "x = Answered (Inl Panic) \<and> w' = ?w1"
          using assms(2) y g p by (auto simp: read_begin_def get_path_def Let_def w0_def)
        with w1 show ?thesis by (simp add: w0_def)
      next
        case h: (Some z)
        obtain cached dc mt where z: "z = (cached, (dc, mt))" by (metis prod.exhaust)
        let ?w2 = "?w1\<lparr>block_cache := dc, w_metrics := mt\<rparr>"
        have bs: "dc_block_size dc = ?bs" using dc_get_keeps h z by blast
        note hit = file_blocks.dc_get_holds [OF h [unfolded z], of "content_of objs w"]
        have w2: "coherent obj objs ?w2" using w1 assms(1) hit by (auto simp: coherent_def)
        obtain k where k: "block_key_new i off ?bs = Some k"
          using h by (cases "block_key_new i off ?bs") (simp_all add: dc_get_def)
        have part: "part_of (content_of objs w) i (unat off - unat (off mod ?bs)) b" if "cached = Some b" for b
          using hit that k block_offset [OF k] assms(1) by (simp add: block_part_def coherent_def)
        show ?thesis
        proof (cases "\<exists>b. cached = Some b \<and> unat (off mod ?bs) < length b")
          case True
          then obtain b where b: "cached = Some b" "unat (off mod ?bs) < length b" by blast
          have "x = Answered (Inr (slice (unat (off mod ?bs)) (min (unat (off mod ?bs) + unat sz) (length b)) b)) \<and> w' = ?w2"
            using assms(2) y g p h z b bs by (auto simp: read_begin_def get_path_def Let_def w0_def)
          with slice_part [OF part [OF b(1)]] w2 bs show ?thesis by (auto simp: slice_def w0_def)
        next
          case False
          then have "x = Asks (obs_path (w_config w) p) \<and> w' = ?w2"
            using assms(2) y g p h z bs by (cases cached) (auto simp: read_begin_def get_path_def Let_def w0_def)
          with w2 bs p show ?thesis by (simp add: w0_def)
        qed
      qed
    qed
  qed
  then show "coherent obj objs w' \<and> inode_mgr w' = inode_mgr w \<and> w_config w' = w_config w \<and>
     dc_block_size (block_cache w') = ?bs"
    "x = Answered (Inr d) \<Longrightarrow> part_of (content_of objs w) i (unat off) d \<and> length d \<le> unat sz"
    "x = Asks path \<Longrightarrow> \<exists>p. im_get_path (inode_mgr w) i = Some p \<and> path = obs_path (w_config w) p"
    by blast+
qed

text \<open>The call of the client, of a read as of a prefetch.\<close>

lemma fetch_coherent:
  assumes "faithful_store op obj" "calm_store op obj" "coherent obj objs w"
    and "in_net (oc_read_range op path off n) w = (x, w')"
  shows "coherent obj objs w' \<and> inode_mgr w' = inode_mgr w \<and> w_config w' = w_config w \<and>
     block_cache w' = block_cache w"
    and "x = Inr d \<Longrightarrow> im_get_path (inode_mgr w) i = Some p \<Longrightarrow> path = obs_path (w_config w) p \<Longrightarrow>
     part_of (content_of objs w) i (unat off) d \<and> length d \<le> unat n"
proof -
  have "inode_mgr w' = inode_mgr w \<and> w_config w' = w_config w \<and> block_cache w' = block_cache w"
    using assms(4) by (auto simp: in_net_Inr)
  with coherent_view [OF assms(3) calm_net(4) [OF assms(2,4)]]
  show "coherent obj objs w' \<and> inode_mgr w' = inode_mgr w \<and> w_config w' = w_config w \<and>
     block_cache w' = block_cache w" by simp
  have o: "obj (w_store w) = objs" using assms(3) by (simp add: coherent_def)
  show "x = Inr d \<Longrightarrow> im_get_path (inode_mgr w) i = Some p \<Longrightarrow> path = obs_path (w_config w) p \<Longrightarrow>
     part_of (content_of objs w) i (unat off) d \<and> length d \<le> unat n"
    using range_part [OF assms(1), of path off n w d w' i p] assms(4) unfolding o by blast
qed

lemma do_read_coherent:
  assumes "faithful_store op obj" "calm_store op obj" "coherent obj objs w"
    and "do_read op c i fh off sz w = (r, w')"
  shows "off mod dc_block_size (block_cache w) = 0 \<Longrightarrow> coherent obj objs w'"
    and "r = Inr d \<Longrightarrow> part_of (content_of objs w) i (unat off) d \<and> length d \<le> unat sz"
proof -
  obtain x w1 where b: "read_begin c i fh off sz w = (x, w1)" by (rule prod.exhaust)
  note rb = read_begin_coherent [OF assms(3) b]
  have "(off mod dc_block_size (block_cache w) = 0 \<longrightarrow> coherent obj objs w') \<and>
      (\<forall>d. r = Inr d \<longrightarrow> part_of (content_of objs w) i (unat off) d \<and> length d \<le> unat sz)"
  proof (cases x)
    case (Answered y)
    with assms(4) b rb show ?thesis by (auto simp: do_read_split)
  next
    case (Asks path)
    then obtain p where p: "im_get_path (inode_mgr w1) i = Some p" "path = obs_path (w_config w1) p"
      using rb(1,3) by auto
    obtain z w2 where f: "in_net (oc_read_range op path off (ucast sz)) w1 = (z, w2)" by (rule prod.exhaust)
    note fc = fetch_coherent [OF assms(1,2) conjunct1 [OF rb(1)] f]
    have run: "and_then (or_errno EIO (z, w2)) (read_finish c i off sz path) = (r, w')"
      using assms(4) b Asks f by (simp add: do_read_split read_remote_split)
    have cw: "content_of objs w2 = content_of objs w" "content_of objs w1 = content_of objs w"
      using rb(1) fc(1) by (simp_all add: content_of_def fun_eq_iff)
    show ?thesis
    proof (cases z)
      case (Inl e)
      with run fc(1) show ?thesis by auto
    next
      case (Inr e)
      then have fin: "read_finish c i off sz path e w2 = (r, w')" using run by simp
      have e: "part_of (content_of objs w) i (unat off) e" "length e \<le> unat sz"
        using fc(2) [OF Inr p] cw by simp_all
      moreover have "r = Inr d \<longrightarrow> d = e" for d
        using fin by (auto simp: read_finish_def split: option.splits prod.splits)
      ultimately show ?thesis
        using read_finish_coherent [OF _ _ _ _ _ fin] fc(1) rb(1) p cw by auto
    qed
  qed
  then show "off mod dc_block_size (block_cache w) = 0 \<Longrightarrow> coherent obj objs w'"
    "r = Inr d \<Longrightarrow> part_of (content_of objs w) i (unat off) d \<and> length d \<le> unat sz"
    by simp_all
qed

lemma prefetch_begin_coherent:
  assumes "coherent obj objs w" "prefetch_begin n w = (x, w')"
  shows "coherent obj objs w' \<and> inode_mgr w' = inode_mgr w \<and> w_config w' = w_config w \<and>
     block_cache w' = block_cache w"
    and "x = Some (path, p) \<Longrightarrow>
     \<exists>q. im_get_path (inode_mgr w) (pr_inode p) = Some q \<and> path = obs_path (w_config w) q"
proof -
  have rest: "set (take n (w_prefetches w) @ drop (Suc n) (w_prefetches w)) \<subseteq> set (w_prefetches w)"
    using set_take_subset [of n "w_prefetches w"] set_drop_subset [of "Suc n" "w_prefetches w"] by auto
  show "coherent obj objs w' \<and> inode_mgr w' = inode_mgr w \<and> w_config w' = w_config w \<and>
     block_cache w' = block_cache w"
    using assms rest
    by (fastforce simp: prefetch_begin_def try_acquire_permit_def coherent_def content_of_def Let_def
        split: if_splits)
  show "x = Some (path, p) \<Longrightarrow> \<exists>q. im_get_path (inode_mgr w) (pr_inode p) = Some q \<and> path = obs_path (w_config w) q"
    using assms(2) coherentD(2) [OF assms(1)]
    by (auto simp: prefetch_begin_def Let_def split: if_splits option.splits) (metis nth_mem)
qed

lemma prefetch_finish_coherent:
  assumes "coherent obj objs w" "\<And>d. r = Inr d \<Longrightarrow> part_of (content_of objs w) (pr_inode p) (unat (pr_offset p)) d"
  shows "coherent obj objs (prefetch_finish c p r w)"
  using assms by (cases r) (auto simp: prefetch_finish_def coherent_def release_permit_def store_prefetched_def)

lemma run_prefetch_coherent:
  assumes "faithful_store op obj" "calm_store op obj" "coherent obj objs w"
  shows "coherent obj objs (run_prefetch op c n w)"
proof -
  obtain x w1 where b: "prefetch_begin n w = (x, w1)" by (rule prod.exhaust)
  note pb = prefetch_begin_coherent [OF assms(3) b]
  show ?thesis
  proof (cases x)
    case (Some y)
    obtain path p where y: "y = (path, p)" by (rule prod.exhaust)
    obtain r w2 where f: "in_net (oc_read_range op path (pr_offset p) (pr_size p)) w1 = (r, w2)" by (rule prod.exhaust)
    note fc = fetch_coherent [OF assms(1,2) conjunct1 [OF pb(1)] f]
    have "part_of (content_of objs w2) (pr_inode p) (unat (pr_offset p)) d" if "r = Inr d" for d
    proof -
      obtain q where "im_get_path (inode_mgr w1) (pr_inode p) = Some q" "path = obs_path (w_config w1) q"
        using pb Some y by auto
      with fc(2) [OF that] have "part_of (content_of objs w1) (pr_inode p) (unat (pr_offset p)) d" by blast
      moreover have "content_of objs w2 = content_of objs w1" using fc(1) by (simp add: content_of_def fun_eq_iff)
      ultimately show ?thesis by simp
    qed
    with fc(1) have "coherent obj objs (prefetch_finish c p r w2)" by (intro prefetch_finish_coherent) simp_all
    with b Some y f show ?thesis by (simp add: run_prefetch_split)
  qed (use b pb in \<open>simp add: run_prefetch_split\<close>)
qed

section \<open>Every request that reads keeps it\<close>

lemma snd_replies [simp]: "snd (with_reply f r) = snd r" "snd (map_fs_err r) = snd r"
  by (simp_all add: with_reply_def map_fs_err_def split: prod.split sum.split)

lemma snd_and_then [simp]: "(\<And>a w. snd (k a w) = w) \<Longrightarrow> snd (and_then x k) = snd x"
  by (cases x; cases "fst x") simp_all

lemma nothing_to_flush:
  assumes "wb_buffers (write_buf w) = []"
  shows "same_view obj w (snd (do_flush op i w))" "same_view obj w (snd (do_fsync op i w))"
    "same_view obj w (snd (do_release op i fh w))" "same_view obj w (snd (fuse_destroy op w))"
proof -
  have "w\<lparr>write_buf := write_buf w\<lparr>wb_buffers := []\<rparr>\<rparr> = w" using assms by simp
  then show "same_view obj w (snd (do_flush op i w))" "same_view obj w (snd (do_fsync op i w))"
    "same_view obj w (snd (do_release op i fh w))" "same_view obj w (snd (fuse_destroy op w))"
    using assms
    by (simp_all add: do_flush_def do_fsync_def do_release_def fuse_destroy_def core_flush_all_def in_wb_def
        wb_flush_def sync_flush_def wb_release_def wb_flush_all_def or_errno_def same_view_def)
qed

lemma setattr_update_view: "same_view obj w (snd (setattr_update c i s w))"
proof -
  obtain r w1 where g: "in_meta (get_attr (now_mono c) i) w = (r, w1)" by (rule prod.exhaust)
  from meta_view [OF g, of obj] g show ?thesis
    by (auto simp: setattr_update_def store_attr_def split: option.split)
qed

lemma reading_view:
  assumes "calm_store op obj" "world_ok w" "admissible op req w" "reading req bs"
    and "wb_buffers (write_buf w) = []" "\<And>i fh off sz. req \<noteq> ReqRead i fh off sz"
  shows "same_view obj w (snd (fuse_handle op c req w))"
proof (cases req)
  case (ReqLookup parent name)
  let ?w0 = "w\<lparr>w_metrics := inc_lookup_ops (w_metrics w)\<rparr>"
  obtain r w1 where "do_lookup op c parent name ?w0 = (r, w1)" by (rule prod.exhaust)
  with do_lookup_same_view [OF assms(1) this] assms(2) ReqLookup show ?thesis
    by (simp add: fuse_lookup_def split: prod.split)
next
  case (ReqGetattr i)
  obtain r w1 where "do_getattr op c i w = (r, w1)" by (rule prod.exhaust)
  with do_getattr_same_view [OF assms(1) this] ReqGetattr show ?thesis by (simp add: fuse_getattr_def)
next
  case (ReqReaddir i off)
  let ?w0 = "w\<lparr>w_metrics := inc_readdir_ops (w_metrics w)\<rparr>"
  obtain r w1 where "do_readdir op c i off ?w0 = (r, w1)" by (rule prod.exhaust)
  with do_readdir_same_view [OF assms(1) this] assms(2,3) ReqReaddir show ?thesis
    by (simp add: fuse_readdir_def room_def)
next
  case (ReqOpen i flags)
  with assms(4) show ?thesis by (simp add: fuse_open_def do_open_def split: prod.split)
next
  case (ReqOpendir i flags)
  then show ?thesis by (simp add: fuse_opendir_def do_opendir_def split: prod.split)
next
  case (ReqSetattr i s)
  with assms(4) show ?thesis by (simp add: fuse_setattr_def setattr_update_view)
qed (use assms(4-6) nothing_to_flush [OF assms(5)] in \<open>auto simp: fuse_flush_def fuse_fsync_def fuse_release_def
    fuse_access_def fuse_releasedir_def do_close_def\<close>)

lemma fuse_handle_coherent:
  assumes "faithful_store op obj" "calm_store op obj" "coherent obj objs w" "world_ok w"
    and "admissible op req w" "reading req (dc_block_size (block_cache w))" "fuse_handle op c req w = (r, w')"
  shows "coherent obj objs w'"
proof (cases "\<exists>i fh off sz. req = ReqRead i fh off sz")
  case True
  then obtain i fh off sz where q: "req = ReqRead i fh off sz" by blast
  obtain r1 w1 where d: "do_read op c i fh off sz w = (r1, w1)" by (rule prod.exhaust)
  have "w' = w1" using assms(7) q d snd_replies(1,2) by (metis fuse_handle.simps(7) fuse_read_def snd_conv)
  with do_read_coherent(1) [OF assms(1-3) d] assms(6) q show ?thesis by simp
next
  case False
  then have "same_view obj w (snd (fuse_handle op c req w))"
    using reading_view [OF assms(2,4-6)] assms(3) by (simp add: coherent_def)
  with coherent_view [OF assms(3)] assms(7) show ?thesis by simp
qed

lemma read_reachable_coherent:
  assumes "read_reachable op w0 w" "world_ok w0" "faithful_store op obj" "calm_store op obj" "coherent obj objs w0"
  shows "coherent obj objs w"
  using assms
proof (induction rule: read_reachable.induct)
  case (reads w req c r w')
  have "world_ok w" using fuse_reachable_ok [OF read_reachable_fuse [OF reads.hyps(1)] reads.prems(1)] by blast
  with fuse_handle_coherent reads show ?case by blast
next
  case (prefetches w c n)
  with run_prefetch_coherent show ?case by blast
qed

lemma core_new_coherent: "coherent obj (obj s) (core_new c d cfg mt s)"
  by (simp add: coherent_def core_new_def cache_holds_new ra_new_def wb_new_def)

section \<open>Reads return the file\<close>

lemma part_of_object:
  assumes "part_of (content_of objs w) i (unat off) data" "length data \<le> unat sz"
  shows "\<exists>p x n. im_get_path (inode_mgr w) i = Some p \<and> objs (obs_path (w_config w) p) = Some x \<and> n \<le> unat sz \<and>
     data = take n (drop (unat off) x)"
proof -
  obtain p x n where p: "im_get_path (inode_mgr w) i = Some p" "objs (obs_path (w_config w) p) = Some x"
      "data = take n (drop (unat off) x)"
    using assms(1) by (auto simp: part_of_def content_of_def bind_eq_Some_conv)
  then have "data = take (length data) (drop (unat off) x)" by (simp add: min_def)
  with p assms(2) show ?thesis by blast
qed

text \<open>C6 (reads return the file): on a read-only workload (requests that write nothing, with reads at
  multiples of the block size, and prefetch tasks at any time) over a store that behaves as documented,
  every successful read, at any offset, returns bytes of the object of its file, from the offset on and
  at most as many as asked for, wherever they were cached: in the prefetch buffer, in memory or on a disk
  whose reads and writes may fail. It may return fewer bytes than the object has there.\<close>

theorem reads_return_file:
  assumes "read_reachable op (core_new c0 d cfg mt s) w" "faithful_store op obj" "calm_store op obj"
    and "fuse_handle op c (ReqRead i fh off sz) w = (Inr reply, w')"
  shows "\<exists>p x n. im_get_path (inode_mgr w) i = Some p \<and> obj s (obs_path cfg p) = Some x \<and> n \<le> unat sz \<and>
     reply = ReplyData (take n (drop (unat off) x))"
proof -
  have co: "coherent obj (obj s) w"
    using read_reachable_coherent [OF assms(1) core_new_ok assms(2,3) core_new_coherent] .
  have "settings w = settings (core_new c0 d cfg mt s)"
    using fuse_reachable_ok [OF read_reachable_fuse [OF assms(1)] core_new_ok] by simp
  then have cfg: "w_config w = cfg" by (simp add: settings_def core_new_def)
  obtain data where r: "do_read op c i fh off sz w = (Inr data, w')" "reply = ReplyData data"
    using assms(4) by (auto simp: runs_Inr fuse_read_def)
  have "part_of (content_of (obj s) w) i (unat off) data" "length data \<le> unat sz"
    using do_read_coherent(2) [OF assms(2,3) co r(1) refl] by simp_all
  from part_of_object [OF this] r(2) cfg show ?thesis by auto
qed

lemma map_operator_calm: "calm_store map_operator ms_obj"
  by (simp add: calm_store_def map_operator_def)

abbreviation one_file :: "map_store world" where
  "one_file \<equiv> demo_world [(''f'', [1, 2, 3, 4, 5])]"

lemma one_file_start:
  "one_file = core_new (demo_clock 0) demo_disk demo_config metrics_new
     \<lparr>ms_objects = [(''f'', [1, 2, 3, 4, 5])], ms_broken = []\<rparr>"
  by (simp only: demo_world_def)

text \<open>The world after a lookup of the file.\<close>

lemma one_file_found:
  obtains r w i where "fuse_handle map_operator (demo_clock 1) (ReqLookup 1 ''f'') one_file = (r, w)"
    "admissible map_operator (ReqLookup 1 ''f'') one_file" "im_get_path (inode_mgr w) i = Some ''f''"
    "no_cached_data i w" "dc_block_size (block_cache w) = 4" "obs_path (w_config w) ''f'' = ''f''"
    "w_store w = \<lparr>ms_objects = [(''f'', [1, 2, 3, 4, 5])], ms_broken = []\<rparr>"
proof -
  let ?m0 = "one_file\<lparr>w_metrics := inc_lookup_ops (w_metrics one_file)\<rparr>"
  obtain i a w where l: "do_lookup map_operator (demo_clock 1) 1 ''f'' ?m0 = (Inr (i, a), w)"
      "w_store w = w_store one_file" "w_config w = w_config one_file"
    using demo_lookup_metrics [of "demo_clock 1" "inc_lookup_ops (w_metrics one_file)" "[1, 2, 3, 4, 5]"] by auto
  have ok: "world_ok one_file" by (simp only: demo_world_def core_new_ok)
  have room: "room 1 one_file" by (simp add: room_def im_new_def im_init_root_def Let_def ROOT_INODE_def)
  have v: "same_view ms_obj one_file w" using do_lookup_same_view [OF map_operator_calm l(1)] ok by simp
  have adm: "admissible map_operator (ReqLookup 1 ''f'') one_file" using room by (simp add: good_name_def)
  obtain r where r: "fuse_handle map_operator (demo_clock 1) (ReqLookup 1 ''f'') one_file = (r, w)"
    using l(1) by (simp add: fuse_lookup_def map_fs_err_def with_reply_def)
  have p: "im_get_path (inode_mgr w) i = Some ''f''"
    using lookup_names [OF l(1)] ok room demo_root by (simp add: names_child_def join_path_def good_name_def room_def)
  have "no_cached_data i w" "dc_block_size (block_cache w) = 4" "obs_path (w_config w) ''f'' = ''f''"
    using v demo_nothing_cached [of i] l(3) by (simp_all add: same_view_def no_cached_data_def)
  with that [OF r adm p] l(2) show thesis by simp
qed

lemma reads_return_file_witness:
  "\<exists>w i w' x n. read_reachable map_operator one_file w \<and>
     fuse_handle map_operator (demo_clock 1) (ReqRead i 1 0 3) w = (Inr (ReplyData [1, 2, 3]), w') \<and>
     ms_obj (w_store one_file) ''f'' = Some x \<and> n \<le> 3 \<and> ReplyData [1, 2, 3] = ReplyData (take n (drop 0 x))"
proof -
  obtain r w i where w: "fuse_handle map_operator (demo_clock 1) (ReqLookup 1 ''f'') one_file = (r, w)"
    "admissible map_operator (ReqLookup 1 ''f'') one_file" "im_get_path (inode_mgr w) i = Some ''f''"
    "no_cached_data i w" "dc_block_size (block_cache w) = 4" "obs_path (w_config w) ''f'' = ''f''"
    "w_store w = \<lparr>ms_objects = [(''f'', [1, 2, 3, 4, 5])], ms_broken = []\<rparr>"
    by (rule one_file_found)
  have reach: "read_reachable map_operator one_file w" using reads [OF initial w(2) _ w(1)] by simp
  obtain w1 where w1: "do_read map_operator (demo_clock 1) i 1 0 3 w =
        read_remote map_operator (demo_clock 1) i ''f'' 0 3 w1"
      "w_store w1 = w_store w" "block_cache w1 = block_cache w"
    using do_read_remote [OF w(4) _ w(3), of map_operator "demo_clock 1" 1 0 3] w(5,6) by auto
  have "op_read_range map_operator ''f'' 0 (0 + ucast (3 :: u32)) (w_store w1) = (Inr [1, 2, 3], w_store w)"
    using w1(2) w(7) by (simp add: map_operator_def)
  then obtain w' where "read_remote map_operator (demo_clock 1) i ''f'' 0 3 w1 = (Inr [1, 2, 3], w')"
    using read_remote_succeeds [of map_operator "''f''" 0 3 w1 "[1, 2, 3]" "w_store w" "demo_clock 1" i] w1(3) w(5) by auto
  then have h: "fuse_handle map_operator (demo_clock 1) (ReqRead i 1 0 3) w = (Inr (ReplyData [1, 2, 3]), w')"
    using w1(1) by (simp add: fuse_read_def map_fs_err_def with_reply_def)
  obtain p x n where x: "im_get_path (inode_mgr w) i = Some p" "n \<le> unat (3 :: u32)"
      "ms_obj \<lparr>ms_objects = [(''f'', [1, 2, 3, 4, 5])], ms_broken = []\<rparr> (obs_path demo_config p) = Some x"
      "ReplyData [1, 2, 3] = ReplyData (take n (drop (unat (0 :: u64)) x))"
    using reads_return_file [OF reach [unfolded one_file_start] map_operator_faithful map_operator_calm h] by blast
  have "obs_path demo_config p = ''f''" using x(1) w(3) by (simp add: obs_path_def demo_defs)
  then have "ms_obj (w_store one_file) ''f'' = Some x" using x(3) by simp
  with reach h x(2,4) show ?thesis by fastforce
qed

end
