(* ===== verification/Flights.thy ===== *)
theory Flights
  imports Coherence
begin

text \<open>
  Concurrent reads. The runtime interleaves the requests at the calls of the client: a read or a prefetch
  task that awaits its call is a flight, the store answers at any later moment, and the flight resumes at
  any moment after that, while other reads, prefetches and requests start, wait and end. The other
  requests are one step each. The actions are run by \<open>act\<close>, which yields the reply of a read that ends.
\<close>

section \<open>Actions\<close>

datatype call = ReadCall u64 u64 u32 | PrefetchCall prefetch_request

record flight =
  fl_call :: call
  fl_path :: string
  fl_reply :: "bytes result option"

text \<open>The inode, the offset and the number of bytes a call is about.\<close>

fun fl_target :: "call \<Rightarrow> u64 \<times> u64 \<times> u64" where
  "fl_target (ReadCall inode offset sz) = (inode, offset, ucast sz)"
| "fl_target (PrefetchCall p) = (pr_inode p, pr_offset p, pr_size p)"

datatype action =
  StartRead clock u64 u64 u64 u32 | StartPrefetch nat | StoreAnswers nat | Resume clock nat
| Handle clock fuse_request

type_synonym 's system = "'s world \<times> flight list"
type_synonym read_reply = "u64 \<times> u64 \<times> u32 \<times> bytes fs_result"

definition drop_nth :: "nat \<Rightarrow> 'a list \<Rightarrow> 'a list" where
  "drop_nth n xs = take n xs @ drop (Suc n) xs"

definition resume :: "clock \<Rightarrow> flight \<Rightarrow> bytes result \<Rightarrow> 's world \<Rightarrow> read_reply option \<times> 's world" where
  "resume c fl r w =
     (case fl_call fl of
        ReadCall inode offset sz \<Rightarrow>
          (case and_then (or_errno EIO (r, w)) (read_finish c inode offset sz (fl_path fl)) of
             (x, w1) \<Rightarrow> (Some (inode, offset, sz, x), w1))
      | PrefetchCall p \<Rightarrow> (None, prefetch_finish c p r w))"

fun act :: "'s operator \<Rightarrow> action \<Rightarrow> 's system \<Rightarrow> read_reply option \<times> 's system" where
  "act op (StartRead c inode fh offset sz) (w, fls) =
     (case read_begin c inode fh offset sz w of
        (Answered r, w1) \<Rightarrow> (Some (inode, offset, sz, r), (w1, fls))
      | (Asks path, w1) \<Rightarrow>
          (None, (w1, fls @ [\<lparr>fl_call = ReadCall inode offset sz, fl_path = path, fl_reply = None\<rparr>])))"
| "act op (StartPrefetch n) (w, fls) =
     (case prefetch_begin n w of
        (None, w1) \<Rightarrow> (None, (w1, fls))
      | (Some (path, p), w1) \<Rightarrow>
          (None, (w1, fls @ [\<lparr>fl_call = PrefetchCall p, fl_path = path, fl_reply = None\<rparr>])))"
| "act op (StoreAnswers n) (w, fls) =
     (if n < length fls \<and> fl_reply (fls ! n) = None
      then (case fl_target (fl_call (fls ! n)) of (inode, offset, sz) \<Rightarrow>
             (case in_net (oc_read_range op (fl_path (fls ! n)) offset sz) w of
                (r, w1) \<Rightarrow> (None, (w1, fls[n := (fls ! n)\<lparr>fl_reply := Some r\<rparr>]))))
      else (None, (w, fls)))"
| "act op (Resume c n) (w, fls) =
     (if n < length fls
      then (case fl_reply (fls ! n) of
              None \<Rightarrow> (None, (w, fls))
            | Some r \<Rightarrow> (case resume c (fls ! n) r w of (x, w1) \<Rightarrow> (x, (w1, drop_nth n fls))))
      else (None, (w, fls)))"
| "act op (Handle c req) (w, fls) = (case fuse_handle op c req w of (_, w1) \<Rightarrow> (None, (w1, fls)))"

text \<open>A read that runs alone, without another action in between, is the read of the core.\<close>

lemma act_read_alone:
  assumes "do_read op c i fh off sz w = (r, w')"
  shows "act op (StartRead c i fh off sz) (w, []) = (Some (i, off, sz, r), (w', [])) \<or>
     act op (Resume c 0) (snd (act op (StoreAnswers 0) (snd (act op (StartRead c i fh off sz) (w, []))))) =
       (Some (i, off, sz, r), (w', []))"
proof -
  obtain x w1 where b: "read_begin c i fh off sz w = (x, w1)" by (rule prod.exhaust)
  show ?thesis
  proof (cases x)
    case (Asks path)
    obtain y w2 where "in_net (oc_read_range op path off (ucast sz)) w1 = (y, w2)" by (rule prod.exhaust)
    with assms b Asks show ?thesis by (simp add: do_read_split read_remote_split resume_def drop_nth_def)
  qed (use assms b in \<open>simp add: do_read_split\<close>)
qed

section \<open>Read-only executions\<close>

fun may_act :: "'s operator \<Rightarrow> action \<Rightarrow> 's system \<Rightarrow> bool" where
  "may_act op (StartRead c inode fh offset sz) (w, fls) = (offset mod dc_block_size (block_cache w) = 0)"
| "may_act op (Handle c req) (w, fls) =
     (admissible op req w \<and> reading req (dc_block_size (block_cache w)) \<and> (\<forall>i fh off sz. req \<noteq> ReqRead i fh off sz))"
| "may_act op _ _ = True"

inductive acts :: "'s operator \<Rightarrow> 's world \<Rightarrow> 's system \<Rightarrow> bool" for op w0 where
  idle: "acts op w0 (w0, [])"
| acting: "acts op w0 S \<Longrightarrow> may_act op a S \<Longrightarrow> act op a S = (x, S') \<Longrightarrow> acts op w0 S'"

section \<open>What a flight carries\<close>

definition flight_ok :: "(string \<Rightarrow> bytes option) \<Rightarrow> 's world \<Rightarrow> flight \<Rightarrow> bool" where
  "flight_ok objs w fl \<longleftrightarrow>
     (case fl_target (fl_call fl) of (i, off, n) \<Rightarrow>
        (\<exists>p. im_get_path (inode_mgr w) i = Some p \<and> fl_path fl = obs_path (w_config w) p) \<and>
        (\<forall>d. fl_reply fl = Some (Inr d) \<longrightarrow> part_of (content_of objs w) i (unat off) d \<and> length d \<le> unat n)) \<and>
     (\<forall>i off sz. fl_call fl = ReadCall i off sz \<longrightarrow> off mod dc_block_size (block_cache w) = 0)"

definition system_ok ::
  "('s \<Rightarrow> string \<Rightarrow> bytes option) \<Rightarrow> (string \<Rightarrow> bytes option) \<Rightarrow> config \<Rightarrow> 's system \<Rightarrow> bool" where
  "system_ok obj objs cfg S \<longleftrightarrow> w_config (fst S) = cfg \<and> world_ok (fst S) \<and> coherent obj objs (fst S) \<and>
     (\<forall>fl \<in> set (snd S). flight_ok objs (fst S) fl)"

text \<open>Steps that keep the paths, the configuration and the block size keep the flights.\<close>

definition extends :: "'s world \<Rightarrow> 's world \<Rightarrow> bool" where
  "extends w w' \<longleftrightarrow> w_config w' = w_config w \<and> dc_block_size (block_cache w') = dc_block_size (block_cache w) \<and>
     (\<forall>i p. im_get_path (inode_mgr w) i = Some p \<longrightarrow> im_get_path (inode_mgr w') i = Some p)"

lemma same_view_extends: "same_view obj w w' \<Longrightarrow> extends w w'"
  by (simp add: same_view_def extends_def)

lemma flight_ok_extends:
  assumes "flight_ok objs w fl" "extends w w'" shows "flight_ok objs w' fl"
proof -
  have "content_of objs w \<subseteq>\<^sub>m content_of objs w'"
    using assms(2) by (auto simp: extends_def content_of_def map_le_def bind_eq_Some_conv)
  with assms part_of_mono show ?thesis
    by (fastforce simp: flight_ok_def extends_def split: prod.splits)
qed

lemma set_drop_nth: "set (drop_nth n xs) \<subseteq> set xs"
  using set_take_subset [of n xs] set_drop_subset [of "Suc n" xs] by (auto simp: drop_nth_def)

lemma system_okI:
  assumes "world_ok w'" "coherent obj objs w'" "extends w w'" "system_ok obj objs cfg (w, fls)"
    and "\<And>fl. fl \<in> set fls' \<Longrightarrow> fl \<in> set fls \<or> flight_ok objs w' fl"
  shows "system_ok obj objs cfg (w', fls')"
proof -
  have "w_config w' = w_config w" using assms(3) by (simp add: extends_def)
  with assms flight_ok_extends show ?thesis unfolding system_ok_def by (metis fst_conv snd_conv)
qed

section \<open>Every action keeps it\<close>

lemma read_finish_frame:
  "read_finish c i off sz path d w = (r, w') \<Longrightarrow>
     extends w w' \<and> (\<forall>d'. r = Inr d' \<longrightarrow> d' = d)"
  using dc_put_block_size [of "now_mono c" i off d "block_cache w"]
  by (auto simp: read_finish_def extends_def split: option.splits prod.splits)

lemma prefetch_finish_extends: "extends w (prefetch_finish c p r w)"
  by (simp add: prefetch_finish_def extends_def split: sum.split)

lemma resume_ok:
  assumes "world_ok w" "coherent obj objs w" "flight_ok objs w fl" "fl_reply fl = Some r" "resume c fl r w = (x, w')"
  shows "world_ok w' \<and> coherent obj objs w' \<and> extends w w' \<and>
     (\<forall>i off sz d. x = Some (i, off, sz, Inr d) \<longrightarrow>
        part_of (content_of objs w) i (unat off) d \<and> length d \<le> unat sz)"
proof (cases "fl_call fl")
  case (ReadCall i off sz)
  note fl = assms(3) [unfolded flight_ok_def ReadCall]
  show ?thesis
  proof (cases r)
    case (Inl e)
    with assms ReadCall show ?thesis by (auto simp: resume_def extends_def)
  next
    case (Inr d)
    obtain y w1 where f: "read_finish c i off sz (fl_path fl) d w = (y, w1)" by (rule prod.exhaust)
    have e: "x = Some (i, off, sz, y)" "w' = w1" using assms(5) ReadCall Inr f by (simp_all add: resume_def)
    obtain p where p: "im_get_path (inode_mgr w) i = Some p" "fl_path fl = obs_path (w_config w) p" using fl by auto
    have d: "part_of (content_of objs w) i (unat off) d" "length d \<le> unat sz" using fl assms(4) Inr by auto
    have al: "off mod dc_block_size (block_cache w) = 0" using fl by blast
    from read_finish_coherent [OF assms(2) p d(1) al f] read_finish_keeps [OF f assms(1)] read_finish_frame [OF f] d e
    show ?thesis by auto
  qed
next
  case (PrefetchCall p)
  have "coherent obj objs (prefetch_finish c p r w)"
    using assms(3,4) PrefetchCall by (intro prefetch_finish_coherent [OF assms(2)]) (simp add: flight_ok_def)
  with assms(1,5) PrefetchCall prefetch_parts_keep(2) prefetch_finish_extends show ?thesis by (auto simp: resume_def)
qed

lemma act_reply:
  assumes "system_ok obj objs cfg S" "act op a S = (Some (i, off, sz, Inr d), S')"
  shows "part_of (content_of objs (fst S)) i (unat off) d \<and> length d \<le> unat sz"
proof -
  obtain w fls where S: "S = (w, fls)" by (rule prod.exhaust)
  note ok = assms(1) [unfolded system_ok_def S fst_conv snd_conv]
  show ?thesis
  proof (cases a)
    case (StartRead c j fh off' sz')
    obtain x w1 where b: "read_begin c j fh off' sz' w = (x, w1)" by (rule prod.exhaust)
    with assms(2) S StartRead have "x = Answered (Inr d)" "j = i" "off' = off" "sz' = sz" by (cases x; auto)+
    with read_begin_coherent(2) [OF _ b] ok S show ?thesis by auto
  next
    case (Resume c n)
    obtain r where r: "n < length fls" "fl_reply (fls ! n) = Some r"
      using assms(2) S Resume by (auto split: if_splits option.splits)
    obtain x w1 where f: "resume c (fls ! n) r w = (x, w1)" by (rule prod.exhaust)
    with assms(2) S Resume r have "x = Some (i, off, sz, Inr d)" by simp
    moreover have "flight_ok objs w (fls ! n)" using ok r(1) by simp
    ultimately show ?thesis using resume_ok [OF _ _ _ r(2) f] ok S by auto
  qed (use assms(2) S in \<open>auto split: prod.splits option.splits if_splits\<close>)
qed

lemma act_ok:
  assumes "faithful_store op obj" "calm_store op obj" "system_ok obj objs cfg S" "may_act op a S" "act op a S = (x, S')"
  shows "system_ok obj objs cfg S'"
proof -
  obtain w fls where S: "S = (w, fls)" by (rule prod.exhaust)
  have ok: "world_ok w" "coherent obj objs w" "\<And>fl. fl \<in> set fls \<Longrightarrow> flight_ok objs w fl"
    using assms(3) by (simp_all add: system_ok_def S)
  note I = system_okI [OF _ _ _ assms(3) [unfolded S]]
  show ?thesis
  proof (cases a)
    case (StartRead c i fh off sz)
    obtain y w1 where b: "read_begin c i fh off sz w = (y, w1)" by (rule prod.exhaust)
    note rb = read_begin_coherent [OF ok(2) b] and k = read_begin_keeps [OF b ok(1)]
    have e: "extends w w1" using rb(1) by (simp add: extends_def)
    have al: "off mod dc_block_size (block_cache w1) = 0" using assms(4) S StartRead rb(1) by simp
    show ?thesis
    proof (cases y)
      case (Asks path)
      then have "flight_ok objs w1 \<lparr>fl_call = ReadCall i off sz, fl_path = path, fl_reply = None\<rparr>"
        using rb(1,3) al by (auto simp: flight_ok_def)
      with assms(5) S StartRead b Asks rb(1) k e show ?thesis by (auto intro!: I)
    qed (use assms(5) S StartRead b rb(1) k e in \<open>auto intro!: I\<close>)
  next
    case (StartPrefetch n)
    obtain y w1 where b: "prefetch_begin n w = (y, w1)" by (rule prod.exhaust)
    note pb = prefetch_begin_coherent [OF ok(2) b] and k = prefetch_parts_keep(1) [OF b ok(1)]
    have e: "extends w w1" using pb(1) by (simp add: extends_def)
    show ?thesis
    proof (cases y)
      case (Some z)
      obtain path p where z: "z = (path, p)" by (rule prod.exhaust)
      have "flight_ok objs w1 \<lparr>fl_call = PrefetchCall p, fl_path = path, fl_reply = None\<rparr>"
        using pb(1) pb(2) [of path p] Some z by (auto simp: flight_ok_def)
      with assms(5) S StartPrefetch b Some z pb(1) k e show ?thesis by (auto intro!: I)
    qed (use assms(5) S StartPrefetch b pb(1) k e in \<open>auto intro!: I\<close>)
  next
    case (StoreAnswers n)
    show ?thesis
    proof (cases "n < length fls \<and> fl_reply (fls ! n) = None")
      case True
      let ?fl = "fls ! n"
      obtain i off m where t: "fl_target (fl_call ?fl) = (i, off, m)" by (metis prod.exhaust)
      obtain r w1 where f: "in_net (oc_read_range op (fl_path ?fl) off m) w = (r, w1)" by (rule prod.exhaust)
      note fc = fetch_coherent [OF assms(1,2) ok(2) f]
      have e: "extends w w1" using fc(1) by (simp add: extends_def)
      have fl: "flight_ok objs w ?fl" using ok(3) True by simp
      then obtain p where p: "im_get_path (inode_mgr w) i = Some p" "fl_path ?fl = obs_path (w_config w) p"
        using t by (auto simp: flight_ok_def)
      have "content_of objs w1 = content_of objs w" using fc(1) by (simp add: content_of_def fun_eq_iff)
      moreover have "flight_ok objs w1 ?fl" by (rule flight_ok_extends [OF fl e])
      ultimately have "flight_ok objs w1 (?fl\<lparr>fl_reply := Some r\<rparr>)"
        using t fc(2) [OF _ p] by (auto simp: flight_ok_def)
      moreover have "world_ok w1" using in_net_keeps [OF f ok(1)] by blast
      ultimately show ?thesis
        using assms(5) S StoreAnswers True t f fc(1) e set_update_subset_insert [of fls n "?fl\<lparr>fl_reply := Some r\<rparr>"]
        by (auto intro!: I)
    qed (use assms(3,5) S StoreAnswers in \<open>auto split: if_splits\<close>)
  next
    case (Resume c n)
    show ?thesis
    proof (cases "n < length fls \<and> fl_reply (fls ! n) \<noteq> None")
      case True
      then obtain r where r: "n < length fls" "fl_reply (fls ! n) = Some r" by blast
      obtain y w1 where f: "resume c (fls ! n) r w = (y, w1)" by (rule prod.exhaust)
      have "flight_ok objs w (fls ! n)" using ok(3) r(1) by simp
      from resume_ok [OF ok(1,2) this r(2) f] assms(5) S Resume r f set_drop_nth [of n fls]
      show ?thesis by (auto intro!: I)
    qed (use assms(3,5) S Resume in \<open>auto split: if_splits\<close>)
  next
    case (Handle c req)
    obtain r w1 where h: "fuse_handle op c req w = (r, w1)" by (rule prod.exhaust)
    have m: "admissible op req w" "reading req (dc_block_size (block_cache w))" "\<And>i fh off sz. req \<noteq> ReqRead i fh off sz"
      using assms(4) S Handle by simp_all
    have v: "same_view obj w w1"
      using reading_view [OF assms(2) ok(1) m(1,2) _ m(3), of c] ok(2) h by (simp add: coherent_def)
    have "world_ok w1" using fuse_handle_keeps [OF ok(1) m(1), of c] h by (simp add: keeps_def)
    with coherent_view [OF ok(2) v] same_view_extends [OF v] assms(5) S Handle h show ?thesis by (auto intro!: I)
  qed
qed

lemma acts_ok:
  assumes "acts op w0 S" "faithful_store op obj" "calm_store op obj" "world_ok w0" "coherent obj objs w0"
  shows "system_ok obj objs (w_config w0) S"
  using assms
proof (induction rule: acts.induct)
  case idle
  then show ?case by (simp add: system_ok_def)
next
  case (acting S a x S')
  with act_ok show ?case by blast
qed

section \<open>Concurrent reads return the file\<close>

text \<open>C5 (concurrent reads return the file): however reads, prefetch tasks and other requests that write
  nothing interleave at the calls of the client, over a store that behaves as documented and answers each
  call at any moment, with reads at multiples of the block size, every read that ends with data returns
  bytes of the object of its file, from its offset on and at most as many as asked for.\<close>

theorem concurrent_reads_return_file:
  assumes "acts op (core_new c0 d cfg mt s) S" "faithful_store op obj" "calm_store op obj"
    and "act op a S = (Some (i, off, sz, Inr data), S')"
  shows "\<exists>p x n. im_get_path (inode_mgr (fst S)) i = Some p \<and> obj s (obs_path cfg p) = Some x \<and> n \<le> unat sz \<and>
     data = take n (drop (unat off) x)"
proof -
  have ok: "system_ok obj (obj s) cfg S"
    using acts_ok [OF assms(1-3) core_new_ok core_new_coherent] by (simp add: core_new_def)
  have "part_of (content_of (obj s) (fst S)) i (unat off) data" "length data \<le> unat sz"
    using act_reply [OF ok assms(4)] by simp_all
  then show ?thesis using part_of_object [of "obj s" "fst S" i off data sz] ok by (simp add: system_ok_def)
qed

lemma read_begin_misses:
  assumes "no_cached_data i w" "dc_block_size (block_cache w) \<noteq> 0" "im_get_path (inode_mgr w) i = Some p"
  obtains w' where "read_begin c i fh off sz w = (Asks (obs_path (w_config w) p), w')"
    "no_cached_data i w'" "inode_mgr w' = inode_mgr w" "w_config w' = w_config w" "w_store w' = w_store w"
    "block_cache w' = block_cache w"
proof -
  obtain mt' where g: "dc_get (now_mono c) i off (block_cache w, inc_read_ops (w_metrics w)) =
      Some (None, (block_cache w, mt'))"
    using no_cached_block [OF assms(1,2)] by blast
  note p = no_cached_prefetch [OF assms(1), of "now_mono c" off]
  let ?w' = "w\<lparr>handle_mgr := hm_update fh (update_position (now_mono c) off (ucast sz)) (handle_mgr w), w_metrics := mt'\<rparr>"
  show thesis
  proof (rule that [of ?w'])
    show "read_begin c i fh off sz w = (Asks (obs_path (w_config w) p), ?w')"
      using assms(3) p g by (simp add: read_begin_def get_path_def Let_def)
  qed (use assms(1) in \<open>simp_all add: no_cached_data_def\<close>)
qed

text \<open>Two reads overlap: both ask, the store answers the second first, which then ends.\<close>

lemma concurrent_reads_return_file_witness:
  "\<exists>S S' i x n. acts map_operator one_file S \<and> length (snd S) = 2 \<and>
     act map_operator (Resume (demo_clock 3) 1) S = (Some (i, 4, 8, Inr [5]), S') \<and>
     ms_obj (w_store one_file) ''f'' = Some x \<and> n \<le> 8 \<and> [5] = take n (drop 4 x)"
proof -
  obtain r w i where w: "fuse_handle map_operator (demo_clock 1) (ReqLookup 1 ''f'') one_file = (r, w)"
    "admissible map_operator (ReqLookup 1 ''f'') one_file" "im_get_path (inode_mgr w) i = Some ''f''"
    "no_cached_data i w" "dc_block_size (block_cache w) = 4" "obs_path (w_config w) ''f'' = ''f''"
    "w_store w = \<lparr>ms_objects = [(''f'', [1, 2, 3, 4, 5])], ms_broken = []\<rparr>"
    by (rule one_file_found)
  have a0: "acts map_operator one_file (w, [])"
    by (rule acting [OF idle, of map_operator "Handle (demo_clock 1) (ReqLookup 1 ''f'')" one_file None]) (use w(1,2) in simp_all)
  obtain w1 where w1: "read_begin (demo_clock 2) i 1 0 3 w = (Asks ''f'', w1)" "no_cached_data i w1"
      "inode_mgr w1 = inode_mgr w" "w_config w1 = w_config w" "w_store w1 = w_store w" "block_cache w1 = block_cache w"
    using read_begin_misses [OF w(4) _ w(3), of "demo_clock 2" 1 0 3] w(5,6) by auto
  let ?f1 = "\<lparr>fl_call = ReadCall i 0 3, fl_path = ''f'', fl_reply = None\<rparr>"
  have a1: "acts map_operator one_file (w1, [?f1])"
    by (rule acting [OF a0, of "StartRead (demo_clock 2) i 1 0 3" None]) (use w1(1) in simp_all)
  obtain w2 where w2: "read_begin (demo_clock 2) i 1 4 8 w1 = (Asks ''f'', w2)" "inode_mgr w2 = inode_mgr w"
      "w_store w2 = w_store w" "block_cache w2 = block_cache w"
    using read_begin_misses [OF w1(2) _ w(3) [folded w1(3)], of "demo_clock 2" 1 4 8] w1(3-6) w(5,6) by auto
  let ?f2 = "\<lparr>fl_call = ReadCall i 4 8, fl_path = ''f'', fl_reply = None\<rparr>"
  have a2: "acts map_operator one_file (w2, [?f1, ?f2])"
    by (rule acting [OF a1, of "StartRead (demo_clock 2) i 1 4 8" None]) (use w2(1) w1(6) w(5) in simp_all)
  have "op_read_range map_operator ''f'' 4 12 (w_store w2) = (Inr [5], w_store w2)"
    using w(7) w2(3) by (simp add: map_operator_def)
  then obtain mt where f: "in_net (oc_read_range map_operator ''f'' 4 8) w2 = (Inr [5], w2\<lparr>w_metrics := mt\<rparr>)"
    by (simp add: in_net_def oc_read_range_def)
  let ?w3 = "w2\<lparr>w_metrics := mt\<rparr>"
  let ?S = "(?w3, [?f1, ?f2\<lparr>fl_reply := Some (Inr [5])\<rparr>])"
  have a3: "acts map_operator one_file ?S"
    by (rule acting [OF a2, of "StoreAnswers 1" None]) (use f in simp_all)
  obtain dc where "dc_put (now_mono (demo_clock 3)) i 4 [5] (block_cache ?w3) = Some dc"
    using dc_put_returns [of "now_mono (demo_clock 3)" i 4 "[5]" "block_cache ?w3"] w2(4) w(5) by fastforce
  moreover obtain request ra where "record_read (now_mono (demo_clock 3)) i 4 8 (ra_mgr ?w3) = (request, ra)"
    by (rule prod.exhaust)
  ultimately obtain S' where h: "act map_operator (Resume (demo_clock 3) 1) ?S = (Some (i, 4, 8, Inr [5]), S')"
    by (simp add: resume_def read_finish_def)
  obtain p x n where x: "im_get_path (inode_mgr (fst ?S)) i = Some p" "n \<le> unat (8 :: u32)"
      "ms_obj \<lparr>ms_objects = [(''f'', [1, 2, 3, 4, 5])], ms_broken = []\<rparr> (obs_path demo_config p) = Some x"
      "[5] = take n (drop (unat (4 :: u64)) x)"
    using concurrent_reads_return_file [OF a3 [unfolded one_file_start] map_operator_faithful map_operator_calm h] by blast
  have "p = ''f''" using x(1) w2(2) w(3) by simp
  then have "ms_obj (w_store one_file) ''f'' = Some x" using x(3) by (simp add: obs_path_def demo_defs)
  moreover have "n \<le> 8" "[5] = take n (drop 4 x)" using x(2,4) by simp_all
  moreover have "length (snd ?S) = 2" by simp
  ultimately show ?thesis using a3 h by blast
qed

end
