(* ===== verification/Races.thy ===== *)
theory Races
  imports Flights
begin

text \<open>
  What a request that overlaps a read can leave behind. A read puts what the store answered into the
  block cache when it resumes, whatever happened since the call: a truncation that ran in between is
  undone for every later read.
\<close>

section \<open>A truncation during a read\<close>

lemma slice_take_drop: "slice n (min (n + k) (length d)) d = take k (drop n d)"
  by (simp add: slice_def min_def)

lemma do_truncate_empties:
  assumes "faithful_store op obj" "do_truncate op c i 0 w = (Inr u, w')" "im_get_path (inode_mgr w) i = Some p"
  shows "obj (w_store w') = (obj (w_store w))(obs_path (w_config w) p \<mapsto> []) \<and> inode_mgr w' = inode_mgr w \<and>
     w_config w' = w_config w \<and> dc_block_size (block_cache w') = dc_block_size (block_cache w) \<and>
     (\<forall>off. dash_get (prefetch_buffer (ra_mgr w')) \<lparr>pk_inode = i, pk_offset = off\<rparr> = None)"
proof -
  let ?path = "obs_path (w_config w) p"
  obtain r w1 where t: "in_wb (wb_truncate op (now_mono c) i ?path 0) w = (r, w1)" by (rule prod.exhaust)
  have r: "r = Inr u" "w' = w1\<lparr>block_cache := dc_invalidate i (block_cache w1), ra_mgr := ra_invalidate i (ra_mgr w1)\<rparr>"
    using assms(2,3) t by (cases r; auto simp: do_truncate_def get_path_def)+
  obtain wb mt s where b: "wb_truncate op (now_mono c) i ?path 0 (write_buf w, (w_metrics w, w_store w)) = (Inr u, (wb, (mt, s)))"
      "w1 = w\<lparr>write_buf := wb, w_metrics := mt, w_store := s\<rparr>"
    using t r(1) by (auto simp: in_wb_Inr)
  obtain buf wb1 where g: "get_or_create (now_mono c) i ?path 0 (write_buf w) = (buf, wb1)" by (rule prod.exhaust)
  obtain x buf1 mt1 s1 where l: "truncate_locked op ?path 0 (buf, (w_metrics w, w_store w)) = (x, (buf1, (mt1, s1)))"
    by (metis prod.exhaust)
  have "x = Inr u" "s1 = s" using b(1) g l by (auto simp: wb_truncate_def)
  then have "obj s = (obj (w_store w))(?path \<mapsto> [])" using truncate_effect [OF assms(1)] l by blast
  moreover have "dash_get (prefetch_buffer (ra_invalidate i (ra_mgr w))) \<lparr>pk_inode = i, pk_offset = off\<rparr> = None" for off
    by (simp add: ra_invalidate_buffer)
  ultimately show ?thesis using r(2) b(2) by simp
qed

text \<open>C39 (a truncation during a read is undone): a read asks the store, the store answers, and before
  the read resumes the file is truncated to size zero, successfully. When the read has ended, the object
  is empty, but the bytes from before the truncation are in the cache as the contents of the block of the
  read: a later read of that block, at any instant, is answered from them without asking the store, as long
  as it starts at a position within the block that they reach. A read of the start of the block always
  does when the store returned any bytes.\<close>

theorem truncate_during_read_stale:
  assumes "faithful_store op obj" "read_begin c i fh off sz w = (Asks path, w1)"
    and "in_net (oc_read_range op path off (ucast sz)) w1 = (Inr d, w2)"
    and "do_truncate op c1 i 0 w2 = (Inr u, w3)" "read_finish c2 i off sz path d w3 = (Inr d', w4)"
    and "off' div dc_block_size (block_cache w) = off div dc_block_size (block_cache w)"
    and "unat (off' mod dc_block_size (block_cache w)) < length d"
  shows "obj (w_store w4) path = Some [] \<and>
     (\<exists>w5. do_read op c3 i fh' off' sz' w4 =
         (Inr (take (unat sz') (drop (unat (off' mod dc_block_size (block_cache w))) d)), w5) \<and> w_store w5 = w_store w4)"
proof -
  let ?n = "unat (off' mod dc_block_size (block_cache w))"
  obtain p where p: "im_get_path (inode_mgr w) i = Some p" "path = obs_path (w_config w) p"
    using read_begin_asks [OF assms(2)] by blast
  have w2: "inode_mgr w2 = inode_mgr w" "w_config w2 = w_config w"
      "dc_block_size (block_cache w2) = dc_block_size (block_cache w)"
    using read_begin_asks [OF assms(2)] assms(3) by (auto simp: in_net_Inr)
  note t = do_truncate_empties [OF assms(1,4), of p, unfolded w2, OF p(1)]
  obtain dc where put: "dc_put (now_mono c2) i off d (block_cache w3) = Some dc"
    using assms(5) by (cases "dc_put (now_mono c2) i off d (block_cache w3)") (simp_all add: read_finish_def)
  obtain request ra where rr: "record_read (now_mono c2) i off (ucast sz) (ra_mgr w3) = (request, ra)" by (rule prod.exhaust)
  have w4: "block_cache w4 = dc" "ra_mgr w4 = ra" "inode_mgr w4 = inode_mgr w" "w_store w4 = w_store w3"
    using assms(5) put rr t by (auto simp: read_finish_def)
  have np: "get_prefetched (now_mono c3) \<lparr>pk_inode = i, pk_offset = off'\<rparr> (ra_mgr w4) = (None, ra_mgr w4)"
    using record_read_effect [OF rr] t w4(2) by (simp add: get_prefetched_def)
  have "block_key_new i off' (dc_block_size (block_cache w3)) = block_key_new i off (dc_block_size (block_cache w3))"
    using assms(6) t by (simp add: block_key_new_def)
  then obtain dc1 mt where g: "dc_get (now_mono c3) i off' (block_cache w4, inc_read_ops (w_metrics w4)) = Some (Some d, (dc1, mt))"
    using dc_get_after_put [OF put, of off' "now_mono c3" "inc_read_ops (w_metrics w4)"] w4(1) by (metis prod.collapse)
  have "dc_block_size dc1 = dc_block_size (block_cache w)"
    using dc_get_keeps [OF g] dc_put_block_size [OF put] w4(1) t by simp
  then have "\<exists>w5. do_read op c3 i fh' off' sz' w4 =
       (Inr (slice ?n (min (?n + unat sz') (length d)) d), w5) \<and> w_store w5 = w_store w4"
    using p(1) w4(3) np g assms(7) by (simp add: do_read_def get_path_def Let_def)
  moreover have "obj (w_store w4) path = Some []" using t w4(4) p(2) by simp
  ultimately show ?thesis by (simp add: slice_take_drop)
qed

lemma truncate_during_read_stale_witness:
  "\<exists>w i w1 w2 w3 w4 w5. read_begin (demo_clock 2) i 1 0 3 w = (Asks ''f'', w1) \<and>
     in_net (oc_read_range map_operator ''f'' 0 (ucast (3 :: u32))) w1 = (Inr [1, 2, 3], w2) \<and>
     do_truncate map_operator (demo_clock 3) i 0 w2 = (Inr (), w3) \<and>
     read_finish (demo_clock 4) i 0 3 ''f'' [1, 2, 3] w3 = (Inr [1, 2, 3], w4) \<and>
     ms_obj (w_store w4) ''f'' = Some [] \<and>
     do_read map_operator (demo_clock 5) i 1 1 2 w4 = (Inr [2, 3], w5)"
proof -
  obtain r w i where w: "fuse_handle map_operator (demo_clock 1) (ReqLookup 1 ''f'') one_file = (r, w)"
    "admissible map_operator (ReqLookup 1 ''f'') one_file" "im_get_path (inode_mgr w) i = Some ''f''"
    "no_cached_data i w" "dc_block_size (block_cache w) = 4" "obs_path (w_config w) ''f'' = ''f''"
    "w_store w = \<lparr>ms_objects = [(''f'', [1, 2, 3, 4, 5])], ms_broken = []\<rparr>"
    by (rule one_file_found)
  obtain w1 where w1: "read_begin (demo_clock 2) i 1 0 3 w = (Asks ''f'', w1)"
      "inode_mgr w1 = inode_mgr w" "w_config w1 = w_config w" "w_store w1 = w_store w" "block_cache w1 = block_cache w"
    using read_begin_misses [OF w(4) _ w(3), of "demo_clock 2" 1 0 3] w(5,6) by auto
  have "op_read_range map_operator ''f'' 0 3 (w_store w1) = (Inr [1, 2, 3], w_store w1)"
    using w(7) w1(4) by (simp add: map_operator_def)
  then obtain mt where f: "in_net (oc_read_range map_operator ''f'' 0 (ucast (3 :: u32))) w1 = (Inr [1, 2, 3], w1\<lparr>w_metrics := mt\<rparr>)"
    by (simp add: in_net_def oc_read_range_def)
  let ?w2 = "w1\<lparr>w_metrics := mt\<rparr>"
  obtain buf wb where "get_or_create (now_mono (demo_clock 3)) i ''f'' 0 (write_buf w1) = (buf, wb)" by (rule prod.exhaust)
  then obtain w3 where t: "do_truncate map_operator (demo_clock 3) i 0 ?w2 = (Inr (), w3)"
    using w(3,6,7) w1(2-4)
    by (simp add: do_truncate_def get_path_def in_wb_def wb_truncate_def truncate_locked_def Let_def)
  have b: "dc_block_size (block_cache w3) = 4"
    using do_truncate_empties [OF map_operator_faithful t] w(3,5) w1(2,5) by simp
  obtain dc where "dc_put (now_mono (demo_clock 4)) i 0 [1, 2, 3] (block_cache w3) = Some dc"
    using dc_put_returns [of "now_mono (demo_clock 4)" i 0 "[1, 2, 3]" "block_cache w3"] b by fastforce
  moreover obtain request ra where "record_read (now_mono (demo_clock 4)) i 0 3 (ra_mgr w3) = (request, ra)"
    by (rule prod.exhaust)
  ultimately obtain w4 where fin: "read_finish (demo_clock 4) i 0 3 ''f'' [1, 2, 3] w3 = (Inr [1, 2, 3], w4)"
    by (simp add: read_finish_def)
  have "(1 :: u64) div dc_block_size (block_cache w) = 0 div dc_block_size (block_cache w)"
      "unat ((1 :: u64) mod dc_block_size (block_cache w)) < length [1, 2, 3 :: u8]" using w(5) by simp_all
  from truncate_during_read_stale [OF map_operator_faithful w1(1) f t fin this, of "demo_clock 5" 1 2]
  obtain w5 where "ms_obj (w_store w4) ''f'' = Some []" "do_read map_operator (demo_clock 5) i 1 1 2 w4 = (Inr [2, 3], w5)"
    using w(5) by auto
  with w1(1) f t fin show ?thesis by blast
qed

end
