(* ===== verification/Cli.thy ===== *)
theory Cli
  imports Config Decimal Platform
begin

text \<open>
  The command line (src/src/main.rs): the configuration a mount command starts with, the mount itself
  with the cleanup of a stale mount point, and the unmount command, in their Linux arms.

  \<open>mount_args\<close> are the arguments as clap delivers them: a \<open>region\<close> that is never missing, and an
  endpoint and keys that may come from the environment already; \<open>foreground\<close> is never read and the two
  log arguments only set up logging. The parsing of sizes, the TOML file,
  the environment and the calls of the host (\<open>host\<close>) are parameters. Logging, the panic hook and the
  texts of errors are not modelled.
\<close>

section \<open>Arguments and configuration\<close>

record mount_args =
  arg_bucket :: string
  arg_mountpoint :: string
  arg_endpoint :: "string option"
  arg_access_key :: "string option"
  arg_secret_key :: "string option"
  arg_region :: string
  arg_prefix :: "string option"
  arg_config :: "string option"
  arg_cache_dir :: "string option"
  arg_memory_cache_size :: "string option"
  arg_disk_cache_size :: "string option"
  arg_metadata_ttl :: "u64 option"
  arg_read_ahead :: "bool option"
  arg_write_buffer_size :: "string option"
  arg_allow_root :: bool
  arg_allow_other :: bool
  arg_read_only :: bool
  arg_foreground :: bool
  arg_log_level :: string
  arg_log_file :: "string option"
  arg_uid :: "u32 option"
  arg_gid :: "u32 option"
  arg_file_mode :: "string option"
  arg_dir_mode :: "string option"

datatype cli_error =
  LoadConfigFailed obs_fuse_error | BadSize string | BadMode | InvalidConfiguration obs_fuse_error
| CreateFilesystemFailed | CreateMountPointFailed | MountFailed
| FusermountNotRun | FusermountFailed

text \<open>\<open>trim_start_matches\<close> with a string removes it as often as it is a prefix.\<close>

lemma strip_prefix_shorter: "strip_prefix s (p # ps) = Some r \<Longrightarrow> length r < length s"
proof (induction ps arbitrary: s p)
  case Nil
  then show ?case by (cases s) (auto split: if_splits)
next
  case (Cons q qs)
  then show ?case by (cases s) (fastforce split: if_splits)+
qed

function trim_start_str :: "string \<Rightarrow> string \<Rightarrow> string" where
  "trim_start_str [] s = s"
| "trim_start_str (p # ps) s =
     (case strip_prefix s (p # ps) of
        None \<Rightarrow> s
      | Some rest \<Rightarrow> trim_start_str (p # ps) rest)"
  by pat_completeness auto

termination by (relation "measure (\<lambda>(p, s). length s)") (auto dest: strip_prefix_shorter)

declare trim_start_str.simps(2) [simp del]

definition parse_mode :: "string \<Rightarrow> u32 option" where
  "parse_mode s =
     map_option of_nat (from_str_radix 32 8 (trim_start_str ''0'' (trim_start_str ''0o'' s)))"

text \<open>The optional overrides: a value that fails to parse stops the start.\<close>

definition set_size ::
  "(string \<Rightarrow> string + u64) \<Rightarrow> string option \<Rightarrow> (u64 \<Rightarrow> config \<Rightarrow> config) \<Rightarrow> config \<Rightarrow> cli_error + config" where
  "set_size parse_size arg f c =
     (case arg of
        None \<Rightarrow> Inr c
      | Some s \<Rightarrow> (case parse_size s of Inl e \<Rightarrow> Inl (BadSize e) | Inr n \<Rightarrow> Inr (f n c)))"

definition set_mode ::
  "string option \<Rightarrow> (u32 \<Rightarrow> fixed_permission \<Rightarrow> fixed_permission) \<Rightarrow> config \<Rightarrow> cli_error + config" where
  "set_mode arg f c =
     (case arg of
        None \<Rightarrow> Inr c
      | Some s \<Rightarrow>
          (case parse_mode s of
             None \<Rightarrow> Inl BadMode
           | Some m \<Rightarrow>
               Inr (c\<lparr>cfg_permission := (cfg_permission c)\<lparr>pc_fixed := f m (pc_fixed (cfg_permission c))\<rparr>\<rparr>)))"

definition then_cfg :: "cli_error + config \<Rightarrow> (config \<Rightarrow> cli_error + config) \<Rightarrow> cli_error + config" where
  "then_cfg r k = (case r of Inl e \<Rightarrow> Inl e | Inr c \<Rightarrow> k c)"

definition or_old :: "'a option \<Rightarrow> 'a \<Rightarrow> 'a" where
  "or_old arg old = (case arg of Some v \<Rightarrow> v | None \<Rightarrow> old)"

definition override_obs :: "mount_args \<Rightarrow> obs_config \<Rightarrow> obs_config" where
  "override_obs a c =
     c\<lparr>bucket := arg_bucket a, region := arg_region a,
       endpoint := or_old (arg_endpoint a) (''obs.'' @ arg_region a @ ''.myhuaweicloud.com''),
       access_key := (case arg_access_key a of Some k \<Rightarrow> Some k | None \<Rightarrow> access_key c),
       secret_key := (case arg_secret_key a of Some k \<Rightarrow> Some k | None \<Rightarrow> secret_key c),
       obs_prefix := arg_prefix a\<rparr>"

definition override_metadata_ttl :: "mount_args \<Rightarrow> config \<Rightarrow> config" where
  "override_metadata_ttl a c =
     (case arg_metadata_ttl a of
        None \<Rightarrow> c
      | Some t \<Rightarrow> c\<lparr>cfg_cache := (cfg_cache c)\<lparr>cfg_metadata := (cfg_metadata (cfg_cache c))\<lparr>attr_ttl := secs (unat t)\<rparr>\<rparr>\<rparr>)"

definition override_ids :: "mount_args \<Rightarrow> config \<Rightarrow> config" where
  "override_ids a c =
     c\<lparr>cfg_fuse := (cfg_fuse c)\<lparr>allow_root := arg_allow_root a, allow_other := arg_allow_other a,
                                read_only := arg_read_only a\<rparr>,
       cfg_permission := (cfg_permission c)\<lparr>pc_fixed := (pc_fixed (cfg_permission c))
         \<lparr>fp_uid := or_old (arg_uid a) (fp_uid (pc_fixed (cfg_permission c))),
          fp_gid := or_old (arg_gid a) (fp_gid (pc_fixed (cfg_permission c)))\<rparr>\<rparr>\<rparr>"

definition apply_overrides :: "(string \<Rightarrow> string + u64) \<Rightarrow> mount_args \<Rightarrow> config \<Rightarrow> cli_error + config" where
  "apply_overrides parse_size a c0 =
     (let c1 = c0\<lparr>cfg_obs := override_obs a (cfg_obs c0)\<rparr>;
          c2 = (case arg_cache_dir a of
                  None \<Rightarrow> c1 | Some d \<Rightarrow> c1\<lparr>cfg_cache := (cfg_cache c1)\<lparr>cfg_cache_dir := Some d\<rparr>\<rparr>)
      in then_cfg (set_size parse_size (arg_memory_cache_size a)
             (\<lambda>n c. c\<lparr>cfg_cache := (cfg_cache c)\<lparr>cfg_memory_limit := n\<rparr>\<rparr>) c2) (\<lambda>c3.
         then_cfg (set_size parse_size (arg_disk_cache_size a)
             (\<lambda>n c. c\<lparr>cfg_cache := (cfg_cache c)\<lparr>cfg_disk_limit := n\<rparr>\<rparr>) c3) (\<lambda>c4.
         (let c5 = override_metadata_ttl a c4;
              c6 = c5\<lparr>cfg_performance := (cfg_performance c5)
                        \<lparr>read_ahead := or_old (arg_read_ahead a) (read_ahead (cfg_performance c5))\<rparr>\<rparr>
          in then_cfg (set_size parse_size (arg_write_buffer_size a)
                 (\<lambda>n c. c\<lparr>cfg_performance := (cfg_performance c)\<lparr>write_buffer_size := n\<rparr>\<rparr>) c6) (\<lambda>c7.
             then_cfg (set_mode (arg_file_mode a) (\<lambda>m p. p\<lparr>fp_file_mode := m\<rparr>) (override_ids a c7)) (\<lambda>c8.
             set_mode (arg_dir_mode a) (\<lambda>m p. p\<lparr>fp_dir_mode := m\<rparr>) c8))))))"

text \<open>\<open>unwrap_or_default\<close>: a default configuration file that cannot be loaded is passed over.\<close>

definition load_config ::
  "(string \<Rightarrow> obs_fuse_error + config) \<Rightarrow> (obs_fuse_error + config) \<Rightarrow> config \<Rightarrow> mount_args \<Rightarrow> cli_error + config" where
  "load_config load_file default_location default_config a =
     (case arg_config a of
        Some path \<Rightarrow> (case load_file path of Inl e \<Rightarrow> Inl (LoadConfigFailed e) | Inr c \<Rightarrow> Inr c)
      | None \<Rightarrow> Inr (case default_location of Inr c \<Rightarrow> c | Inl _ \<Rightarrow> default_config))"

definition mount_config ::
  "(string \<Rightarrow> obs_fuse_error + config) \<Rightarrow> (obs_fuse_error + config) \<Rightarrow> config \<Rightarrow> (string \<Rightarrow> string + u64) \<Rightarrow>
     (string \<Rightarrow> string option) \<Rightarrow> mount_args \<Rightarrow> cli_error + config" where
  "mount_config load_file default_location default_config parse_size env a =
     then_cfg (load_config load_file default_location default_config a) (\<lambda>c0.
     then_cfg (apply_overrides parse_size a c0) (\<lambda>c1.
       (let c2 = merge_env env c1
        in case validate c2 of Inl e \<Rightarrow> Inl (InvalidConfiguration e) | Inr _ \<Rightarrow> Inr c2)))"

section \<open>Mounting and unmounting\<close>

record mount_options =
  mo_fs_name :: string
  mo_read_only :: bool
  mo_allow_root :: bool
  mo_allow_other :: bool

text \<open>The calls of the host over its state \<open>'e\<close>. \<open>read_dir_error\<close> is \<open>None\<close> when the directory can be
  read, and else the error number of the operating system if there is one. \<open>fusermount\<close> is \<open>None\<close> when the
  command cannot be run, and else whether it succeeded.\<close>

record 'e host =
  path_exists :: "string \<Rightarrow> 'e \<Rightarrow> bool"
  read_dir_error :: "string \<Rightarrow> 'e \<Rightarrow> int option option"
  fusermount :: "string list \<Rightarrow> string \<Rightarrow> 'e \<Rightarrow> bool option \<times> 'e"
  create_dir_all :: "string \<Rightarrow> 'e \<Rightarrow> bool \<times> 'e"
  new_filesystem :: "config \<Rightarrow> 'e \<Rightarrow> bool \<times> 'e"
  fuse_mount :: "mount_options \<Rightarrow> string \<Rightarrow> 'e \<Rightarrow> bool \<times> 'e"
  wait_interrupt :: "'e \<Rightarrow> 'e"
  fuse_unmount :: "string \<Rightarrow> 'e \<Rightarrow> bool \<times> 'e"

definition force_unmount :: "'e host \<Rightarrow> string \<Rightarrow> 'e \<Rightarrow> 'e" where
  "force_unmount h mountpoint e = snd (fusermount h [''-u'', ''-z''] mountpoint e)"

definition stale_error :: "int option \<Rightarrow> bool" where
  "stale_error raw_error \<longleftrightarrow> raw_error = Some ENXIO \<or> raw_error = Some EIO \<or> raw_error = Some ENOTCONN"

text \<open>What the second reading of the directory finds is only logged.\<close>

definition cleanup_stale_mount :: "'e host \<Rightarrow> string \<Rightarrow> 'e \<Rightarrow> 'e" where
  "cleanup_stale_mount h mountpoint e =
     (if \<not> path_exists h mountpoint e then e
      else (case read_dir_error h mountpoint e of
              None \<Rightarrow> e
            | Some raw_error \<Rightarrow> if \<not> stale_error raw_error then e else force_unmount h mountpoint e))"

definition mount_options_of :: "config \<Rightarrow> mount_options" where
  "mount_options_of c =
     \<lparr>mo_fs_name = fs_name (cfg_fuse c), mo_read_only = read_only (cfg_fuse c),
      mo_allow_root = allow_root (cfg_fuse c), mo_allow_other = allow_other (cfg_fuse c)\<rparr>"

definition mount_unix :: "'e host \<Rightarrow> config \<Rightarrow> string \<Rightarrow> 'e \<Rightarrow> (cli_error + unit) \<times> 'e" where
  "mount_unix h c mountpoint e =
     (case new_filesystem h c e of
        (False, e1) \<Rightarrow> (Inl CreateFilesystemFailed, e1)
      | (True, e1) \<Rightarrow>
          (let e2 = cleanup_stale_mount h mountpoint e1
           in case (if path_exists h mountpoint e2 then (True, e2) else create_dir_all h mountpoint e2) of
                (False, e3) \<Rightarrow> (Inl CreateMountPointFailed, e3)
              | (True, e3) \<Rightarrow>
                  (case fuse_mount h (mount_options_of c) mountpoint e3 of
                     (False, e4) \<Rightarrow> (Inl MountFailed, e4)
                   | (True, e4) \<Rightarrow>
                       (case fuse_unmount h mountpoint (wait_interrupt h e4) of
                          (True, e5) \<Rightarrow> (Inr (), e5)
                        | (False, e5) \<Rightarrow> (Inr (), force_unmount h mountpoint e5)))))"

definition unmount :: "'e host \<Rightarrow> string \<Rightarrow> 'e \<Rightarrow> (cli_error + unit) \<times> 'e" where
  "unmount h mountpoint e =
     (case fusermount h [''-u''] mountpoint e of
        (None, e1) \<Rightarrow> (Inl FusermountNotRun, e1)
      | (Some False, e1) \<Rightarrow> (Inl FusermountFailed, e1)
      | (Some True, e1) \<Rightarrow> (Inr (), e1))"

definition run_mount ::
  "'e host \<Rightarrow> (string \<Rightarrow> obs_fuse_error + config) \<Rightarrow> (obs_fuse_error + config) \<Rightarrow> config \<Rightarrow> (string \<Rightarrow> string + u64) \<Rightarrow>
     (string \<Rightarrow> string option) \<Rightarrow> mount_args \<Rightarrow> 'e \<Rightarrow> (cli_error + unit) \<times> 'e" where
  "run_mount h load_file default_location default_config parse_size env a e =
     (case mount_config load_file default_location default_config parse_size env a of
        Inl err \<Rightarrow> (Inl err, e)
      | Inr c \<Rightarrow> mount_unix h c (arg_mountpoint a) e)"

section \<open>What the configuration of a mount depends on\<close>

lemma set_size_Inr:
  "set_size ps arg f c = Inr c' \<Longrightarrow> c' = c \<or> (\<exists>n. c' = f n c)"
  by (auto simp: set_size_def split: option.splits sum.splits)

lemma set_mode_Inr:
  "set_mode arg f c = Inr c' \<Longrightarrow> cfg_obs c' = cfg_obs c \<and> cfg_fuse c' = cfg_fuse c \<and> cfg_cache c' = cfg_cache c"
  by (auto simp: set_mode_def split: option.splits)

lemma then_cfg_Inr: "then_cfg r k = Inr c \<longleftrightarrow> (\<exists>c0. r = Inr c0 \<and> k c0 = Inr c)"
  by (cases r) (auto simp: then_cfg_def)

lemma apply_overrides_Inr:
  assumes "apply_overrides ps a c0 = Inr c"
  shows "cfg_obs c = override_obs a (cfg_obs c0) \<and> allow_root (cfg_fuse c) = arg_allow_root a \<and>
     allow_other (cfg_fuse c) = arg_allow_other a \<and> read_only (cfg_fuse c) = arg_read_only a"
proof -
  have m: "cfg_obs (override_metadata_ttl a d) = cfg_obs d" for d
    by (simp add: override_metadata_ttl_def split: option.split)
  show ?thesis
    using assms
    by (auto simp: apply_overrides_def Let_def then_cfg_Inr m override_ids_def
        dest!: set_size_Inr set_mode_Inr split: option.splits)
qed

text \<open>C26 (what a mount is configured with): the bucket, region, endpoint, prefix and mount flags of a mount
  that starts never come from a configuration file: a variable of the environment wins, then the
  command line, and the endpoint without either is derived from the region of the command line, also
  when the environment sets another region. Bucket and keys are present.\<close>

theorem mount_config_effective:
  assumes "mount_config load_file default_location default_config ps env a = Inr c"
  shows "bucket (cfg_obs c) = or_old (env ''OBS_BUCKET'') (arg_bucket a) \<and> bucket (cfg_obs c) \<noteq> [] \<and>
     region (cfg_obs c) = or_old (env ''OBS_REGION'') (arg_region a) \<and>
     endpoint (cfg_obs c) = or_old (env ''OBS_ENDPOINT'')
       (or_old (arg_endpoint a) (''obs.'' @ arg_region a @ ''.myhuaweicloud.com'')) \<and>
     obs_prefix (cfg_obs c) = arg_prefix a \<and> access_key (cfg_obs c) \<noteq> None \<and> secret_key (cfg_obs c) \<noteq> None \<and>
     allow_root (cfg_fuse c) = arg_allow_root a \<and> allow_other (cfg_fuse c) = arg_allow_other a \<and>
     read_only (cfg_fuse c) = arg_read_only a"
proof -
  obtain c0 c1 where o: "apply_overrides ps a c0 = Inr c1"
      "(case validate (merge_env env c1) of Inl e \<Rightarrow> Inl (InvalidConfiguration e) | Inr _ \<Rightarrow> Inr (merge_env env c1)) = Inr c"
    using assms by (auto simp: mount_config_def then_cfg_Inr Let_def)
  then have c: "c = merge_env env c1" "validate c = Inr ()"
    by (cases "validate (merge_env env c1)"; simp)+
  have "obs_prefix (merge_env_obs env d) = obs_prefix d" for d
    by (simp add: merge_env_obs_def Let_def split: option.split)
  with apply_overrides_Inr [OF o(1)] c show ?thesis
    by (auto simp: merge_env_def merge_env_obs_fields override_obs_def or_old_def validate_Inr_iff split: option.splits)
qed

definition sample_args :: mount_args where
  "sample_args =
     \<lparr>arg_bucket = ''b'', arg_mountpoint = ''/mnt'', arg_endpoint = None, arg_access_key = None, arg_secret_key = None,
      arg_region = ''r1'', arg_prefix = None, arg_config = None, arg_cache_dir = None, arg_memory_cache_size = None,
      arg_disk_cache_size = None, arg_metadata_ttl = None, arg_read_ahead = None, arg_write_buffer_size = None,
      arg_allow_root = False, arg_allow_other = False, arg_read_only = True, arg_foreground = False,
      arg_log_level = ''info'', arg_log_file = None, arg_uid = None, arg_gid = None,
      arg_file_mode = None, arg_dir_mode = None\<rparr>"

lemma mount_config_effective_witness:
  "\<exists>c. mount_config (\<lambda>_. Inl (Internal [])) (Inr (config_default 0 0)) (config_default 0 0) Inl
       [''OBS_ACCESS_KEY'' \<mapsto> ''k'', ''OBS_SECRET_KEY'' \<mapsto> ''s'', ''OBS_REGION'' \<mapsto> ''r2''] sample_args = Inr c \<and>
     region (cfg_obs c) = ''r2'' \<and> endpoint (cfg_obs c) = ''obs.r1.myhuaweicloud.com''"
proof -
  let ?m = "mount_config (\<lambda>_. Inl (Internal [])) (Inr (config_default 0 0)) (config_default 0 0) Inl
      [''OBS_ACCESS_KEY'' \<mapsto> ''k'', ''OBS_SECRET_KEY'' \<mapsto> ''s'', ''OBS_REGION'' \<mapsto> ''r2''] sample_args"
  obtain c where "?m = Inr c"
    by (simp add: mount_config_def load_config_def then_cfg_def apply_overrides_def sample_args_def set_size_def
        set_mode_def override_metadata_ttl_def override_ids_def Let_def validate_def merge_env_def merge_env_obs_fields
        override_obs_def config_default_def cache_config_default_def)
  with mount_config_effective [OF this] show ?thesis by (simp add: or_old_def sample_args_def)
qed

section \<open>Permission modes\<close>

text \<open>Numbers in octal, as a reference for the parser.\<close>

fun octal :: "nat \<Rightarrow> string" where
  "octal n = (if n < 8 then [digit_char n] else octal (n div 8) @ [digit_char (n mod 8)])"

declare octal.simps [simp del]

lemma digit_value_octal: "d < 8 \<Longrightarrow> digit_value 8 (digit_char d) = Some d"
  by (simp add: digit_value_def Let_def)

lemma digits_value_octal: "digits_value 8 0 (octal n) = Some n"
proof (induction n rule: octal.induct)
  case (1 n)
  then show ?case
    by (cases "n < 8") (simp_all add: octal.simps [of n] digits_value_append digit_value_octal)
qed

lemma hd_octal: "0 < n \<Longrightarrow> octal n \<noteq> [] \<and> (\<exists>d. 0 < d \<and> d < 8 \<and> hd (octal n) = digit_char d)"
proof (induction n rule: octal.induct)
  case (1 n)
  then show ?case
    by (cases "n < 8") (auto simp: octal.simps [of n] hd_append)
qed

lemma octal_start:
  assumes "0 < n" shows "\<exists>d cs. octal n = d # cs \<and> d \<noteq> CHR ''0'' \<and> d \<noteq> CHR ''+'' \<and> d \<noteq> CHR ''o''"
proof -
  obtain d where d: "octal n \<noteq> []" "0 < d" "d < 8" "hd (octal n) = digit_char d" using hd_octal [OF assms] by blast
  have e: "(of_char (digit_char d) :: nat) = 48 + d" using d(3) by simp
  have "digit_char d \<noteq> c" if "(of_char c :: nat) = 48 \<or> (of_char c :: nat) = 43 \<or> (of_char c :: nat) = 111" for c
    using e d(2,3) that by auto
  then have "digit_char d \<noteq> CHR ''0''" "digit_char d \<noteq> CHR ''+''" "digit_char d \<noteq> CHR ''o''" by simp_all
  with d(1,4) show ?thesis by (cases "octal n") auto
qed

lemma trim_zeros: "trim_start_str ''0'' (replicate k (CHR ''0'')) = []" "trim_start_str ''0o'' (replicate k (CHR ''0'')) = replicate k (CHR ''0'')"
proof -
  show "trim_start_str ''0'' (replicate k (CHR ''0'')) = []"
    by (induction k) (simp_all add: trim_start_str.simps(2))
  show "trim_start_str ''0o'' (replicate k (CHR ''0'')) = replicate k (CHR ''0'')"
  proof (cases k)
    case (Suc j)
    then show ?thesis by (cases j) (simp_all add: trim_start_str.simps(2))
  qed (simp add: trim_start_str.simps(2))
qed

lemma trim_prefixes: "trim_start_str ''0o'' (concat (replicate j ''0o'') @ s) = trim_start_str ''0o'' s"
  by (induction j) (simp_all add: trim_start_str.simps(2) [of _ _ "_ # _"])

text \<open>C27 (permission modes): a mode is read as an octal number, alike without a prefix, with a leading zero
  and with the prefix of Rust, for every mode above zero that 32 bits can hold. Zero is refused when it is
  written with zeros only, also after any number of prefixes 0o, since the trimming leaves nothing to parse;
  with a sign before it, as +0, it is read.\<close>

theorem parse_mode_octal:
  assumes "0 < n" "n < 2 ^ 32"
  shows "parse_mode (octal n) = Some (of_nat n) \<and> parse_mode (''0'' @ octal n) = Some (of_nat n) \<and>
     parse_mode (''0o'' @ octal n) = Some (of_nat n) \<and>
     parse_mode (concat (replicate j ''0o'') @ replicate k (CHR ''0'')) = None \<and> parse_mode ''+0'' = Some 0"
proof -
  obtain d cs where o: "octal n = d # cs" "d \<noteq> CHR ''0''" "d \<noteq> CHR ''+''" "d \<noteq> CHR ''o''" using octal_start [OF assms(1)] by blast
  have num: "from_str_radix 32 8 (octal n) = Some n"
    using o assms(2) digits_value_octal [of n] by (simp add: from_str_radix_def starts_with_def Let_def)
  have t: "trim_start_str ''0'' (octal n) = octal n" "trim_start_str ''0o'' (octal n) = octal n"
      "trim_start_str ''0'' (''0'' @ octal n) = octal n" "trim_start_str ''0o'' (''0'' @ octal n) = ''0'' @ octal n"
      "trim_start_str ''0o'' (''0o'' @ octal n) = octal n"
    using o by (simp_all add: trim_start_str.simps(2))
  have "parse_mode (concat (replicate j ''0o'') @ replicate k (CHR ''0'')) = None"
    by (simp only: parse_mode_def trim_prefixes trim_zeros) (simp add: from_str_radix_def starts_with_def)
  moreover have "parse_mode ''+0'' = Some 0"
    by (simp add: parse_mode_def trim_start_str.simps(2) from_str_radix_def starts_with_def digit_value_def Let_def)
  ultimately show ?thesis using num t by (simp add: parse_mode_def)
qed

lemma parse_mode_octal_witness: "parse_mode ''0644'' = Some 420 \<and> parse_mode ''0o0'' = None"
proof -
  have "octal 420 = ''644''" by code_simp
  with parse_mode_octal [of 420 1 1] show ?thesis by simp
qed

end
