(* ===== verification/Spec2Isabelle.thy ===== *)
theory Spec2Isabelle
  imports Platform Errors Metrics Attr Handle MetaCache DataCacheProps Readahead WriteBufferProps Retry Permission WinFspProps Replies Interleave Races Cli
begin

text \<open>
  A verification development for \<^bold>\<open>obsfuse\<close>, a file system over an object store
  (Huawei Cloud OBS through the OpenDAL crate), mounted with FUSE on Unix and with WinFSP on Windows.
  All sources are under \<open>src/src\<close>; the paths below are relative to it.

  \<^bold>\<open>The program.\<close> The kernel hands a request to a front end, \<open>ObsFs\<close>
  (fs/fuse_impl.rs) or \<open>WinFspFs\<close>
  (fs/winfsp_impl.rs). Both call the operations \<open>do_*\<close> of \<open>ObsFsCore\<close> (fs/core.rs), which owns the
  inode table, the table of open handles, the metadata cache, the data cache, the read-ahead manager
  and the write buffer, and sends what they cannot answer to \<open>ObsClient\<close> (storage/obs.rs). The program
  in main.rs builds the configuration, mounts and unmounts.

  \<^bold>\<open>How the model follows it.\<close> Every struct is a record with the same fields, every enum a datatype.
  The state of a mounted file system is the record \<open>world\<close> of Core, with one field per component, the
  counters and the state \<open>'s\<close> of the store. An operation maps a world to a result and a world. A result
  is a sum: \<open>Inr\<close> a value, \<open>Inl (Err e)\<close> an error that the code returns, \<open>Inl Panic\<close> a panic of the
  code, \<open>Inl Hang\<close> a call that does not return. \<open>and_then\<close> and \<open>or_errno\<close> are the \<open>?\<close> operator and
  \<open>map_err\<close>. Integers are words of their width and wrap as the release build does, sizes of buffers in
  memory are naturals; a hash map is an association list (\<open>dash\<close>, Prelude) because iteration and
  eviction depend on its elements. Times are integers of nanoseconds, of a monotonic clock in instants
  and since 1970 in system times, durations are naturals; both clocks are read from a \<open>clock\<close> that is an
  argument of each operation.

  \<^bold>\<open>Theories and sources.\<close>
    \<^item> Prelude, IdTable, TtlCache, Decimal: the shared library. IdTable and TtlCache state the
      contracts of a table that mints numbers and of a cache with a time to live as locales; they are
      interpreted on the inode table, the handle table, the metadata cache and the prefetch buffer. The
      locale of Contents, for predicates on the blocks of the data cache, is interpreted on the parts of files.
    \<^item> Platform, FileTime (fs/platform.rs), Errors (utils/error.rs, the classification of
      storage/retry.rs), Metrics (utils/metrics.rs), Config (config.rs), Dir (fs/dir.rs),
      Attr (fs/attr.rs and the object metadata of storage/obs.rs), Permission (fs/permission.rs).
    \<^item> Inode (fs/inode.rs), Handle (fs/handle.rs), MetaCache (cache/metadata.rs), DataCache
      (cache/data.rs), Readahead (cache/readahead.rs), WriteBuffer (cache/write_buffer.rs), Multipart
      (storage/multipart.rs), ObsClient (storage/obs.rs), Retry (storage/retry.rs): the components, each
      with its state and every operation that changes it. Float64 is the \<open>f64\<close> arithmetic of the retry
      delays: rounding to 53 bits with ties to even, infinities, NaN, and the conversions of durations.
    \<^item> Core (fs/core.rs): the world, every operation, and \<open>run_prefetch\<close>, the prefetch task that a read
      spawns, as a step of its own that may run at any later time or never.
    \<^item> Fuse (fs/fuse_impl.rs): the handlers, and \<open>fuse_handle\<close>, the dispatch of a request.
    \<^item> WinFsp (fs/winfsp_impl.rs): the operations of the Windows interface.
    \<^item> Cli (main.rs): the configuration of a mount, the mount and the unmount.

  \<^bold>\<open>What the lemmas show.\<close>
    \<^item> DataCacheProps, WriteBufferProps, and the last sections of Inode, Handle, MetaCache, Readahead,
      Multipart, Retry and Permission: the correctness of each component by itself. Paths and inodes are
      inverse to each other, handles are not reused, an attribute that is served is the last one put, with
      its later updates, and has not expired, the memory of the data cache stays within its limit and evicts the least recently
      used block, the disk cache and the write buffer are bounded, prefetched ranges do not overlap,
      sequential writes that fit the buffer are stored as their concatenation, retries are bounded.
    \<^item> CoreProps: a file that is created, written and released reads back what was written.
    \<^item> Namespace: the operations on names refine a plain map from paths to numbers.
    \<^item> Interleave: \<open>get_or_create_inode\<close> split into its single accesses, and what holds of concurrent calls
      under every schedule.
    \<^item> Lifecycle, Paging: what is seen after a create, unlink, rmdir or rename, and that the pages of a
      directory are the parts of its listing.
    \<^item> Consistency: when a read does not see a write: the bytes are still buffered, or were prefetched.
    \<^item> BufferRuns, Serving, CoreRuns, FuseRuns, FuseProps: the invariant of the world (\<open>world_ok\<close>) along
      all sequences of admissible requests and prefetch tasks (\<open>fuse_reachable\<close>, an inductive relation),
      and that every request is answered, with a reply or one of three error numbers. Replies: that
      a reply fits its request.
    \<^item> Contents, Coherence: what the blocks and prefetched ranges contain on workloads that only read
      (\<open>read_reachable\<close>), and that every read returns bytes of the object of its file.
    \<^item> InFlight, Flights, Races: a read and a prefetch task split at the call of the store that they await.
      The parts in sequence are the operations of Core. Under every interleaving of such reads, prefetches
      and other requests that write nothing (\<open>acts\<close>), reads return the file; a truncation between the
      answer of the store and the end of a read is undone by the cache.
    \<^item> WinFspRuns, WinFspProps: the same invariant for the Windows operations, and what they answer.

  \<^bold>\<open>Parameters.\<close> What is not in the sources is an argument of the definitions that use it. The record
  \<open>operator\<close> (ObsClient) holds the requests of the OpenDAL operator over a store state; where a property
  relies on a store that returns what was written, \<open>faithful_store\<close> states it, and where it relies on
  objects that do not change by being looked at, \<open>calm_store\<close>; the witnesses use
  \<open>map_operator\<close>, a store that is an association list with a list of broken paths. The clock, the disk
  behind the disk cache, the host calls of main.rs, the parsers of TOML and of sizes, the operations on
  floating point numbers of the hit rates and the callback that fills a Windows listing are parameters as well.

  \<^bold>\<open>Termination and bounds.\<close> The upload loop of storage/multipart.rs does not end when the part size is
  zero; it is a \<open>partial_function (option)\<close> whose \<open>None\<close> is \<open>Hang\<close>, and it is shown to end for a
  positive part size and not to end for zero once there is data. The retry loop is defined in the same way and shown to
  end with fewer than u32::MAX retries, a multiplier that is not negative and a maximal delay that converts to \<open>f64\<close> seconds
  and back (\<open>retry_bounded\<close>; \<open>Duration::MAX\<close> does not, and the code panics). All other loops are total functions, so no fuel is used. The counters of inodes
  and handles are 64 bits wide; \<open>room\<close> and \<open>handle_room\<close> say that a request does not exhaust them.
  Other assumptions on a request (\<open>admissible\<close>) are that names are path components, that nanoseconds
  are below a second, and that a rename does not land on the path of another known inode, for which
  \<open>rename_over_existing_aliases\<close> shows what goes wrong.

  \<^bold>\<open>Not modelled.\<close> The inside of OpenDAL, fuse3, the WinFSP host and clap; \<open>mount_winfsp\<close>, which only runs
  that host; logging, tracing and the panic hook; the serde adapters and the printed form of
  errors; names that are not UTF-8. Interleavings of two requests inside
  an operation, at the points where the code awaits the store, are modelled for reads, prefetch tasks
  (Flights) and the calls of Interleave; any other operation is one step. Tests, benchmarks and examples
  are not modelled. \<open>core_new\<close> leaves out that building the client may fail (\<open>build_operator\<close>).
\<close>

end
